(* ===== verification/Prelude.thy ===== *)
theory Prelude
  imports
    Main
    "HOL-Library.Word"
    "HOL-Library.AList"
    "HOL-Library.Char_ord"
    "HOL-Library.List_Lexorder"
    "HOL-Library.Product_Lexorder"
    "HOL-Library.Sublist"
    "HOL-Library.Code_Target_Nat"
begin

text \<open>
  What every component of the model shares: the machine integers and clock readings of the
  Rust code, the outcome of a call that may panic, the part of Rust's standard library the
  sources use (\<open>cmp::Reverse\<close>, decimal \<open>to_string\<close> and \<open>parse\<close>, string prefixes), a
  \<open>HashMap\<close> as an association list, and the generic lemmas and simp collections the component
  theories build on.

  Conventions. The image is built with \<open>cargo build --release\<close> (Dockerfile) and no profile
  overrides the overflow checks, so \<open>+\<close> and \<open>-\<close> on integers wrap: a \<open>u64\<close> is a
  64-bit word. A \<open>SystemTime\<close> is the number of nanoseconds since the Unix epoch, negative
  before it; an \<open>Instant\<close> counts the nanoseconds of the monotonic clock. A string is the list
  of its UTF-8 bytes, so \<open>length\<close> is Rust's \<open>len\<close> and the order of strings is Rust's byte
  order.
\<close>

named_theorems alist_laws \<open>lookups and keys of an association list after an operation\<close>

section \<open>Machine integers, clocks and panics\<close>

type_synonym u64 = "64 word"
type_synonym i64 = "64 word" \<comment> \<open>read with \<open>sint\<close>\<close>
type_synonym uuid = "128 word"
type_synonym system_time = int
type_synonym instant = int

text \<open>A call either panics or returns; the code's \<open>Result\<close> is a sum, \<open>Inl\<close> the error.\<close>

datatype 'a run = Panic | Done 'a

definition run_bind :: "'a run \<Rightarrow> ('a \<Rightarrow> 'b run) \<Rightarrow> 'b run" where
  "run_bind r f = (case r of Panic \<Rightarrow> Panic | Done x \<Rightarrow> f x)"

lemma run_bind_simps [simp]: "run_bind Panic f = Panic" "run_bind (Done x) f = f x"
  by (simp_all add: run_bind_def)

lemma run_bind_Panic: "run_bind r f = Panic \<longleftrightarrow> r = Panic \<or> (\<exists>x. r = Done x \<and> f x = Panic)"
  by (cases r) simp_all

lemma run_bind_Done: "run_bind r f = Done y \<longleftrightarrow> (\<exists>x. r = Done x \<and> f x = Done y)"
  by (cases r) simp_all

abbreviation nanos_per_sec :: int where
  "nanos_per_sec \<equiv> 1000000000"

text \<open>
  \<open>t.duration_since(UNIX_EPOCH).unwrap_or_default()\<close>: a time before the epoch is an error,
  whose default is the zero duration. A duration is its number of nanoseconds.
\<close>

definition since_epoch :: "system_time \<Rightarrow> nat" where
  "since_epoch t = (if t < 0 then 0 else nat t)"

definition as_secs :: "nat \<Rightarrow> u64" where
  "as_secs d = of_nat (d div 1000000000)"

definition subsec_nanos :: "nat \<Rightarrow> nat" where
  "subsec_nanos d = d mod 1000000000"

text \<open>A \<open>SystemTime\<close> holds its seconds in an \<open>i64\<close>; adding beyond that panics.\<close>

definition representable :: "system_time \<Rightarrow> bool" where
  "representable t \<longleftrightarrow> - (2 ^ 63) \<le> t div nanos_per_sec \<and> t div nanos_per_sec < 2 ^ 63"

definition time_add_secs :: "system_time \<Rightarrow> u64 \<Rightarrow> system_time run" where
  "time_add_secs t secs =
     (let t' = t + uint secs * nanos_per_sec
      in if representable t' then Done t' else Panic)"

text \<open>The whole seconds of a clock reading, without the machine width.\<close>

definition epoch_sec :: "system_time \<Rightarrow> nat" where
  "epoch_sec t = since_epoch t div 1000000000"

lemma as_secs_since_epoch: "as_secs (since_epoch t) = of_nat (epoch_sec t)"
  by (simp add: as_secs_def epoch_sec_def)

lemma epoch_sec_less: "representable t \<Longrightarrow> epoch_sec t < 2 ^ 63"
  unfolding representable_def epoch_sec_def since_epoch_def
  by (auto simp: nat_div_distrib zless_nat_eq_int_zless simp flip: nat_div_distrib)

lemma epoch_sec_mono: "s \<le> t \<Longrightarrow> epoch_sec s \<le> epoch_sec t"
  unfolding epoch_sec_def since_epoch_def by (auto intro!: div_le_mono nat_mono)

lemma unat_as_secs: "representable t \<Longrightarrow> unat (as_secs (since_epoch t)) = epoch_sec t"
  using epoch_sec_less [of t] by (simp add: as_secs_since_epoch unat_of_nat take_bit_eq_mod)

section \<open>\<open>std::cmp::Reverse\<close>\<close>

datatype 'a reverse = Reverse (unreverse: 'a)

instantiation reverse :: (linorder) linorder
begin

definition less_eq_reverse :: "'a reverse \<Rightarrow> 'a reverse \<Rightarrow> bool" where
  "x \<le> y \<longleftrightarrow> unreverse y \<le> unreverse x"

definition less_reverse :: "'a reverse \<Rightarrow> 'a reverse \<Rightarrow> bool" where
  "x < y \<longleftrightarrow> unreverse y < unreverse x"

instance
  by standard (auto simp: less_eq_reverse_def less_reverse_def reverse.expand)

end

lemma Reverse_le_iff [simp]: "Reverse x \<le> Reverse y \<longleftrightarrow> y \<le> x"
  by (simp add: less_eq_reverse_def)

lemma Reverse_less_iff [simp]: "Reverse x < Reverse y \<longleftrightarrow> y < x"
  by (simp add: less_reverse_def)

section \<open>A \<open>HashMap\<close> as an association list\<close>

text \<open>
  A hash map is the association list of its entries in some iteration order, with one entry
  per key. The list is one of the orders Rust may iterate in; a theorem about a result that
  depends on the order is stated for every such list. An existing entry is overwritten where it
  stands, a new one is added.
\<close>

type_synonym ('k, 'v) hash_map = "('k \<times> 'v) list"

abbreviation hm_get :: "('k, 'v) hash_map \<Rightarrow> 'k \<Rightarrow> 'v option" where
  "hm_get m k \<equiv> map_of m k"

abbreviation hm_insert :: "'k \<Rightarrow> 'v \<Rightarrow> ('k, 'v) hash_map \<Rightarrow> ('k, 'v) hash_map" where
  "hm_insert k v m \<equiv> AList.update k v m"

abbreviation hm_remove :: "'k \<Rightarrow> ('k, 'v) hash_map \<Rightarrow> ('k, 'v) hash_map" where
  "hm_remove k m \<equiv> AList.delete k m"

definition hm_ok :: "('k, 'v) hash_map \<Rightarrow> bool" where
  "hm_ok m \<longleftrightarrow> distinct (map fst m)"

definition hm_retain :: "('k \<Rightarrow> 'v \<Rightarrow> bool) \<Rightarrow> ('k, 'v) hash_map \<Rightarrow> ('k, 'v) hash_map" where
  "hm_retain p m = filter (\<lambda>(k, v). p k v) m"

lemma hm_ok_Nil [simp, alist_laws]: "hm_ok []"
  by (simp add: hm_ok_def)

lemma hm_ok_insert [simp, alist_laws]: "hm_ok m \<Longrightarrow> hm_ok (hm_insert k v m)"
  by (simp add: hm_ok_def distinct_update)

lemma hm_ok_remove [simp, alist_laws]: "hm_ok m \<Longrightarrow> hm_ok (hm_remove k m)"
  by (simp add: hm_ok_def distinct_delete)

lemma hm_ok_retain [simp, alist_laws]: "hm_ok m \<Longrightarrow> hm_ok (hm_retain p m)"
  by (induction m) (auto simp: hm_ok_def hm_retain_def)

lemma hm_get_insert [simp, alist_laws]:
  "hm_get (hm_insert k v m) k' = (if k' = k then Some v else hm_get m k')"
  by (simp add: update_conv)

lemma hm_get_remove [simp, alist_laws]:
  "hm_get (hm_remove k m) k' = (if k' = k then None else hm_get m k')"
  by (simp add: delete_conv)

lemma hm_get_retain [alist_laws]:
  "hm_ok m \<Longrightarrow> hm_get (hm_retain p m) k =
     (case hm_get m k of None \<Rightarrow> None | Some v \<Rightarrow> if p k v then Some v else None)"
  by (induction m)
     (auto simp: hm_retain_def hm_ok_def map_of_eq_None_iff split: option.splits prod.splits
       intro: rev_image_eqI dest: map_of_SomeD)

lemma hm_mem_iff: "hm_ok m \<Longrightarrow> (k, v) \<in> set m \<longleftrightarrow> hm_get m k = Some v"
  by (simp add: hm_ok_def)

lemma length_hm_insert:
  "length (hm_insert k v m) = (if hm_get m k = None then Suc (length m) else length m)"
  by (induction m) auto

section \<open>Strings\<close>

definition starts_with :: "string \<Rightarrow> string \<Rightarrow> bool" where
  "starts_with s p \<longleftrightarrow> take (length p) s = p"

definition ends_with :: "string \<Rightarrow> string \<Rightarrow> bool" where
  "ends_with s p \<longleftrightarrow> length p \<le> length s \<and> drop (length s - length p) s = p"

definition strip_prefix :: "string \<Rightarrow> string \<Rightarrow> string option" where
  "strip_prefix s p = (if starts_with s p then Some (drop (length p) s) else None)"

lemma starts_with_append [simp]: "starts_with (p @ s) p"
  by (simp add: starts_with_def)

lemma ends_with_append [simp]: "ends_with (s @ p) p"
  by (simp add: ends_with_def)

lemma starts_with_iff: "starts_with s p \<longleftrightarrow> (\<exists>r. s = p @ r)"
  by (metis append_take_drop_id starts_with_append starts_with_def)

lemma strip_prefix_Some: "strip_prefix s p = Some r \<longleftrightarrow> s = p @ r"
  by (auto simp: strip_prefix_def starts_with_iff)

lemma strip_prefix_None: "strip_prefix s p = None \<longleftrightarrow> \<not> starts_with s p"
  by (simp add: strip_prefix_def)

text \<open>\<open>split(sep)\<close>: the pieces between the separators, one more than there are separators.\<close>

fun split_on :: "char \<Rightarrow> string \<Rightarrow> string list" where
  "split_on c [] = [[]]"
| "split_on c (x # xs) =
     (if x = c then [] # split_on c xs
      else (case split_on c xs of [] \<Rightarrow> [[x]] | p # ps \<Rightarrow> (x # p) # ps))"

lemma split_on_nonempty [simp]: "split_on c s \<noteq> []"
  by (induction s) (auto split: list.splits)

lemma length_split_on: "length (split_on c s) = Suc (count_list s c)"
  by (induction s) (auto split: list.splits)

lemma split_on_notin: "c \<notin> set s \<Longrightarrow> split_on c s = [s]"
  by (induction s) auto

lemma split_on_append: "c \<notin> set s \<Longrightarrow> split_on c (s @ c # t) = s # split_on c t"
  by (induction s) auto

section \<open>Decimal numbers\<close>

text \<open>\<open>to_string\<close> of an unsigned integer, and \<open>str::parse\<close> for it: an optional plus
  sign, at least one digit, and no overflow.\<close>

definition digit :: "nat \<Rightarrow> char" where
  "digit n = char_of (48 + n)"

fun show_nat :: "nat \<Rightarrow> string" where
  "show_nat n = (if n < 10 then [digit n] else show_nat (n div 10) @ [digit (n mod 10)])"

declare show_nat.simps [simp del]

definition digit_value :: "char \<Rightarrow> nat option" where
  "digit_value c = (let n = of_char c in if 48 \<le> n \<and> n \<le> 57 then Some (n - 48) else None)"

fun parse_digits :: "nat \<Rightarrow> string \<Rightarrow> nat option" where
  "parse_digits acc [] = Some acc"
| "parse_digits acc (c # cs) =
     (case digit_value c of None \<Rightarrow> None | Some d \<Rightarrow> parse_digits (10 * acc + d) cs)"

definition parse_unsigned :: "nat \<Rightarrow> string \<Rightarrow> nat option" where
  "parse_unsigned width s =
     (let ds = (case s of [] \<Rightarrow> [] | c # cs \<Rightarrow> if c = CHR ''+'' then cs else s)
      in if ds = [] then None
         else (case parse_digits 0 ds of
                 None \<Rightarrow> None
               | Some n \<Rightarrow> if n < 2 ^ width then Some n else None))"

definition parse_u64 :: "string \<Rightarrow> u64 option" where
  "parse_u64 s = map_option of_nat (parse_unsigned 64 s)"

text \<open>The same for \<open>i64\<close>, where a minus sign may lead.\<close>

definition parse_i64 :: "string \<Rightarrow> i64 option" where
  "parse_i64 s =
     (case s of
        [] \<Rightarrow> None
      | c # cs \<Rightarrow>
          if c = CHR ''-''
          then (if cs = [] then None
                else (case parse_digits 0 cs of
                        None \<Rightarrow> None
                      | Some n \<Rightarrow> if n \<le> 2 ^ 63 then Some (- of_nat n) else None))
          else map_option of_nat (parse_unsigned 63 s))"

lemma digit_value_digit [simp]: "n < 10 \<Longrightarrow> digit_value (digit n) = Some n"
  by (simp add: digit_value_def digit_def)

lemma digit_inject: "m < 10 \<Longrightarrow> n < 10 \<Longrightarrow> digit m = digit n \<longleftrightarrow> m = n"
  by (metis digit_value_digit option.inject)

lemma parse_digits_append:
  "parse_digits acc (s @ t) = Option.bind (parse_digits acc s) (\<lambda>a. parse_digits a t)"
  by (induction s arbitrary: acc) (auto split: option.splits)

lemma parse_digits_show: "parse_digits 0 (show_nat n) = Some n"
proof (induction n rule: show_nat.induct)
  case (1 n)
  then show ?case
    by (cases "n < 10") (auto simp: show_nat.simps [of n] parse_digits_append)
qed

lemma show_nat_inject [simp]: "show_nat m = show_nat n \<longleftrightarrow> m = n"
  by (metis option.inject parse_digits_show)

lemma show_nat_nonempty [simp]: "show_nat n \<noteq> []"
  by (subst show_nat.simps) simp

lemma digit_neq: "d < 10 \<Longrightarrow> digit_value c = None \<Longrightarrow> digit d \<noteq> c"
  by (metis digit_value_digit option.distinct(1))

lemma show_nat_notin: "digit_value c = None \<Longrightarrow> c \<notin> set (show_nat n)"
proof (induction n rule: show_nat.induct)
  case (1 n)
  then show ?case
    using digit_neq [of n c] digit_neq [of "n mod 10" c]
    by (subst show_nat.simps) auto
qed

lemma digit_value_punctuation [simp]:
  "digit_value CHR '':'' = None" "digit_value CHR ''+'' = None" "digit_value CHR ''/'' = None"
  by (simp_all add: digit_value_def)

lemma parse_unsigned_show: "n < 2 ^ w \<Longrightarrow> parse_unsigned w (show_nat n) = Some n"
  using parse_digits_show [of n] show_nat_notin [of "CHR ''+''" n]
  by (cases "show_nat n") (auto simp: parse_unsigned_def)

section \<open>Lists\<close>

lemma length_filter_split:
  assumes "\<And>x. x \<in> set xs \<Longrightarrow> P x \<longleftrightarrow> Q x \<or> R x" and "\<And>x. x \<in> set xs \<Longrightarrow> \<not> (Q x \<and> R x)"
  shows "length (filter P xs) = length (filter Q xs) + length (filter R xs)"
  using assms by (induction xs) auto

lemma length_filter_mono: "(\<And>x. P x \<Longrightarrow> Q x) \<Longrightarrow> length (filter P xs) \<le> length (filter Q xs)"
  by (induction xs) (auto intro: le_SucI)

lemma take_drop_rest: "take n (drop k xs) @ drop (k + length (take n (drop k xs))) xs = drop k xs"
  by (metis append_eq_conv_conj append_take_drop_id drop_drop add.commute)

lemma last_take_drop:
  assumes page: "take n (drop k xs) \<noteq> []" and j: "k + length (take n (drop k xs)) = Suc j"
  shows "last (take n (drop k xs)) = xs ! j"
proof -
  let ?p = "length (take n (drop k xs)) - 1"
  have p: "?p < length (take n (drop k xs))"
    using page by (metis diff_less length_greater_0_conv zero_less_one)
  then have "?p < n" by (metis length_take min_less_iff_conj)
  then have "take n (drop k xs) ! ?p = drop k xs ! ?p" by (rule nth_take)
  also have "drop k xs ! ?p = xs ! (k + ?p)"
    using page by (intro nth_drop) (cases "k \<le> length xs", auto)
  finally have "take n (drop k xs) ! ?p = xs ! (k + ?p)" .
  moreover have "k + ?p = j" using j p by linarith
  ultimately show ?thesis by (simp only: last_conv_nth [OF page])
qed

lemma take_drop_le: "k \<le> length xs \<Longrightarrow> k + length (take n (drop k xs)) \<le> length xs"
  by (auto simp: min_def)

lemma filter_after:
  assumes "sorted_wrt (<) (map f xs)" and "j < length xs"
  shows "filter (\<lambda>x. f (xs ! j) < (f x :: 'b :: linorder)) xs = drop (Suc j) xs"
proof -
  have lt: "f (xs ! a) < f (xs ! b)" if "a < b" "b < length xs" for a b
    using sorted_wrt_nth_less [OF assms(1) that(1)] that by simp
  have "\<not> f (xs ! j) < f x" if mem: "x \<in> set (take (Suc j) xs)" for x
  proof -
    obtain i where "i < length (take (Suc j) xs)" and "take (Suc j) xs ! i = x"
      using mem [unfolded in_set_conv_nth] by blast
    then have "i \<le> j" and "x = xs ! i" by auto
    then show ?thesis using lt [OF _ assms(2), of i] by (cases "i = j") auto
  qed
  moreover have "f (xs ! j) < f x" if mem: "x \<in> set (drop (Suc j) xs)" for x
  proof -
    obtain i where "i < length (drop (Suc j) xs)" and "drop (Suc j) xs ! i = x"
      using mem [unfolded in_set_conv_nth] by blast
    then show ?thesis using lt [of j "Suc j + i"] by simp
  qed
  ultimately have "filter (\<lambda>x. f (xs ! j) < f x) (take (Suc j) xs @ drop (Suc j) xs) = drop (Suc j) xs"
    by (simp only: filter_append) (simp add: filter_False)
  then show ?thesis by simp
qed

lemma distinct_map_sort_key [simp]: "distinct (map f (sort_key k xs)) = distinct (map f xs)"
  by (simp add: distinct_map)

lemma sort_key_take_drop:
  assumes "x \<in> set (take n (sort_key f xs))" and "y \<in> set (drop n (sort_key f xs))"
  shows "f x \<le> f y"
proof -
  have "sorted (map f (take n (sort_key f xs)) @ map f (drop n (sort_key f xs)))"
    by (simp flip: map_append)
  then show ?thesis using assms by (auto simp: sorted_append)
qed

end
