(* ===== verification/Domain_Link.thy ===== *)
theory Domain_Link
  imports Prelude
begin

text \<open>
  The domain layer, \<open>crates/domain/src/lib.rs\<close>: the short link, its statistics, the storage
  errors, and the \<open>LinkRepository\<close> trait.

  The trait is a record of its methods (an \<open>Arc<dyn LinkRepository>\<close> is a table of methods over
  a hidden state \<open>'s\<close>): each takes its arguments and the storage's state and returns the result
  with the new state. A method that reads the clock takes the reading as an argument. The locale
  \<open>repository\<close> states what every implementation promises about the links it holds, seen
  through \<open>view\<close>; \<open>reliable_repository\<close> adds what a store that cannot fail promises, and
  \<open>versioned_repository\<close> what optimistic locking adds. \<open>In_Memory\<close> and \<open>Postgres\<close> interpret
  them on the two implementations of the code.
\<close>

section \<open>Links, statistics and errors\<close>

record short_link =
  link_id :: "uuid option"
  link_code :: string
  link_target_url :: string
  link_created_at :: system_time
  link_updated_at :: system_time
  link_expires_at :: "system_time option"
  link_version :: i64

record link_stats =
  stats_link :: short_link
  stats_hits :: u64

text \<open>\<open>Internal\<close> wraps an \<open>anyhow::Error\<close>, of which the code only ever uses the message.\<close>

datatype repo_error =
    CodeTaken string
  | NotFound string
  | VersionConflict
  | Unavailable
  | Internal string

abbreviation quoted :: "string \<Rightarrow> string" where
  "quoted s \<equiv> CHR 0x27 # s @ [CHR 0x27]"

definition repo_error_message :: "repo_error \<Rightarrow> string" where
  "repo_error_message e =
     (case e of
        CodeTaken c \<Rightarrow> ''code '' @ quoted c @ '' is already taken''
      | NotFound c \<Rightarrow> ''link '' @ quoted c @ '' not found''
      | VersionConflict \<Rightarrow> ''version conflict''
      | Unavailable \<Rightarrow> ''storage unavailable''
      | Internal m \<Rightarrow> ''internal error'')"

definition short_link_new :: "string \<Rightarrow> string \<Rightarrow> system_time \<Rightarrow> short_link" where
  "short_link_new code target_url now =
     \<lparr>link_id = None, link_code = code, link_target_url = target_url,
      link_created_at = now, link_updated_at = now, link_expires_at = None, link_version = 1\<rparr>"

definition with_expires_at :: "short_link \<Rightarrow> system_time \<Rightarrow> short_link" where
  "with_expires_at l expires_at = l\<lparr>link_expires_at := Some expires_at\<rparr>"

definition is_expired :: "short_link \<Rightarrow> system_time \<Rightarrow> bool" where
  "is_expired l now = (case link_expires_at l of None \<Rightarrow> False | Some exp \<Rightarrow> exp \<le> now)"

section \<open>The \<open>LinkRepository\<close> trait\<close>

type_synonym cursor = "string \<times> string"

record 's link_repository =
  repo_insert :: "short_link \<Rightarrow> 's \<Rightarrow> (repo_error + unit) \<times> 's"
  repo_get :: "string \<Rightarrow> 's \<Rightarrow> (repo_error + short_link) \<times> 's"
  repo_update :: "string \<Rightarrow> string \<Rightarrow> i64 \<Rightarrow> system_time \<Rightarrow> 's \<Rightarrow> (repo_error + short_link) \<times> 's"
  repo_remove :: "string \<Rightarrow> 's \<Rightarrow> (repo_error + unit) \<times> 's"
  repo_record_hit :: "string \<Rightarrow> system_time \<Rightarrow> 's \<Rightarrow> (repo_error + u64) \<times> 's"
  repo_stats :: "string \<Rightarrow> 's \<Rightarrow> (repo_error + link_stats) \<times> 's"
  repo_list :: "u64 \<Rightarrow> cursor option \<Rightarrow> 's \<Rightarrow>
     (repo_error + short_link list \<times> cursor option) run \<times> 's"
  repo_purge_expired :: "system_time \<Rightarrow> 's \<Rightarrow> nat \<times> 's"

type_synonym link_view = "string \<rightharpoonup> link_stats"

text \<open>The links of a view that have not expired.\<close>

definition live_view :: "system_time \<Rightarrow> link_view \<Rightarrow> link_view" where
  "live_view now v =
     (\<lambda>c. case v c of None \<Rightarrow> None
          | Some st \<Rightarrow> if is_expired (stats_link st) now then None else Some st)"

text \<open>
  The listing order: newest first, then by code, descending. The in-memory store compares codes by
  their bytes, the database by its collation; what both promise is the order by time.
\<close>

definition list_key :: "short_link \<Rightarrow> system_time reverse \<times> string reverse" where
  "list_key l = (Reverse (link_created_at l), Reverse (link_code l))"

definition newest_first :: "short_link list \<Rightarrow> bool" where
  "newest_first ls \<longleftrightarrow> sorted (map (\<lambda>l. Reverse (link_created_at l)) ls)"

lemma sorted_list_key_newest: "sorted (map list_key ls) \<Longrightarrow> newest_first ls"
  by (induction ls) (auto simp: newest_first_def list_key_def)

text \<open>
  A client that follows the cursors until there is none; \<open>fuel\<close> bounds the number of its requests, and
  it gives up with \<open>Panic\<close> where they do not suffice.
\<close>

fun walk_pages ::
  "'s link_repository \<Rightarrow> u64 \<Rightarrow> nat \<Rightarrow> cursor option \<Rightarrow> 's \<Rightarrow> (repo_error + short_link list) run" where
  "walk_pages R limit 0 cur s = Panic"
| "walk_pages R limit (Suc fuel) cur s =
     (case repo_list R limit cur s of
        (Panic, s') \<Rightarrow> Panic
      | (Done (Inl e), s') \<Rightarrow> Done (Inl e)
      | (Done (Inr (page, None)), s') \<Rightarrow> Done (Inr page)
      | (Done (Inr (page, Some c)), s') \<Rightarrow>
          (case walk_pages R limit fuel (Some c) s' of
             Panic \<Rightarrow> Panic
           | Done (Inl e) \<Rightarrow> Done (Inl e)
           | Done (Inr rest) \<Rightarrow> Done (Inr (page @ rest))))"

lemma walk_next:
  "repo_list R limit cur s = (Done (Inr (page, Some c)), s') \<Longrightarrow>
   walk_pages R limit fuel (Some c) s' = Done (Inr rest) \<Longrightarrow>
   walk_pages R limit (Suc fuel) cur s = Done (Inr (page @ rest))"
  by simp

lemma walk_end:
  "repo_list R limit cur s = (Done (Inr (page, None)), s') \<Longrightarrow>
   walk_pages R limit (Suc fuel) cur s = Done (Inr page)"
  by simp

section \<open>What an implementation promises\<close>

locale repository =
  fixes R :: "'s link_repository"
    and inv :: "'s \<Rightarrow> bool"
    and view :: "'s \<Rightarrow> link_view"
  assumes view_code: "inv s \<Longrightarrow> view s c = Some st \<Longrightarrow> link_code (stats_link st) = c"
    and insert_inv: "inv s \<Longrightarrow> inv (snd (repo_insert R l s))"
    and get_inv: "inv s \<Longrightarrow> inv (snd (repo_get R c s))"
    and update_inv: "inv s \<Longrightarrow> inv (snd (repo_update R c url v now s))"
    and remove_inv: "inv s \<Longrightarrow> inv (snd (repo_remove R c s))"
    and record_hit_inv: "inv s \<Longrightarrow> inv (snd (repo_record_hit R c now s))"
    and stats_inv: "inv s \<Longrightarrow> inv (snd (repo_stats R c s))"
    and list_inv: "inv s \<Longrightarrow> inv (snd (repo_list R n cur s))"
    and purge_inv: "inv s \<Longrightarrow> inv (snd (repo_purge_expired R now s))"
    and insert_ok: "inv s \<Longrightarrow> repo_insert R l s = (Inr (), s') \<Longrightarrow>
      view s (link_code l) = None \<and>
      (\<exists>st. view s' = (view s)(link_code l \<mapsto> st) \<and> stats_hits st = 0 \<and>
            link_target_url (stats_link st) = link_target_url l \<and>
            (link_expires_at (stats_link st) = None \<longleftrightarrow> link_expires_at l = None) \<and>
            (link_version l = 1 \<longrightarrow> link_version (stats_link st) = 1))"
    and insert_err: "inv s \<Longrightarrow> repo_insert R l s = (Inl e, s') \<Longrightarrow> view s' = view s"
    and get_ok: "inv s \<Longrightarrow> repo_get R c s = (Inr l, s') \<Longrightarrow>
      view s' = view s \<and> (\<exists>st. view s c = Some st \<and> stats_link st = l)"
    and get_err: "inv s \<Longrightarrow> repo_get R c s = (Inl e, s') \<Longrightarrow> view s' = view s"
    and get_not_found: "inv s \<Longrightarrow> repo_get R c s = (Inl (NotFound x), s') \<Longrightarrow> view s c = None"
    and update_ok: "inv s \<Longrightarrow> repo_update R c url v now s = (Inr l, s') \<Longrightarrow>
      (\<exists>st t. view s c = Some st \<and>
         l = (stats_link st)\<lparr>link_target_url := url, link_updated_at := t,
               link_version := link_version (stats_link st) + 1\<rparr> \<and>
         view s' = (view s)(c \<mapsto> st\<lparr>stats_link := l\<rparr>))"
    and update_err: "inv s \<Longrightarrow> repo_update R c url v now s = (Inl e, s') \<Longrightarrow> view s' = view s"
    and remove_ok: "inv s \<Longrightarrow> repo_remove R c s = (Inr (), s') \<Longrightarrow>
      view s c \<noteq> None \<and> view s' = (view s)(c := None)"
    and remove_err: "inv s \<Longrightarrow> repo_remove R c s = (Inl e, s') \<Longrightarrow> view s' = view s"
    and remove_not_found: "inv s \<Longrightarrow> repo_remove R c s = (Inl (NotFound x), s') \<Longrightarrow> view s c = None"
    and record_hit_ok: "inv s \<Longrightarrow> repo_record_hit R c now s = (Inr n, s') \<Longrightarrow>
      (\<exists>st. view s c = Some st \<and> n = stats_hits st + 1 \<and>
            view s' = (view s)(c \<mapsto> st\<lparr>stats_hits := n\<rparr>))"
    and record_hit_err: "inv s \<Longrightarrow> repo_record_hit R c now s = (Inl e, s') \<Longrightarrow> view s' = view s"
    and stats_ok: "inv s \<Longrightarrow> repo_stats R c s = (Inr st, s') \<Longrightarrow>
      view s' = view s \<and> view s c = Some st"
    and stats_err: "inv s \<Longrightarrow> repo_stats R c s = (Inl e, s') \<Longrightarrow> view s' = view s"
    and stats_not_found: "inv s \<Longrightarrow> repo_stats R c s = (Inl (NotFound x), s') \<Longrightarrow> view s c = None"
    and list_view: "inv s \<Longrightarrow> view (snd (repo_list R n cur s)) = view s"
    and list_ok: "inv s \<Longrightarrow> repo_list R n cur s = (Done (Inr (ls, next)), s') \<Longrightarrow>
      length ls \<le> unat n \<and> newest_first ls \<and> distinct (map link_code ls) \<and>
      (\<forall>l \<in> set ls. \<exists>st. view s (link_code l) = Some st \<and> stats_link st = l)"
    and purge_view: "inv s \<Longrightarrow> repo_purge_expired R now s = (k, s') \<Longrightarrow>
      view s' = live_view now (view s) \<or> view s' = view s \<and> k = 0"
begin

text \<open>Consequences every client of the trait shares.\<close>

lemma insert_err_view: "inv s \<Longrightarrow> fst (repo_insert R l s) = Inl e \<Longrightarrow>
    view (snd (repo_insert R l s)) = view s"
  using insert_err [of s l e] by (metis prod.collapse)

lemma insert_occupied:
  "inv s \<Longrightarrow> view s (link_code l) \<noteq> None \<Longrightarrow> \<exists>e. fst (repo_insert R l s) = Inl e"
  using insert_ok [of s l] by (cases "repo_insert R l s"; cases "fst (repo_insert R l s)") auto

lemma get_absent: "inv s \<Longrightarrow> view s c = None \<Longrightarrow> \<exists>e. fst (repo_get R c s) = Inl e"
  using get_ok [of s c] by (cases "repo_get R c s"; cases "fst (repo_get R c s)") auto

lemma get_view: "inv s \<Longrightarrow> view (snd (repo_get R c s)) = view s"
  using get_ok [of s c] get_err [of s c]
  by (cases "repo_get R c s"; cases "fst (repo_get R c s)") auto

lemma stats_view: "inv s \<Longrightarrow> view (snd (repo_stats R c s)) = view s"
  using stats_ok [of s c] stats_err [of s c]
  by (cases "repo_stats R c s"; cases "fst (repo_stats R c s)") auto

end

text \<open>A store that does not fail by itself: every error is about the links it holds.\<close>

locale reliable_repository = repository R inv view
  for R :: "'s link_repository" and inv :: "'s \<Rightarrow> bool" and view :: "'s \<Rightarrow> link_view" +
  assumes insert_free: "inv s \<Longrightarrow> view s (link_code l) = None \<Longrightarrow> fst (repo_insert R l s) = Inr ()"
    and insert_full: "inv s \<Longrightarrow> view s (link_code l) \<noteq> None \<Longrightarrow>
      fst (repo_insert R l s) = Inl (CodeTaken (link_code l))"
    and get_total: "inv s \<Longrightarrow> fst (repo_get R c s) =
      (case view s c of None \<Rightarrow> Inl (NotFound c) | Some st \<Rightarrow> Inr (stats_link st))"
    and stats_total: "inv s \<Longrightarrow> fst (repo_stats R c s) =
      (case view s c of None \<Rightarrow> Inl (NotFound c) | Some st \<Rightarrow> Inr st)"
    and remove_total: "inv s \<Longrightarrow> fst (repo_remove R c s) =
      (case view s c of None \<Rightarrow> Inl (NotFound c) | Some st \<Rightarrow> Inr ())"
    and record_hit_total: "inv s \<Longrightarrow> fst (repo_record_hit R c now s) =
      (case view s c of None \<Rightarrow> Inl (NotFound c) | Some st \<Rightarrow> Inr (stats_hits st + 1))"
    and purge_total: "inv s \<Longrightarrow> repo_purge_expired R now s = (k, s') \<Longrightarrow>
      view s' = live_view now (view s)"

text \<open>Optimistic locking: an update succeeds only on the version the client has read.\<close>

locale versioned_repository = repository R inv view
  for R :: "'s link_repository" and inv :: "'s \<Rightarrow> bool" and view :: "'s \<Rightarrow> link_view" +
  assumes update_version: "inv s \<Longrightarrow> repo_update R c url v now s = (Inr l, s') \<Longrightarrow>
      (\<exists>st. view s c = Some st \<and> link_version (stats_link st) = v)"
begin

text \<open>Of two updates that read the same version, the second cannot succeed.\<close>

lemma no_lost_update:
  assumes inv: "inv s" and first: "repo_update R c url v now s = (Inr l, s')"
    and second: "repo_update R c url' v now' s' = (Inr l', s'')"
  shows False
proof -
  obtain st t where st: "view s c = Some st" and
    l: "l = (stats_link st)\<lparr>link_target_url := url, link_updated_at := t,
          link_version := link_version (stats_link st) + 1\<rparr>" and
    view': "view s' = (view s)(c \<mapsto> st\<lparr>stats_link := l\<rparr>)"
    using update_ok [OF inv first] by blast
  from update_version [OF inv first] st have v: "link_version (stats_link st) = v" by simp
  have "inv s'" using update_inv [OF inv, of c url v now] first by simp
  from update_version [OF this second] view' l v have "v + 1 = v" by simp
  then show False by simp
qed

end

end
