(* ===== verification/Request_Id.thy ===== *)
theory Request_Id
  imports Prelude
begin

text \<open>
  A request as the code reads it, and \<open>shorty-server/src/request_id.rs\<close>. The HTTP library's request
  is seen through what the sources ask of it: \<open>rq_header name\<close> is \<open>headers().get(name)\<close> followed by
  \<open>to_str()\<close>, \<open>None\<close> where the header is absent and \<open>Some None\<close> where its value is not text;
  \<open>rq_remote\<close> is the text of the peer's address in the extensions. The task-local \<open>REQUEST_ID\<close> is the
  argument \<open>scope\<close> of whatever runs inside it: \<open>None\<close> outside every scope, \<open>Some rid\<close> inside one.
\<close>

record http_request =
  rq_method :: string
  rq_path :: string
  rq_header :: "string \<Rightarrow> string option option"
  rq_remote :: "string option"

text \<open>\<open>get(name).and_then(to_str().ok())\<close>.\<close>

definition header_text :: "http_request \<Rightarrow> string \<Rightarrow> string option" where
  "header_text req name = (case rq_header req name of Some (Some v) \<Rightarrow> Some v | _ \<Rightarrow> None)"

lemma header_text_cases:
  "header_text req name = None \<longleftrightarrow> rq_header req name = None \<or> rq_header req name = Some None"
  "header_text req name = Some v \<longleftrightarrow> rq_header req name = Some (Some v)"
  by (auto simp: header_text_def split: option.splits)

type_synonym id_scope = "string option option"

definition request_id_scope :: "http_request \<Rightarrow> (id_scope \<Rightarrow> http_request \<Rightarrow> 'a) \<Rightarrow> 'a" where
  "request_id_scope req run_next = run_next (Some (header_text req ''x-request-id'')) req"

definition current_request_id :: "id_scope \<Rightarrow> string option" where
  "current_request_id scope = (case scope of Some rid \<Rightarrow> rid | None \<Rightarrow> None)"

lemma current_request_id_simps [simp]:
  "current_request_id None = None" "current_request_id (Some rid) = rid"
  by (simp_all add: current_request_id_def)

end
