(* ===== verification/Api_Error.thy ===== *)
theory Api_Error
  imports Domain_Link Request_Id
begin

text \<open>
  The error layer of the API, \<open>shorty-server/src/api/error.rs\<close>: \<open>AppError\<close>, its text, the HTTP response
  it turns into, and the conversion from the storage errors. A status is its number. The
  \<open>anyhow::Error\<close> of \<open>Internal\<close> is its message. The library's JSON extractor is the argument of
  \<open>app_json\<close>: its value, or the status and the text of its rejection.
\<close>

section \<open>Responses\<close>

record 'b http_response =
  resp_status :: nat
  resp_headers :: "(string \<times> string) list"
  resp_body :: 'b

section \<open>Errors and their responses\<close>

record field_error =
  fe_field :: string
  fe_issue :: string

record error_body =
  eb_code :: string
  eb_message :: string
  eb_request_id :: "string option"
  eb_details :: "field_error list option"

datatype app_error =
    App_NotFound
  | App_CodeTaken
  | App_VersionConflict
  | App_Unavailable
  | App_Validation string "field_error list"
  | App_InvalidBody nat string
  | App_RateLimitExceeded u64
  | App_Internal string

definition app_error_message :: "app_error \<Rightarrow> string" where
  "app_error_message e =
     (case e of
        App_NotFound \<Rightarrow> ''resource not found''
      | App_CodeTaken \<Rightarrow> ''code is already taken''
      | App_VersionConflict \<Rightarrow> ''version conflict''
      | App_Unavailable \<Rightarrow> ''storage unavailable''
      | App_Validation message _ \<Rightarrow> message
      | App_InvalidBody _ message \<Rightarrow> message
      | App_RateLimitExceeded retry_after \<Rightarrow>
          ''rate limit exceeded, retry after '' @ show_nat (unat retry_after) @ '' seconds''
      | App_Internal _ \<Rightarrow> ''internal error'')"

definition into_response :: "id_scope \<Rightarrow> app_error \<Rightarrow> error_body http_response" where
  "into_response scope e =
     (let request_id = current_request_id scope;
          plain = (\<lambda>status code details.
            \<lparr>resp_status = status, resp_headers = [],
             resp_body = \<lparr>eb_code = code, eb_message = app_error_message e,
                          eb_request_id = request_id, eb_details = details\<rparr>\<rparr>)
      in (case e of
            App_NotFound \<Rightarrow> plain 404 ''not_found'' None
          | App_CodeTaken \<Rightarrow> plain 409 ''code_taken'' None
          | App_VersionConflict \<Rightarrow> plain 409 ''version_conflict'' None
          | App_Unavailable \<Rightarrow> plain 503 ''unavailable'' None
          | App_Validation _ details \<Rightarrow> plain 422 ''validation_error'' (Some details)
          | App_InvalidBody status _ \<Rightarrow>
              plain status
                (if status = 413 then ''payload_too_large''
                 else if status = 415 then ''unsupported_media_type''
                 else if status = 422 then ''validation_error''
                 else ''bad_request'') None
          | App_RateLimitExceeded retry_after \<Rightarrow>
              \<lparr>resp_status = 429,
               resp_headers = [(''retry-after'', show_nat (unat retry_after))],
               resp_body = \<lparr>eb_code = ''rate_limit_exceeded'',
                 eb_message = ''rate limit exceeded, retry after '' @ show_nat (unat retry_after) @ '' seconds'',
                 eb_request_id = request_id, eb_details = None\<rparr>\<rparr>
          | App_Internal _ \<Rightarrow> plain 500 ''internal'' None))"

definition app_error_of_repo :: "repo_error \<Rightarrow> app_error" where
  "app_error_of_repo err =
     (case err of
        NotFound _ \<Rightarrow> App_NotFound
      | CodeTaken _ \<Rightarrow> App_CodeTaken
      | VersionConflict \<Rightarrow> App_VersionConflict
      | Unavailable \<Rightarrow> App_Unavailable
      | Internal _ \<Rightarrow> App_Internal ''internal error'')"

definition app_json :: "((nat \<times> string) + 'a) \<Rightarrow> app_error + 'a" where
  "app_json extracted =
     (case extracted of
        Inr v \<Rightarrow> Inr v
      | Inl (status, message) \<Rightarrow> Inl (App_InvalidBody status message))"

text \<open>The \<open>?\<close> of a handler on a storage result.\<close>

definition repo_result :: "repo_error + 'a \<Rightarrow> app_error + 'a" where
  "repo_result r = (case r of Inl e \<Rightarrow> Inl (app_error_of_repo e) | Inr v \<Rightarrow> Inr v)"

lemma repo_result_simps [simp]:
  "repo_result (Inl e) = Inl (app_error_of_repo e)" "repo_result (Inr v) = Inr v"
  by (simp_all add: repo_result_def)

lemma repo_result_Inr: "repo_result r = Inr v \<longleftrightarrow> r = Inr v"
  by (cases r) simp_all

lemma repo_result_Inl: "repo_result r = Inl e \<longleftrightarrow> (\<exists>x. r = Inl x \<and> e = app_error_of_repo x)"
  by (cases r) auto

lemma app_error_of_repo_simps [simp]:
  "app_error_of_repo (NotFound x) = App_NotFound"
  "app_error_of_repo (CodeTaken x) = App_CodeTaken"
  "app_error_of_repo VersionConflict = App_VersionConflict"
  "app_error_of_repo Unavailable = App_Unavailable"
  "app_error_of_repo (Internal m) = App_Internal ''internal error''"
  by (simp_all add: app_error_of_repo_def)

lemma app_error_of_repo_iff:
  "app_error_of_repo e = App_NotFound \<longleftrightarrow> (\<exists>x. e = NotFound x)"
  "app_error_of_repo e = App_CodeTaken \<longleftrightarrow> (\<exists>x. e = CodeTaken x)"
  by (cases e; simp)+

text \<open>Every response carries the request id and the text of its error.\<close>

lemma into_response_body:
  "eb_message (resp_body (into_response scope e)) = app_error_message e \<and>
   eb_request_id (resp_body (into_response scope e)) = current_request_id scope"
  by (cases e) (simp_all add: into_response_def app_error_message_def Let_def)

section \<open>Properties\<close>

text \<open>A storage error becomes the response of its kind: an unknown code is 404, a taken code and a
  version conflict are 409, an unavailable store is 503, and everything else is 500.\<close>

theorem repo_errors_to_http:
  "resp_status (into_response scope (app_error_of_repo e)) =
     (case e of NotFound _ \<Rightarrow> 404 | CodeTaken _ \<Rightarrow> 409 | VersionConflict \<Rightarrow> 409 | Unavailable \<Rightarrow> 503
      | Internal _ \<Rightarrow> 500) \<and>
   eb_code (resp_body (into_response scope (app_error_of_repo e))) =
     (case e of NotFound _ \<Rightarrow> ''not_found'' | CodeTaken _ \<Rightarrow> ''code_taken''
      | VersionConflict \<Rightarrow> ''version_conflict'' | Unavailable \<Rightarrow> ''unavailable'' | Internal _ \<Rightarrow> ''internal'')"
  by (cases e) (simp_all add: into_response_def Let_def)

text \<open>The response never shows the text of an internal error or of a storage error; every response
  carries the text of its \<open>AppError\<close> and the request's id, and 429 alone a \<open>Retry-After\<close> header with the
  seconds the limiter computed.\<close>

theorem error_responses:
  "into_response scope (App_Internal m) = into_response scope (App_Internal m') \<and>
   into_response scope (app_error_of_repo (Internal m)) = into_response scope (app_error_of_repo (Internal m')) \<and>
   into_response scope (app_error_of_repo (NotFound m)) = into_response scope (app_error_of_repo (NotFound m')) \<and>
   eb_message (resp_body (into_response scope e)) = app_error_message e \<and>
   eb_request_id (resp_body (into_response scope e)) = current_request_id scope \<and>
   resp_headers (into_response scope e) =
     (case e of App_RateLimitExceeded n \<Rightarrow> [(''retry-after'', show_nat (unat n))] | _ \<Rightarrow> [])"
  using into_response_body [of scope e]
  by (cases e) (simp_all add: into_response_def app_error_message_def Let_def)

end
