(* ===== verification/F64.thy ===== *)
theory F64
  imports Complex_Main "HOL-Library.Log_Nat" Prelude
begin

text \<open>
  Rust's \<open>f64\<close>, as the rate limiter uses it: IEEE 754 binary64 with round-half-to-even. A value is
  not-a-number, an infinity, or the rational it stands for; the arithmetic rounds the exact result,
  so every rounding error of the code is in the model. The two zeros are one value: no operation of
  the code produces a negative zero from the non-negative operands it has, and no result depends on
  the sign. The conversions saturate as \<open>as u64\<close> does.

  The lemmas say that rounding is monotone, keeps what is representable, and is exact on integers up
  to \<open>2 ^ 53\<close>; they are all the token bucket needs.
\<close>

section \<open>Rounding\<close>

datatype f64 = NaN | NegInf | PosInf | Fin rat

abbreviation pow2 :: "int \<Rightarrow> rat" where
  "pow2 e \<equiv> 2 powi e"

text \<open>The exponent of the leading bit of a positive rational.\<close>

definition floor_log2 :: "rat \<Rightarrow> int" where
  "floor_log2 x =
     (let (n, d) = quotient_of x;
          k = bitlen n - bitlen d
      in if pow2 k \<le> x then k else k - 1)"

definition round_half_even :: "rat \<Rightarrow> int" where
  "round_half_even x =
     (let f = \<lfloor>x\<rfloor>; r = x - of_int f
      in if r < 1 / 2 then f else if 1 / 2 < r then f + 1 else if even f then f else f + 1)"

text \<open>The exponent of the last bit: 53 significant bits, or the subnormal limit.\<close>

definition ulp_exp :: "rat \<Rightarrow> int" where
  "ulp_exp x = max (floor_log2 x - 52) (- 1074)"

definition round_pos :: "rat \<Rightarrow> rat" where
  "round_pos x = of_int (round_half_even (x / pow2 (ulp_exp x))) * pow2 (ulp_exp x)"

definition f64_limit :: rat where
  "f64_limit = 2 ^ 1024"

definition f64_round :: "rat \<Rightarrow> f64" where
  "f64_round x =
     (if x = 0 then Fin 0
      else if 0 < x then (let v = round_pos x in if f64_limit \<le> v then PosInf else Fin v)
      else (let v = round_pos (- x) in if f64_limit \<le> v then NegInf else Fin (- v)))"

section \<open>Arithmetic, comparisons and conversions\<close>

fun f64_neg :: "f64 \<Rightarrow> f64" where
  "f64_neg NaN = NaN"
| "f64_neg NegInf = PosInf"
| "f64_neg PosInf = NegInf"
| "f64_neg (Fin x) = Fin (- x)"

fun f64_add :: "f64 \<Rightarrow> f64 \<Rightarrow> f64" where
  "f64_add (Fin x) (Fin y) = f64_round (x + y)"
| "f64_add NaN _ = NaN"
| "f64_add _ NaN = NaN"
| "f64_add PosInf NegInf = NaN"
| "f64_add NegInf PosInf = NaN"
| "f64_add PosInf _ = PosInf"
| "f64_add NegInf _ = NegInf"
| "f64_add _ PosInf = PosInf"
| "f64_add _ NegInf = NegInf"

definition f64_sub :: "f64 \<Rightarrow> f64 \<Rightarrow> f64" where
  "f64_sub a b = f64_add a (f64_neg b)"

text \<open>The infinity with the sign of a number that is not zero.\<close>

definition signed_inf :: "rat \<Rightarrow> f64" where
  "signed_inf x = (if x = 0 then NaN else if 0 < x then PosInf else NegInf)"

fun f64_mul :: "f64 \<Rightarrow> f64 \<Rightarrow> f64" where
  "f64_mul (Fin x) (Fin y) = f64_round (x * y)"
| "f64_mul NaN _ = NaN"
| "f64_mul _ NaN = NaN"
| "f64_mul PosInf (Fin y) = signed_inf y"
| "f64_mul NegInf (Fin y) = signed_inf (- y)"
| "f64_mul (Fin x) PosInf = signed_inf x"
| "f64_mul (Fin x) NegInf = signed_inf (- x)"
| "f64_mul PosInf PosInf = PosInf"
| "f64_mul PosInf NegInf = NegInf"
| "f64_mul NegInf PosInf = NegInf"
| "f64_mul NegInf NegInf = PosInf"

text \<open>A finite zero is \<open>+0\<close>: dividing by it keeps the sign of the dividend.\<close>

fun f64_div :: "f64 \<Rightarrow> f64 \<Rightarrow> f64" where
  "f64_div (Fin x) (Fin y) = (if y = 0 then signed_inf x else f64_round (x / y))"
| "f64_div NaN _ = NaN"
| "f64_div _ NaN = NaN"
| "f64_div PosInf (Fin y) = (if 0 \<le> y then PosInf else NegInf)"
| "f64_div NegInf (Fin y) = (if 0 \<le> y then NegInf else PosInf)"
| "f64_div (Fin x) PosInf = Fin 0"
| "f64_div (Fin x) NegInf = Fin 0"
| "f64_div PosInf PosInf = NaN"
| "f64_div PosInf NegInf = NaN"
| "f64_div NegInf PosInf = NaN"
| "f64_div NegInf NegInf = NaN"

text \<open>\<open>f64::min\<close> returns the other operand where one is not a number.\<close>

fun f64_min :: "f64 \<Rightarrow> f64 \<Rightarrow> f64" where
  "f64_min NaN b = b"
| "f64_min a NaN = a"
| "f64_min NegInf _ = NegInf"
| "f64_min _ NegInf = NegInf"
| "f64_min PosInf b = b"
| "f64_min a PosInf = a"
| "f64_min (Fin x) (Fin y) = Fin (min x y)"

text \<open>Comparisons are false where an operand is not a number.\<close>

fun f64_ge :: "f64 \<Rightarrow> f64 \<Rightarrow> bool" where
  "f64_ge (Fin x) (Fin y) \<longleftrightarrow> y \<le> x"
| "f64_ge NaN _ \<longleftrightarrow> False"
| "f64_ge _ NaN \<longleftrightarrow> False"
| "f64_ge PosInf _ \<longleftrightarrow> True"
| "f64_ge _ NegInf \<longleftrightarrow> True"
| "f64_ge _ _ \<longleftrightarrow> False"

definition f64_gt_zero :: "f64 \<Rightarrow> bool" where
  "f64_gt_zero a = (case a of Fin x \<Rightarrow> 0 < x | PosInf \<Rightarrow> True | _ \<Rightarrow> False)"

fun f64_ceil :: "f64 \<Rightarrow> f64" where
  "f64_ceil (Fin x) = Fin (of_int \<lceil>x\<rceil>)"
| "f64_ceil a = a"

fun f64_to_u64 :: "f64 \<Rightarrow> u64" where
  "f64_to_u64 NaN = 0"
| "f64_to_u64 NegInf = 0"
| "f64_to_u64 PosInf = - 1"
| "f64_to_u64 (Fin x) = (if x < 0 then 0 else if 2 ^ 64 - 1 < x then - 1 else of_int \<lfloor>x\<rfloor>)"

definition f64_of_nat :: "nat \<Rightarrow> f64" where
  "f64_of_nat n = f64_round (of_nat n)"

definition f64_of_u64 :: "u64 \<Rightarrow> f64" where
  "f64_of_u64 n = f64_of_nat (unat n)"

text \<open>\<open>Duration::as_secs_f64\<close>, of a number of nanoseconds.\<close>

definition as_secs_f64 :: "nat \<Rightarrow> f64" where
  "as_secs_f64 d =
     f64_add (f64_of_nat (d div 1000000000))
       (f64_div (f64_of_nat (subsec_nanos d)) (f64_of_nat 1000000000))"

section \<open>The leading bit\<close>

lemma pow2_pos [simp]: "0 < pow2 e"
  by (simp add: zero_less_power_int)

lemma pow2_add: "pow2 (a + b) = pow2 a * pow2 b"
  by (simp add: power_int_add)

lemma pow2_mono: "a \<le> b \<Longrightarrow> pow2 a \<le> pow2 b"
  by (rule power_int_increasing) auto

lemma pow2_strict_mono: "a < b \<Longrightarrow> pow2 a < pow2 b"
  by (rule power_int_strict_increasing) auto

lemma pow2_less_iff: "pow2 a < pow2 b \<longleftrightarrow> a < b"
  using pow2_mono [of b a] pow2_strict_mono [of a b] by (meson not_less)

lemma bitlen_pow2_bounds:
  assumes "0 < n"
  shows "pow2 (bitlen n - 1) \<le> of_int n" and "of_int n < pow2 (bitlen n)"
proof -
  have b: "2 ^ nat (bitlen n - 1) \<le> n" "n < 2 ^ nat (bitlen n)"
    using bitlen_bounds [OF assms] by auto
  have pos: "0 < bitlen n"
    using assms bitlen_eq_zero_iff [of n] bitlen_nonneg [of n] by linarith
  have "of_int (2 ^ nat (bitlen n - 1)) \<le> (of_int n :: rat)" "of_int n < (of_int (2 ^ nat (bitlen n)) :: rat)"
    using b by (simp_all only: of_int_le_iff of_int_less_iff)
  then show "pow2 (bitlen n - 1) \<le> of_int n" and "of_int n < pow2 (bitlen n)"
    using pos by (simp_all add: power_int_nonneg_exp)
qed

lemma floor_log2_bounds:
  assumes "0 < x"
  shows "pow2 (floor_log2 x) \<le> x" and "x < pow2 (floor_log2 x + 1)"
proof -
  obtain n d where q: "quotient_of x = (n, d)" by fastforce
  have x: "x = of_int n / of_int d" and d: "0 < d"
    using quotient_of_div [OF q] quotient_of_denom_pos [OF q] by auto
  have n: "0 < n" using assms d by (simp add: x zero_less_divide_iff)
  let ?k = "bitlen n - bitlen d"
  have "x < pow2 (bitlen n) / pow2 (bitlen d - 1)"
    unfolding x using bitlen_pow2_bounds [OF n] bitlen_pow2_bounds [OF d] d n
    by (intro frac_less) auto
  then have up: "x < pow2 (?k + 1)"
    by (simp add: power_int_diff power_int_add field_simps)
  have "pow2 (bitlen n - 1) / pow2 (bitlen d) \<le> x"
    unfolding x using bitlen_pow2_bounds [OF n] bitlen_pow2_bounds [OF d] d n
    by (intro frac_le) auto
  then have low: "pow2 (?k - 1) \<le> x"
    by (simp add: power_int_diff power_int_add field_simps)
  show "pow2 (floor_log2 x) \<le> x" and "x < pow2 (floor_log2 x + 1)"
    using up low by (auto simp: floor_log2_def q Let_def)
qed

lemma floor_log2_mono:
  assumes "0 < x" and "x \<le> y"
  shows "floor_log2 x \<le> floor_log2 y"
proof -
  have "pow2 (floor_log2 x) < pow2 (floor_log2 y + 1)"
    using floor_log2_bounds [of x] floor_log2_bounds [of y] assms by linarith
  then show ?thesis by (simp add: pow2_less_iff)
qed

lemma ulp_exp_mono: "0 < x \<Longrightarrow> x \<le> y \<Longrightarrow> ulp_exp x \<le> ulp_exp y"
  using floor_log2_mono [of x y] by (auto simp: ulp_exp_def)

section \<open>Rounding to an integer\<close>

lemma round_half_even_bounds: "\<lfloor>x\<rfloor> \<le> round_half_even x" "round_half_even x \<le> \<lfloor>x\<rfloor> + 1"
  by (auto simp: round_half_even_def Let_def)

lemma round_half_even_int [simp]: "round_half_even (of_int m) = m"
  by (simp add: round_half_even_def)

lemma round_half_even_mono:
  assumes "x \<le> y"
  shows "round_half_even x \<le> round_half_even y"
proof (cases "\<lfloor>x\<rfloor> = \<lfloor>y\<rfloor>")
  case True
  then show ?thesis using assms by (auto simp: round_half_even_def Let_def)
next
  case False
  then have "\<lfloor>x\<rfloor> + 1 \<le> \<lfloor>y\<rfloor>" using floor_mono [OF assms] by linarith
  then show ?thesis using round_half_even_bounds [of x] round_half_even_bounds [of y] by linarith
qed

lemma round_half_even_le: "x \<le> of_int m \<Longrightarrow> round_half_even x \<le> m"
  using round_half_even_mono [of x "of_int m"] by simp

lemma round_half_even_ge: "of_int m \<le> x \<Longrightarrow> m \<le> round_half_even x"
  using round_half_even_mono [of "of_int m" x] by simp

section \<open>Rounding to a binary64 value\<close>

text \<open>A value that is a multiple of the last bit of \<open>x\<close> bounds the rounded \<open>x\<close>.\<close>

lemma round_pos_le: "x \<le> of_int m * pow2 (ulp_exp x) \<Longrightarrow> round_pos x \<le> of_int m * pow2 (ulp_exp x)"
  by (simp add: round_pos_def round_half_even_le pos_divide_le_eq)

lemma round_pos_ge: "of_int m * pow2 (ulp_exp x) \<le> x \<Longrightarrow> of_int m * pow2 (ulp_exp x) \<le> round_pos x"
  by (simp add: round_pos_def round_half_even_ge pos_le_divide_eq)

lemma pow2_multiple: "e \<le> k \<Longrightarrow> pow2 k = of_int (2 ^ nat (k - e)) * pow2 e"
  using pow2_add [of "k - e" e] by (simp add: power_int_nonneg_exp)

lemma round_pos_nonneg: "0 \<le> x \<Longrightarrow> 0 \<le> round_pos x"
  using round_pos_ge [of 0 x] by simp

lemma round_pos_mono:
  assumes pos: "0 < x" and le: "x \<le> y"
  shows "round_pos x \<le> round_pos y"
proof (cases "ulp_exp x = ulp_exp y")
  case True
  then show ?thesis
    using le by (simp add: round_pos_def round_half_even_mono divide_right_mono)
next
  case False
  then have less: "ulp_exp x < ulp_exp y" using ulp_exp_mono [OF pos le] by linarith
  then have ey: "ulp_exp y = floor_log2 y - 52" and ex: "ulp_exp x \<le> floor_log2 y"
    by (auto simp: ulp_exp_def)
  have "floor_log2 x + 1 \<le> floor_log2 y"
    using less by (auto simp: ulp_exp_def max_def split: if_splits)
  then have "x \<le> pow2 (floor_log2 y)"
    using floor_log2_bounds [OF pos] pow2_mono [of "floor_log2 x + 1" "floor_log2 y"] by linarith
  then have "round_pos x \<le> pow2 (floor_log2 y)"
    using round_pos_le [of x] pow2_multiple [OF ex] by metis
  moreover have "pow2 (floor_log2 y) \<le> round_pos y"
    using round_pos_ge [of _ y] pow2_multiple [of "ulp_exp y" "floor_log2 y"] ey
      floor_log2_bounds [of y] pos le
    by (metis diff_le_eq diff_left_mono order_less_le_trans le_add_same_cancel1 zero_le_numeral)
  ultimately show ?thesis by simp
qed

text \<open>The finite values: at most 53 significant bits above the subnormal limit.\<close>

definition f64_repr :: "rat \<Rightarrow> bool" where
  "f64_repr x \<longleftrightarrow> (\<exists>m e. x = of_int m * pow2 e \<and> - 1074 \<le> e \<and> \<bar>m\<bar> \<le> 2 ^ 53) \<and> \<bar>x\<bar> < f64_limit"

lemma round_pos_exact:
  assumes pos: "0 < x" and x: "x = of_int m * pow2 e" and e: "- 1074 \<le> e" and m: "\<bar>m\<bar> \<le> 2 ^ 53"
  shows "round_pos x = x"
proof -
  obtain u where u: "u = ulp_exp x" by simp
  have "\<exists>n. x = of_int n * pow2 u"
  proof (cases "u \<le> e")
    case True
    have "x = of_int (m * 2 ^ nat (e - u)) * pow2 u"
      unfolding x pow2_multiple [OF True] by simp
    then show ?thesis by blast
  next
    case False
    then have k: "u = floor_log2 x - 52" "e + 53 \<le> floor_log2 x"
      using e by (auto simp: u ulp_exp_def max_def split: if_splits)
    have "of_int m \<le> (of_int (2 ^ 53) :: rat)" using m by (simp only: of_int_le_iff abs_le_iff)
    then have "x \<le> pow2 (e + 53)" by (simp add: x pow2_add)
    then have eq: "x = pow2 (e + 53)"
      using floor_log2_bounds(1) [OF pos] pow2_mono [OF k(2)] by linarith
    then have "floor_log2 x = e + 53"
      using floor_log2_bounds(1) [OF pos] k(2) pow2_less_iff [of "e + 53" "floor_log2 x"]
      by linarith
    then have "e + 53 = 52 + u" using k(1) by simp
    then have "x = pow2 (52 + u)" by (metis eq)
    then have "x = of_int (2 ^ 52) * pow2 u" unfolding pow2_add by simp
    then show ?thesis by blast
  qed
  then obtain n where n: "x = of_int n * pow2 u" by blast
  have "pow2 u \<noteq> 0" using pow2_pos [of u] by (rule less_imp_neq [symmetric])
  then have "x / pow2 u = of_int n" unfolding n by (rule nonzero_mult_div_cancel_right)
  then show ?thesis by (simp only: round_pos_def flip: u) (simp only: round_half_even_int flip: n)
qed

lemma f64_round_repr: "f64_repr x \<Longrightarrow> f64_round x = Fin x"
proof -
  assume r: "f64_repr x"
  then obtain m e where m: "x = of_int m * pow2 e" "- 1074 \<le> e" "\<bar>m\<bar> \<le> 2 ^ 53" "\<bar>x\<bar> < f64_limit"
    by (auto simp: f64_repr_def)
  have "round_pos x = x" if "0 < x" using round_pos_exact [OF that m(1-3)] .
  moreover have "round_pos (- x) = - x" if "x < 0"
    using that m round_pos_exact [of "- x" "- m" e] by simp
  ultimately show ?thesis using m(4) by (auto simp: f64_round_def Let_def abs_less_iff)
qed

lemma round_pos_repr:
  assumes "0 < x" and "round_pos x < f64_limit"
  shows "f64_repr (round_pos x)"
proof -
  let ?u = "ulp_exp x" and ?m = "round_half_even (x / pow2 (ulp_exp x))"
  have "x < pow2 (floor_log2 x + 1)" using floor_log2_bounds [OF assms(1)] by simp
  also have "\<dots> \<le> pow2 (?u + 53)" by (rule pow2_mono) (simp add: ulp_exp_def)
  finally have "x / pow2 ?u \<le> of_int (2 ^ 53)" by (simp add: pow2_add pos_divide_le_eq)
  then have "?m \<le> 2 ^ 53" by (rule round_half_even_le)
  moreover have "0 \<le> ?m" using assms(1) by (intro round_half_even_ge) simp
  ultimately have "\<bar>?m\<bar> \<le> 2 ^ 53" by simp
  moreover have "\<bar>round_pos x\<bar> < f64_limit" using assms round_pos_nonneg [of x] by simp
  moreover have "- 1074 \<le> ?u" by (simp add: ulp_exp_def)
  ultimately show ?thesis unfolding f64_repr_def round_pos_def by blast
qed

lemma f64_repr_uminus:
  assumes "f64_repr x"
  shows "f64_repr (- x)"
proof -
  from assms obtain m e where "x = of_int m * pow2 e" "- 1074 \<le> e" "\<bar>m\<bar> \<le> 2 ^ 53" "\<bar>x\<bar> < f64_limit"
    by (auto simp: f64_repr_def)
  then show ?thesis
    unfolding f64_repr_def by (intro conjI exI [of _ "- m"] exI [of _ e]) simp_all
qed

lemma f64_repr_0 [simp]: "f64_repr 0"
  unfolding f64_repr_def f64_limit_def by (intro conjI exI [of _ 0]) simp_all

lemma f64_repr_round: "f64_round x = Fin v \<Longrightarrow> f64_repr v"
  using round_pos_repr [of x] f64_repr_uminus [OF round_pos_repr [of "- x"]]
  by (auto simp: f64_round_def Let_def not_le split: if_splits)

lemma f64_repr_of_nat: "n \<le> 2 ^ 53 \<Longrightarrow> f64_repr (of_nat n)"
proof -
  assume n: "n \<le> 2 ^ 53"
  have "(of_nat n :: rat) \<le> 2 ^ 53" using n by (metis of_nat_le_iff of_nat_numeral of_nat_power)
  also have "\<dots> < f64_limit" unfolding f64_limit_def by (rule power_strict_increasing) auto
  finally have "\<bar>of_nat n :: rat\<bar> < f64_limit" by simp
  moreover have "\<bar>int n\<bar> \<le> 2 ^ 53" using n by (metis abs_of_nat of_nat_le_iff of_nat_numeral of_nat_power)
  ultimately show ?thesis
    unfolding f64_repr_def by (intro conjI exI [of _ "int n"] exI [of _ 0]) simp_all
qed

lemma f64_of_nat_exact: "n \<le> 2 ^ 53 \<Longrightarrow> f64_of_nat n = Fin (of_nat n)"
  by (simp add: f64_of_nat_def f64_round_repr f64_repr_of_nat)

lemma f64_round_mono: "x \<le> y \<Longrightarrow> f64_round x = Fin a \<Longrightarrow> f64_round y = Fin b \<Longrightarrow> a \<le> b"
proof -
  assume le: "x \<le> y" and a: "f64_round x = Fin a" and b: "f64_round y = Fin b"
  have sign: "0 \<le> round_pos z" if "0 < z" for z using that by (simp add: round_pos_nonneg)
  show ?thesis
    using a b le sign [of "- x"] sign [of y] round_pos_mono [of x y] round_pos_mono [of "- y" "- x"]
    by (auto simp: f64_round_def Let_def split: if_splits)
qed

section \<open>Non-negative values\<close>

text \<open>What the token bucket computes with: never a negative number or negative infinity.\<close>

definition f64_nonneg :: "f64 \<Rightarrow> bool" where
  "f64_nonneg a \<longleftrightarrow> (case a of NaN \<Rightarrow> True | NegInf \<Rightarrow> False | PosInf \<Rightarrow> True | Fin x \<Rightarrow> 0 \<le> x \<and> f64_repr x)"

lemma f64_nonneg_round: "0 \<le> x \<Longrightarrow> f64_nonneg (f64_round x)"
  using round_pos_repr [of x] round_pos_nonneg [of x]
  by (auto simp: f64_nonneg_def f64_round_def Let_def not_le)

lemma f64_nonneg_add: "f64_nonneg a \<Longrightarrow> f64_nonneg b \<Longrightarrow> f64_nonneg (f64_add a b)"
  by (cases a; cases b) (auto simp: f64_nonneg_round, auto simp: f64_nonneg_def intro: f64_nonneg_round [unfolded f64_nonneg_def])

lemma f64_nonneg_mul: "f64_nonneg a \<Longrightarrow> f64_nonneg b \<Longrightarrow> f64_nonneg (f64_mul a b)"
  using f64_nonneg_round by (cases a; cases b) (auto simp: f64_nonneg_def signed_inf_def)

lemma f64_nonneg_div: "f64_nonneg a \<Longrightarrow> f64_nonneg b \<Longrightarrow> f64_nonneg (f64_div a b)"
  using f64_nonneg_round by (cases a; cases b) (auto simp: f64_nonneg_def signed_inf_def)

lemma f64_nonneg_of_nat [simp]: "f64_nonneg (f64_of_nat n)"
  by (simp add: f64_of_nat_def f64_nonneg_round)

lemma f64_nonneg_as_secs [simp]: "f64_nonneg (as_secs_f64 d)"
  by (simp add: as_secs_f64_def f64_nonneg_add f64_nonneg_div)

lemma f64_of_u64_finite: "\<exists>x. f64_of_u64 n = Fin x \<and> 0 \<le> x \<and> f64_repr x"
proof (cases "n = 0")
  case True
  then show ?thesis by (simp add: f64_of_u64_def f64_of_nat_def f64_round_def)
next
  case False
  let ?x = "of_nat (unat n) :: rat"
  have pos: "0 < ?x" using False by (metis of_nat_0_less_iff unat_gt_0)
  have "unat n \<le> 2 ^ 64" using unsigned_less [of n, where ?'a = nat] by simp
  then have "?x \<le> of_nat (2 ^ 64)" by (simp only: of_nat_le_iff)
  then have "round_pos ?x \<le> round_pos (pow2 64)" using pos by (intro round_pos_mono) auto
  also have "round_pos (pow2 64) = pow2 64" by (rule round_pos_exact [of _ 1 64]) auto
  also have "pow2 64 < f64_limit"
    unfolding f64_limit_def using pow2_strict_mono [of 64 1024] by (simp only: power_int_numeral)
  finally have "round_pos ?x < f64_limit" .
  then show ?thesis
    using pos round_pos_repr [OF pos] round_pos_nonneg [of ?x]
    by (simp add: f64_of_u64_def f64_of_nat_def f64_round_def Let_def not_le [symmetric])
qed

lemma f64_round_bounded:
  assumes "0 \<le> x" and "x \<le> y" and y: "f64_round y = Fin v"
  obtains u where "f64_round x = Fin u" and "0 \<le> u" and "u \<le> v" and "f64_repr u"
proof -
  have "0 < x \<Longrightarrow> round_pos x \<le> round_pos y" using assms by (intro round_pos_mono) auto
  then have "\<exists>u. f64_round x = Fin u"
    using assms by (cases "x = 0") (auto simp: f64_round_def Let_def split: if_splits)
  then obtain u where u: "f64_round x = Fin u" by blast
  have "0 \<le> u" using f64_round_mono [of 0 x 0 u] u assms(1) by (simp add: f64_round_def)
  moreover have "u \<le> v" using f64_round_mono [OF assms(2) u y] .
  ultimately show thesis using that u f64_repr_round [OF u] by blast
qed

lemma f64_repr_below_one:
  assumes "f64_repr x" and "x < 1"
  shows "pow2 (- 1074) \<le> 1 - x"
proof -
  obtain m e where x: "x = of_int m * pow2 e" and e: "- 1074 \<le> e"
    using assms(1) by (auto simp: f64_repr_def)
  define p where "p = pow2 (- 1074)"
  define k :: int where "k = 2 ^ nat (0 - - 1074) - m * 2 ^ nat (e - - 1074)"
  have "1 = of_int (2 ^ nat (0 - - 1074)) * p"
    unfolding p_def by (subst pow2_multiple [symmetric]) simp_all
  moreover have "pow2 e = of_int (2 ^ nat (e - - 1074)) * p"
    unfolding p_def by (rule pow2_multiple [OF e])
  ultimately have k: "1 - x = of_int k * p"
    by (simp only: x k_def of_int_diff of_int_mult left_diff_distrib mult.assoc)
  have p: "0 < p" by (simp only: p_def pow2_pos)
  have "0 < of_int k * p" using assms(2) by (simp flip: k)
  then have "1 \<le> k" using p by (simp add: zero_less_mult_iff)
  then have "1 * p \<le> of_int k * p" using p by (intro mult_right_mono) auto
  then show ?thesis by (simp add: p_def k)
qed

lemma f64_round_positive:
  assumes "pow2 (- 1074) \<le> x"
  shows "f64_gt_zero (f64_round x)"
proof -
  define p where "p = pow2 (- 1074)"
  have p: "0 < p" by (simp only: p_def pow2_pos)
  have x: "p \<le> x" using assms by (simp only: p_def)
  have "round_pos p = p" using p by (rule round_pos_exact [of _ 1 "- 1074"]) (simp_all add: p_def)
  then have "0 < round_pos x" using round_pos_mono [OF p x] p by linarith
  then show ?thesis using p x by (auto simp: f64_round_def Let_def f64_gt_zero_def)
qed

lemma f64_one_minus_positive: "f64_repr x \<Longrightarrow> x < 1 \<Longrightarrow> f64_gt_zero (f64_sub (Fin 1) (Fin x))"
  by (simp add: f64_sub_def) (rule f64_round_positive [OF f64_repr_below_one])

section \<open>Computing a rounded value\<close>

lemma floor_log2_eq:
  assumes "pow2 k \<le> x" and "x < pow2 (k + 1)"
  shows "floor_log2 x = k"
proof -
  have "0 < x" using assms(1) pow2_pos [of k] by (rule less_le_trans [rotated])
  note b = floor_log2_bounds [OF this]
  have "pow2 k < pow2 (floor_log2 x + 1)" and "pow2 (floor_log2 x) < pow2 (k + 1)"
    using b assms by linarith+
  then show ?thesis by (simp add: pow2_less_iff)
qed

lemma round_half_even_eq: "\<bar>x - of_int m\<bar> < 1 / 2 \<Longrightarrow> round_half_even x = m"
proof -
  assume "\<bar>x - of_int m\<bar> < 1 / 2"
  then consider "\<lfloor>x\<rfloor> = m" "x - of_int m < 1 / 2" | "\<lfloor>x\<rfloor> = m - 1" "1 / 2 < x - of_int (m - 1)"
    by (cases "of_int m \<le> x") (force simp: floor_eq_iff abs_less_iff)+
  then show ?thesis by cases (auto simp: round_half_even_def Let_def)
qed

lemma f64_round_eq:
  assumes k: "pow2 k \<le> x" "x < pow2 (k + 1)" "- 1022 \<le> k" and m: "\<bar>x / pow2 (k - 52) - of_int m\<bar> < 1 / 2"
    and v: "v = of_int m * pow2 (k - 52)" "v < 2 ^ 64"
  shows "f64_round x = Fin v"
proof -
  have "0 < x" using k(1) pow2_pos [of k] by (rule less_le_trans [rotated])
  moreover have "ulp_exp x = k - 52" using k(3) by (simp add: ulp_exp_def floor_log2_eq [OF k(1,2)])
  then have "round_pos x = v" using round_half_even_eq [OF m] by (simp only: round_pos_def v)
  moreover have "v < f64_limit"
    using v(2) power_strict_increasing [of 64 1024 "2 :: rat"] unfolding f64_limit_def by linarith
  ultimately show ?thesis by (simp add: f64_round_def Let_def)
qed

end
