(* ===== verification/Token_Bucket.thy ===== *)
theory Token_Bucket
  imports F64
begin

text \<open>
  The token bucket of one client, \<open>crates/domain/src/rate_limit.rs\<close>. The tokens are an \<open>f64\<close>
  with every rounding of the code; an \<open>Instant\<close> is a number of nanoseconds, and
  \<open>duration_since\<close> is zero where the clock reading is the earlier one. \<open>bucket_ok\<close> is the
  invariant: the tokens are a finite number between zero and the capacity. It needs nothing of the
  configuration, not even a period that is not zero.
\<close>

section \<open>State and operations\<close>

record rate_limit_state =
  tokens :: f64
  last_update :: instant

record rate_limit_config =
  capacity :: u64
  period_secs :: u64

definition rate_limit_config_new :: "u64 \<Rightarrow> u64 \<Rightarrow> rate_limit_config" where
  "rate_limit_config_new cap period = \<lparr>capacity = cap, period_secs = period\<rparr>"

definition refill_rate :: "rate_limit_config \<Rightarrow> f64" where
  "refill_rate config = f64_div (f64_of_u64 (capacity config)) (f64_of_u64 (period_secs config))"

definition new_full :: "u64 \<Rightarrow> instant \<Rightarrow> rate_limit_state" where
  "new_full cap now = \<lparr>tokens = f64_of_u64 cap, last_update = now\<rparr>"

definition duration_since :: "instant \<Rightarrow> instant \<Rightarrow> nat" where
  "duration_since now earlier = nat (now - earlier)"

definition refilled :: "rate_limit_state \<Rightarrow> rate_limit_config \<Rightarrow> instant \<Rightarrow> f64" where
  "refilled st config now =
     (let elapsed = as_secs_f64 (duration_since now (last_update st));
          refill = f64_mul elapsed (refill_rate config)
      in f64_min (f64_add (tokens st) refill) (f64_of_u64 (capacity config)))"

definition try_consume ::
  "rate_limit_state \<Rightarrow> rate_limit_config \<Rightarrow> instant \<Rightarrow> bool \<times> rate_limit_state \<times> u64" where
  "try_consume st config now =
     (let new_tokens = refilled st config now
      in if f64_ge new_tokens (Fin 1)
         then (True, \<lparr>tokens = f64_sub new_tokens (Fin 1), last_update = now\<rparr>, 0)
         else (let shortage = f64_sub (Fin 1) new_tokens;
                   retry_after = f64_to_u64 (f64_ceil (f64_div shortage (refill_rate config)));
                   retry_after = (if retry_after = 0 \<and> f64_gt_zero shortage then 1 else retry_after)
               in (False, \<lparr>tokens = new_tokens, last_update = now\<rparr>, retry_after)))"

section \<open>The tokens stay between zero and the capacity\<close>

definition bucket_ok :: "rate_limit_config \<Rightarrow> rate_limit_state \<Rightarrow> bool" where
  "bucket_ok config st \<longleftrightarrow>
     (\<exists>q c. tokens st = Fin q \<and> f64_of_u64 (capacity config) = Fin c \<and> 0 \<le> q \<and> q \<le> c \<and> f64_repr q)"

lemma refill_rate_nonneg [simp]: "f64_nonneg (refill_rate config)"
  by (simp add: refill_rate_def f64_nonneg_div f64_of_u64_def)

lemma refilled_bounds:
  assumes "bucket_ok config st"
  obtains q c where "refilled st config now = Fin q" and "f64_of_u64 (capacity config) = Fin c"
    and "0 \<le> q" and "q \<le> c" and "f64_repr q"
proof -
  from assms have "f64_nonneg (tokens st)" by (auto simp: bucket_ok_def f64_nonneg_def)
  then have "f64_nonneg (f64_add (tokens st)
      (f64_mul (as_secs_f64 (duration_since now (last_update st))) (refill_rate config)))"
    by (simp add: f64_nonneg_add f64_nonneg_mul)
  moreover obtain c where "f64_of_u64 (capacity config) = Fin c" "0 \<le> c" "f64_repr c"
    using f64_of_u64_finite by blast
  ultimately show thesis
    using that by (auto simp: refilled_def Let_def f64_nonneg_def min_def split: f64.splits)
qed

lemma bucket_ok_new: "bucket_ok config (new_full (capacity config) now)"
  using f64_of_u64_finite [of "capacity config"] by (auto simp: bucket_ok_def new_full_def)

lemma f64_sub_one:
  assumes "1 \<le> q" and "f64_repr q"
  obtains r where "f64_sub (Fin q) (Fin 1) = Fin r" and "0 \<le> r" and "r \<le> q" and "f64_repr r"
  using f64_round_bounded [of "q - 1" q q] f64_round_repr [OF assms(2)] assms(1)
  by (auto simp: f64_sub_def)

lemma try_consume_ok:
  assumes "bucket_ok config st" and "try_consume st config now = (allowed, st', retry)"
  shows "bucket_ok config st'"
proof -
  obtain q c where r: "refilled st config now = Fin q" and c: "f64_of_u64 (capacity config) = Fin c"
    and q: "0 \<le> q" "q \<le> c" "f64_repr q" using refilled_bounds [OF assms(1)] by blast
  show ?thesis
  proof (cases "1 \<le> q")
    case True
    obtain r where "f64_sub (Fin q) (Fin 1) = Fin r" "0 \<le> r" "r \<le> q" "f64_repr r"
      using f64_sub_one [OF True q(3)] by blast
    then show ?thesis using assms(2) r c q True by (auto simp: try_consume_def bucket_ok_def)
  next
    case False
    then show ?thesis using assms(2) r c q by (auto simp: try_consume_def Let_def bucket_ok_def)
  qed
qed

section \<open>A denied request is told to wait\<close>

lemma try_consume_retry:
  assumes "bucket_ok config st" and "try_consume st config now = (allowed, st', retry)"
  shows "allowed \<longleftrightarrow> retry = 0"
proof -
  obtain q c where r: "refilled st config now = Fin q" and q: "f64_repr q"
    using refilled_bounds [OF assms(1)] by blast
  show ?thesis
  proof (cases "1 \<le> q")
    case True
    then show ?thesis using assms(2) r by (auto simp: try_consume_def)
  next
    case False
    then have "f64_gt_zero (f64_sub (Fin 1) (Fin q))" using q by (simp add: f64_one_minus_positive)
    with False show ?thesis using assms(2) r by (auto simp: try_consume_def Let_def split: if_splits)
  qed
qed

section \<open>A period of zero\<close>

text \<open>The rate is infinite, or not a number for a capacity of zero: the bucket is full at every request.\<close>

lemma refilled_period_0:
  assumes "bucket_ok config st" and "period_secs config = 0"
  shows "refilled st config now = f64_of_u64 (capacity config)"
proof -
  obtain q c where q: "tokens st = Fin q" and c: "f64_of_u64 (capacity config) = Fin c" "0 \<le> q" "q \<le> c"
    using assms(1) by (auto simp: bucket_ok_def)
  have "f64_of_u64 (period_secs config) = Fin 0"
    using assms(2) by (simp add: f64_of_u64_def f64_of_nat_def f64_round_def)
  then have rate: "refill_rate config = signed_inf c" by (simp add: refill_rate_def c(1))
  obtain e where e: "as_secs_f64 (duration_since now (last_update st)) = e" "f64_nonneg e" by simp
  show ?thesis
    using c e(2) by (cases e) (auto simp: refilled_def Let_def q rate e(1) signed_inf_def f64_nonneg_def)
qed

section \<open>A burst at one instant\<close>

text \<open>The decisions of a run of requests on one bucket.\<close>

fun grants :: "rate_limit_config \<Rightarrow> rate_limit_state \<Rightarrow> instant list \<Rightarrow> bool list" where
  "grants config st [] = []"
| "grants config st (now # nows) =
     (let (allowed, st', _) = try_consume st config now in allowed # grants config st' nows)"

lemma period_at_least_one:
  assumes "0 < p"
  obtains x where "f64_of_u64 p = Fin x" and "1 \<le> x"
proof -
  obtain x where x: "f64_of_u64 p = Fin x" using f64_of_u64_finite by blast
  have "1 \<le> unat p" using assms by (simp add: word_less_nat_alt Suc_le_eq)
  then have "(of_nat 1 :: rat) \<le> of_nat (unat p)" by (simp only: of_nat_le_iff)
  moreover have "f64_round 1 = Fin 1" using f64_round_repr [OF f64_repr_of_nat [of 1]] by simp
  ultimately have "1 \<le> x" using f64_round_mono x by (auto simp: f64_of_u64_def f64_of_nat_def)
  then show thesis using that x by blast
qed

lemma refill_rate_finite:
  assumes "0 < period_secs config"
  obtains r where "refill_rate config = Fin r" and "0 \<le> r" and "f64_repr r"
proof -
  obtain p where p: "f64_of_u64 (period_secs config) = Fin p" "1 \<le> p"
    using period_at_least_one [OF assms] by blast
  obtain c where c: "f64_of_u64 (capacity config) = Fin c" "0 \<le> c" "f64_repr c"
    using f64_of_u64_finite by blast
  have "c / p \<le> c / 1" using c p by (intro divide_left_mono) auto
  then obtain r where "f64_round (c / p) = Fin r" "0 \<le> r" "f64_repr r"
    using f64_round_bounded [of "c / p" c c] f64_round_repr [OF c(3)] c p by auto
  then show thesis using that p c by (simp add: refill_rate_def)
qed

lemma f64_round_0 [simp]: "f64_round 0 = Fin 0"
  by (simp add: f64_round_def)

lemma f64_of_nat_0 [simp]: "f64_of_nat 0 = Fin 0"
  by (simp add: f64_of_nat_def)

lemma as_secs_f64_0 [simp]: "as_secs_f64 0 = Fin 0"
proof -
  have "f64_of_nat 1000000000 = Fin (of_nat 1000000000)" by (rule f64_of_nat_exact) simp
  then show ?thesis by (simp add: as_secs_f64_def subsec_nanos_def)
qed

lemma refilled_same_instant:
  assumes "0 < period_secs config" and "bucket_ok config st" and "tokens st = Fin q"
  shows "refilled st config (last_update st) = Fin q"
proof -
  obtain r where "refill_rate config = Fin r" using refill_rate_finite [OF assms(1)] by blast
  moreover have "f64_round q = Fin q" using assms(2,3) by (auto simp: bucket_ok_def f64_round_repr)
  ultimately show ?thesis
    using assms(2,3) by (auto simp: refilled_def Let_def duration_since_def bucket_ok_def)
qed

lemma try_consume_whole:
  assumes period: "0 < period_secs config" and cap: "unat (capacity config) \<le> 2 ^ 53"
    and k: "k \<le> unat (capacity config)"
  shows "fst (try_consume \<lparr>tokens = Fin (of_nat k), last_update = now\<rparr> config now) = (0 < k) \<and>
    fst (snd (try_consume \<lparr>tokens = Fin (of_nat k), last_update = now\<rparr> config now)) =
      \<lparr>tokens = Fin (of_nat (k - 1)), last_update = now\<rparr>"
proof -
  let ?st = "\<lparr>tokens = Fin (of_nat k), last_update = now\<rparr>"
  have repr: "f64_repr (of_nat j)" if "j \<le> k" for j
    using that k cap by (intro f64_repr_of_nat) simp
  have "f64_of_u64 (capacity config) = Fin (of_nat (unat (capacity config)))"
    using cap by (simp add: f64_of_u64_def f64_of_nat_exact)
  moreover have "(of_nat k :: rat) \<le> of_nat (unat (capacity config))"
    using k by (simp only: of_nat_le_iff)
  ultimately have "bucket_ok config ?st" using repr [of k] by (auto simp: bucket_ok_def)
  then have r: "refilled ?st config now = Fin (of_nat k)"
    using refilled_same_instant [OF period, of ?st] by simp
  show ?thesis
  proof (cases k)
    case 0
    then show ?thesis using r by (simp add: try_consume_def Let_def)
  next
    case (Suc j)
    have "f64_round (of_nat j) = Fin (of_nat j)" using repr [of j] Suc by (intro f64_round_repr) simp
    then show ?thesis using r Suc by (simp add: try_consume_def f64_sub_def)
  qed
qed

lemma try_consume_whole_retry:
  assumes "0 < period_secs config" and "unat (capacity config) \<le> 2 ^ 53" and "k \<le> unat (capacity config)"
    and "now \<le> u"
  obtains retry where "try_consume \<lparr>tokens = Fin (of_nat k), last_update = u\<rparr> config now =
      (0 < k, \<lparr>tokens = Fin (of_nat (k - 1)), last_update = now\<rparr>, retry)"
    and "retry = 0 \<longleftrightarrow> 0 < k"
proof -
  let ?st = "\<lambda>t. \<lparr>tokens = Fin (of_nat k), last_update = t\<rparr>"
  have same: "try_consume (?st u) config now = try_consume (?st now) config now"
    using assms(4) by (simp add: try_consume_def refilled_def duration_since_def)
  obtain a st retry where run: "try_consume (?st now) config now = (a, st, retry)" by (metis prod_cases3)
  have "f64_of_u64 (capacity config) = Fin (of_nat (unat (capacity config)))"
    using assms(2) by (simp add: f64_of_u64_def f64_of_nat_exact)
  moreover have "f64_repr (of_nat k)" using assms(2,3) by (intro f64_repr_of_nat) simp
  moreover have "(of_nat k :: rat) \<le> of_nat (unat (capacity config))" using assms(3) by (simp only: of_nat_le_iff)
  ultimately have "bucket_ok config (?st now)" by (auto simp: bucket_ok_def)
  from try_consume_retry [OF this run] try_consume_whole [OF assms(1-3), of now] run same that show thesis
    by auto
qed

lemma as_secs_f64_whole:
  assumes "n \<le> 2 ^ 53"
  shows "as_secs_f64 (n * 1000000000) = Fin (of_nat n)"
  using assms f64_of_nat_exact [of n] f64_of_nat_exact [of 1000000000]
    f64_round_repr [OF f64_repr_of_nat [OF assms]]
  by (simp add: as_secs_f64_def subsec_nanos_def)

lemma refill_one_token:
  assumes "refill_rate config = Fin r" and "f64_round (of_nat n * r) = Fin 1" and "n \<le> 2 ^ 53"
    and "1 \<le> unat (capacity config)" and "unat (capacity config) \<le> 2 ^ 53"
  shows "try_consume \<lparr>tokens = Fin 0, last_update = now\<rparr> config (now + int n * nanos_per_sec) =
    (True, \<lparr>tokens = Fin 0, last_update = now + int n * nanos_per_sec\<rparr>, 0)"
proof -
  have "as_secs_f64 (duration_since (now + int n * nanos_per_sec) now) = Fin (of_nat n)"
    using as_secs_f64_whole [OF assms(3)] by (simp add: duration_since_def nat_mult_distrib)
  moreover have "f64_round 1 = Fin 1" using f64_round_repr [OF f64_repr_of_nat [of 1]] by simp
  moreover have "f64_of_u64 (capacity config) = Fin (of_nat (unat (capacity config)))"
    using assms(5) by (simp add: f64_of_u64_def f64_of_nat_exact)
  moreover have "(1 :: rat) \<le> of_nat (unat (capacity config))"
    using assms(4) by (metis of_nat_1 of_nat_le_iff)
  ultimately have "refilled \<lparr>tokens = Fin 0, last_update = now\<rparr> config (now + int n * nanos_per_sec) = Fin 1"
    using assms(1,2) by (simp add: refilled_def)
  then show ?thesis by (simp add: try_consume_def f64_sub_def)
qed

lemma grants_burst:
  assumes "0 < period_secs config" and "unat (capacity config) \<le> 2 ^ 53"
    and "k \<le> unat (capacity config)"
  shows "grants config \<lparr>tokens = Fin (of_nat k), last_update = now\<rparr> (replicate n now) =
    replicate (min n k) True @ replicate (n - k) False"
  using assms(3)
proof (induction n arbitrary: k)
  case (Suc n)
  have "grants config \<lparr>tokens = Fin (of_nat k), last_update = now\<rparr> (replicate (Suc n) now) =
      (0 < k) # grants config \<lparr>tokens = Fin (of_nat (k - 1)), last_update = now\<rparr> (replicate n now)"
    using try_consume_whole [OF assms(1,2) Suc.prems, of now] by (simp add: split_beta)
  then show ?case using Suc.IH [of "k - 1"] Suc.prems by (cases k) simp_all
qed simp

section \<open>Waiting longer never turns a grant into a denial\<close>

text \<open>The order of the numbers up to positive infinity.\<close>

fun f64_le :: "f64 \<Rightarrow> f64 \<Rightarrow> bool" where
  "f64_le (Fin x) (Fin y) \<longleftrightarrow> x \<le> y"
| "f64_le (Fin _) PosInf \<longleftrightarrow> True"
| "f64_le PosInf PosInf \<longleftrightarrow> True"
| "f64_le _ _ \<longleftrightarrow> False"

lemma f64_round_le: "0 \<le> x \<Longrightarrow> x \<le> y \<Longrightarrow> f64_le (f64_round x) (f64_round y)"
  using round_pos_mono [of x y] round_pos_nonneg [of y]
  by (auto simp: f64_round_def Let_def)

lemma f64_add_le:
  "f64_le a b \<Longrightarrow> f64_nonneg a \<Longrightarrow> f64_nonneg (Fin x) \<Longrightarrow> f64_le (f64_add (Fin x) a) (f64_add (Fin x) b)"
  by (cases a; cases b) (auto simp: f64_nonneg_def intro: f64_round_le, simp add: f64_round_def Let_def)

lemma as_secs_f64_parts:
  assumes "d div 1000000000 \<le> 2 ^ 53"
  obtains x where "f64_round (of_nat (subsec_nanos d) / 1000000000) = Fin x" and "0 \<le> x" and "x \<le> 1"
    and "as_secs_f64 d = f64_round (of_nat (d div 1000000000) + x)"
proof -
  let ?n = "subsec_nanos d"
  have n: "?n < 1000000000" by (simp add: subsec_nanos_def)
  then have "(of_nat ?n :: rat) \<le> of_nat 1000000000" by (simp only: of_nat_le_iff less_imp_le)
  then have frac: "0 \<le> (of_nat ?n :: rat) / 1000000000" "(of_nat ?n :: rat) / 1000000000 \<le> 1" by auto
  have one: "f64_round 1 = Fin 1" using f64_round_repr [OF f64_repr_of_nat [of 1]] by simp
  obtain x where x: "f64_round (of_nat ?n / 1000000000) = Fin x" "0 \<le> x" "x \<le> 1"
    using f64_round_bounded [OF frac one] by blast
  have "f64_of_nat ?n = Fin (of_nat ?n)" "f64_of_nat 1000000000 = Fin 1000000000"
    using n f64_of_nat_exact [of 1000000000] by (simp_all add: f64_of_nat_exact)
  moreover have "f64_of_nat (d div 1000000000) = Fin (of_nat (d div 1000000000))"
    by (rule f64_of_nat_exact [OF assms])
  ultimately have "as_secs_f64 d = f64_round (of_nat (d div 1000000000) + x)"
    using x by (simp add: as_secs_f64_def)
  then show thesis using that x by blast
qed

lemma as_secs_f64_finite:
  assumes "d div 1000000000 < 2 ^ 53"
  obtains x where "as_secs_f64 d = Fin x" and "0 \<le> x" and "f64_repr x"
proof -
  obtain x where x: "0 \<le> x" "x \<le> 1" "as_secs_f64 d = f64_round (of_nat (d div 1000000000) + x)"
    using as_secs_f64_parts [of d] assms by auto
  have "Suc (d div 1000000000) \<le> 2 ^ 53" using assms by simp
  then have "(of_nat (Suc (d div 1000000000)) :: rat) \<le> of_nat (2 ^ 53)" by (simp only: of_nat_le_iff)
  then have "of_nat (d div 1000000000) + x \<le> of_nat (2 ^ 53)" using x(2) by simp
  moreover have "f64_round (of_nat (2 ^ 53)) = Fin (of_nat (2 ^ 53))"
    by (intro f64_round_repr f64_repr_of_nat) simp
  ultimately show thesis
    using f64_round_bounded [of "of_nat (d div 1000000000) + x"] x that by auto
qed

lemma as_secs_f64_mono:
  assumes le: "d \<le> d'" and small: "d' div 1000000000 < 2 ^ 53"
  shows "f64_le (as_secs_f64 d) (as_secs_f64 d')"
proof -
  let ?s = "d div 1000000000" and ?s' = "d' div 1000000000"
  have ss: "?s \<le> ?s'" by (rule div_le_mono [OF le])
  obtain x where x: "f64_round (of_nat (subsec_nanos d) / 1000000000) = Fin x" "0 \<le> x" "x \<le> 1"
    "as_secs_f64 d = f64_round (of_nat ?s + x)" using as_secs_f64_parts [of d] ss small by auto
  obtain x' where x': "f64_round (of_nat (subsec_nanos d') / 1000000000) = Fin x'" "0 \<le> x'"
    "as_secs_f64 d' = f64_round (of_nat ?s' + x')" using as_secs_f64_parts [of d'] small by auto
  have "of_nat ?s + x \<le> of_nat ?s' + x'"
  proof (cases "?s = ?s'")
    case True
    then have "subsec_nanos d \<le> subsec_nanos d'"
      using le unfolding subsec_nanos_def by (metis add_le_cancel_left div_mult_mod_eq)
    then have "(of_nat (subsec_nanos d) :: rat) / 1000000000 \<le> of_nat (subsec_nanos d') / 1000000000"
      by (intro divide_right_mono) auto
    then have "x \<le> x'" using f64_round_mono x(1) x'(1) by blast
    then show ?thesis using True by simp
  next
    case False
    then have "Suc ?s \<le> ?s'" using ss by simp
    then have "(of_nat (Suc ?s) :: rat) \<le> of_nat ?s'" by (simp only: of_nat_le_iff)
    then show ?thesis using x(3) x'(2) by simp
  qed
  then show ?thesis using x x' by (simp add: f64_round_le)
qed

lemma f64_min_ge_one:
  "f64_le a b \<Longrightarrow> f64_ge (f64_min a (Fin c)) (Fin 1) \<Longrightarrow> f64_ge (f64_min b (Fin c)) (Fin 1)"
  by (cases a; cases b) auto

lemma allowed_later:
  assumes ok: "bucket_ok config st" and period: "0 < period_secs config" and le: "now \<le> now'"
    and small: "duration_since now' (last_update st) div 1000000000 < 2 ^ 53"
    and allowed: "fst (try_consume st config now)"
  shows "fst (try_consume st config now')"
proof -
  let ?d = "duration_since now (last_update st)" and ?d' = "duration_since now' (last_update st)"
  obtain r where r: "refill_rate config = Fin r" "0 \<le> r" using refill_rate_finite [OF period] by blast
  obtain c where c: "f64_of_u64 (capacity config) = Fin c" using f64_of_u64_finite by blast
  obtain q where q: "tokens st = Fin q" "f64_nonneg (Fin q)"
    using ok by (auto simp: bucket_ok_def f64_nonneg_def)
  have dd: "?d \<le> ?d'" using le by (simp add: duration_since_def nat_mono)
  have "?d div 1000000000 < 2 ^ 53" using div_le_mono [OF dd, of 1000000000] small by simp
  then obtain e e' where e: "as_secs_f64 ?d = Fin e" "0 \<le> e" and e': "as_secs_f64 ?d' = Fin e'"
    using as_secs_f64_finite small by metis
  then have "e * r \<le> e' * r" using as_secs_f64_mono [OF dd small] r(2) by (auto intro: mult_right_mono)
  then have "f64_le (f64_round (e * r)) (f64_round (e' * r))" using e(2) r(2) by (simp add: f64_round_le)
  then have "f64_le (f64_add (Fin q) (f64_round (e * r))) (f64_add (Fin q) (f64_round (e' * r)))"
    using q(2) e(2) r(2) by (intro f64_add_le f64_nonneg_round) auto
  then show ?thesis
    using allowed f64_min_ge_one q(1) r(1) c e(1) e'
    by (auto simp: try_consume_def refilled_def Let_def split: if_splits)
qed

section \<open>One request per 161 seconds\<close>

text \<open>The rounded refill rate of a configuration whose waiting time is too short by one rounding.\<close>

abbreviation config_161 :: rate_limit_config where
  "config_161 \<equiv> rate_limit_config_new 1 161"

lemma rate_161: "refill_rate config_161 = Fin (7161003134204018 / 2 ^ 60)"
proof -
  have "f64_of_u64 1 = Fin 1" and "f64_of_u64 161 = Fin 161"
    using f64_of_nat_exact [of 1] f64_of_nat_exact [of 161] by (simp_all add: f64_of_u64_def)
  moreover have "f64_round (1 / 161) = Fin (7161003134204018 / 2 ^ 60)"
    by (rule f64_round_eq [of "- 8" _ 7161003134204018])
       (simp_all add: power_int_minus abs_if)
  ultimately show ?thesis by (simp add: refill_rate_def rate_limit_config_new_def)
qed

lemma refilled_161_0: "refilled \<lparr>tokens = Fin 0, last_update = 0\<rparr> config_161 0 = Fin 0"
  using refilled_same_instant [of config_161 "\<lparr>tokens = Fin 0, last_update = 0\<rparr>" 0]
    f64_of_u64_finite [of 1]
  by (auto simp: rate_limit_config_new_def bucket_ok_def)

lemma refilled_161:
  "refilled \<lparr>tokens = Fin 0, last_update = 0\<rparr> config_161 161000000000 =
   Fin (9007199254740991 / 2 ^ 53)"
proof -
  have "as_secs_f64 161000000000 = f64_add (Fin 161) (Fin 0)"
    using f64_of_nat_exact [of 161] f64_of_nat_exact [of 1000000000]
    by (simp add: as_secs_f64_def subsec_nanos_def)
  also have "\<dots> = Fin 161"
    using f64_round_repr [OF f64_repr_of_nat [of 161]] by simp
  finally have "as_secs_f64 161000000000 = Fin 161" .
  moreover have r: "f64_round (161 * (7161003134204018 / 2 ^ 60)) = Fin (9007199254740991 / 2 ^ 53)"
    by (rule f64_round_eq [of "- 1" _ 9007199254740991]) (simp_all add: power_int_minus abs_if)
  moreover have "f64_round (9007199254740991 / 2 ^ 53) = Fin (9007199254740991 / 2 ^ 53)"
    using f64_round_repr [OF f64_repr_round [OF r]] .
  moreover have "f64_of_u64 1 = Fin 1"
    using f64_of_nat_exact [of 1] by (simp add: f64_of_u64_def)
  ultimately show ?thesis
    unfolding refilled_def Let_def rate_161 by (simp add: duration_since_def rate_limit_config_new_def)
qed

lemma retry_161:
  "try_consume \<lparr>tokens = Fin 0, last_update = 0\<rparr> config_161 0 =
   (False, \<lparr>tokens = Fin 0, last_update = 0\<rparr>, 161)"
proof -
  have "f64_round (1 / (7161003134204018 / 2 ^ 60)) = Fin 161"
    by (rule f64_round_eq [of 7 _ 5664683906301952]) (simp_all add: power_int_minus abs_if)
  moreover have "f64_round 1 = Fin 1" using f64_round_repr [OF f64_repr_of_nat [of 1]] by simp
  ultimately show ?thesis
    unfolding try_consume_def refilled_161_0 rate_161 by (simp add: f64_sub_def)
qed

section \<open>Properties\<close>

lemma try_consume_allowed: "fst (try_consume st config now) = f64_ge (refilled st config now) (Fin 1)"
  by (simp add: try_consume_def Let_def)

text \<open>C17: a new bucket is full, its tokens are the capacity as an \<open>f64\<close>, exactly up to
  \<open>2 ^ 53\<close>; and whatever requests come, at whatever readings of the clock and for every
  configuration, the tokens stay a finite number between zero and the capacity, never a NaN or an
  infinity.\<close>

theorem bucket_bounds:
  assumes "st = fold (\<lambda>now st. fst (snd (try_consume st config now))) nows (new_full (capacity config) start)"
  shows "(\<exists>q c. tokens st = Fin q \<and> f64_of_u64 (capacity config) = Fin c \<and> 0 \<le> q \<and> q \<le> c) \<and>
    (nows = [] \<longrightarrow> tokens st = f64_of_u64 (capacity config)) \<and>
    (unat (capacity config) \<le> 2 ^ 53 \<longrightarrow> f64_of_u64 (capacity config) = Fin (of_nat (unat (capacity config))))"
proof -
  have "bucket_ok config (fold (\<lambda>now st. fst (snd (try_consume st config now))) nows st0)"
    if "bucket_ok config st0" for st0
    using that
  proof (induction nows arbitrary: st0)
    case (Cons now nows)
    have "bucket_ok config (fst (snd (try_consume st0 config now)))"
      using try_consume_ok [OF Cons.prems] by (metis prod.collapse)
    then show ?case by (simp add: Cons.IH)
  qed simp
  from this [OF bucket_ok_new] have "bucket_ok config st" by (simp add: assms)
  then show ?thesis by (auto simp: assms bucket_ok_def new_full_def f64_of_u64_def f64_of_nat_exact)
qed

theorem bucket_bounds_witness:
  "tokens (new_full (capacity (rate_limit_config_new 10 0)) 7) = Fin 10"
  using bucket_bounds [of "new_full (capacity (rate_limit_config_new 10 0)) 7" "rate_limit_config_new 10 0" "[]" 7]
  by (simp add: rate_limit_config_new_def)

text \<open>A request is granted with \<open>Retry-After\<close> zero, and denied with at least one second.\<close>

theorem denied_waits:
  assumes "bucket_ok config st" and "try_consume st config now = (allowed, st', retry)"
  shows "if allowed then retry = 0 else 1 \<le> retry"
  using try_consume_retry [OF assms] by (simp add: word_less_nat_alt word_le_nat_alt) (metis One_nat_def
      Suc_leI neq0_conv unat_eq_zero)

theorem denied_waits_witness:
  "case try_consume \<lparr>tokens = Fin 0, last_update = 0\<rparr> config_161 0 of
     (allowed, st', retry) \<Rightarrow> \<not> allowed \<and> 1 \<le> retry"
proof -
  have "bucket_ok config_161 \<lparr>tokens = Fin 0, last_update = 0\<rparr>"
    using f64_of_u64_finite [of 1] by (auto simp: bucket_ok_def rate_limit_config_new_def)
  from denied_waits [OF this retry_161] show ?thesis by (simp add: retry_161)
qed

text \<open>Of \<open>n\<close> requests at one instant a full bucket grants exactly the capacity.\<close>

theorem burst_is_capacity:
  assumes "0 < period" and "unat cap \<le> 2 ^ 53"
  shows "grants (rate_limit_config_new cap period) (new_full cap now) (replicate n now) =
    replicate (min n (unat cap)) True @ replicate (n - unat cap) False"
  using grants_burst [of "rate_limit_config_new cap period" "unat cap" now n] assms
  by (simp add: rate_limit_config_new_def new_full_def f64_of_u64_def f64_of_nat_exact)

theorem burst_is_capacity_witness:
  "grants (rate_limit_config_new 3 60) (new_full 3 0) (replicate 4 0) = replicate 3 True @ replicate 1 False"
  using burst_is_capacity [of 60 3 0 4] by simp

text \<open>A request that would be granted now is granted at any later instant (within 285 million
  years), if no other request comes in between: refilling is monotone in spite of the rounding.\<close>

theorem waiting_never_hurts:
  assumes "bucket_ok config st" and "0 < period_secs config" and "now \<le> now'"
    and "duration_since now' (last_update st) div 1000000000 < 2 ^ 53"
    and "fst (try_consume st config now)"
  shows "fst (try_consume st config now')"
  by (rule allowed_later [OF assms])

theorem waiting_never_hurts_witness: "fst (try_consume (new_full 1 0) config_161 5)"
proof -
  have "f64_of_u64 1 = Fin 1" using f64_of_nat_exact [of 1] by (simp add: f64_of_u64_def)
  then have "fst (try_consume (new_full 1 0) config_161 0)"
    using try_consume_whole [of config_161 1 0] by (simp add: rate_limit_config_new_def new_full_def)
  then show ?thesis
    using waiting_never_hurts [of config_161 "new_full 1 0" 0 5] bucket_ok_new [of config_161 0]
    by (simp add: rate_limit_config_new_def new_full_def duration_since_def)
qed

text \<open>\<open>Retry-After\<close> can be too short by one rounding: with one request per 161 seconds a client that
  is denied and told to wait 161 seconds is denied again after exactly 161 seconds.\<close>

theorem retry_after_too_short:
  "try_consume \<lparr>tokens = Fin 0, last_update = 0\<rparr> config_161 0 =
     (False, \<lparr>tokens = Fin 0, last_update = 0\<rparr>, 161) \<and>
   \<not> fst (try_consume \<lparr>tokens = Fin 0, last_update = 0\<rparr> config_161 (161 * nanos_per_sec))"
proof -
  have "161 * nanos_per_sec = 161000000000" by simp
  moreover have "\<not> f64_ge (Fin (9007199254740991 / 2 ^ 53)) (Fin 1)" by simp
  ultimately show ?thesis using retry_161 by (simp only: try_consume_allowed refilled_161) simp
qed

end
