(* ===== verification/Rate_Limit_Storage.thy ===== *)
theory Rate_Limit_Storage
  imports Token_Bucket
begin

text \<open>
  The buckets of all clients, \<open>crates/storage/src/rate_limit_storage.rs\<close>: a concurrent map that is
  cleaned lazily, before each request, of the buckets not used for the time to live. A request reads
  the clock twice: \<open>now\<close> is the caller's reading, \<open>fresh\<close> the one \<open>new_full\<close> takes when it
  creates the bucket. Subtracting the time to live from \<open>now\<close> panics below the range of the clock.

  The main fact is \<open>client_isolated\<close>: on a clock that does not run backwards the decisions for one
  client do not depend on the requests of the others, although those clean its bucket up.
\<close>

section \<open>State and operations\<close>

record rate_limit_storage =
  rl_inner :: "(string, rate_limit_state) hash_map"
  rl_config :: rate_limit_config
  rl_ttl :: nat

definition rate_limit_storage_new :: "rate_limit_config \<Rightarrow> nat \<Rightarrow> rate_limit_storage" where
  "rate_limit_storage_new config ttl = \<lparr>rl_inner = [], rl_config = config, rl_ttl = ttl\<rparr>"

definition cleanup_stale :: "instant \<Rightarrow> rate_limit_storage \<Rightarrow> rate_limit_storage run" where
  "cleanup_stale now s =
     (let threshold = now - int (rl_ttl s)
      in if representable threshold
         then Done (s\<lparr>rl_inner := hm_retain (\<lambda>_ state. last_update state \<ge> threshold) (rl_inner s)\<rparr>)
         else Panic)"

definition check_and_consume ::
  "string \<Rightarrow> instant \<Rightarrow> instant \<Rightarrow> rate_limit_storage \<Rightarrow> (bool \<times> u64) run \<times> rate_limit_storage" where
  "check_and_consume client_id now fresh s =
     (case cleanup_stale now s of
        Panic \<Rightarrow> (Panic, s)
      | Done s1 \<Rightarrow>
          let entry = (case hm_get (rl_inner s1) client_id of
                         Some state \<Rightarrow> state
                       | None \<Rightarrow> new_full (capacity (rl_config s1)) fresh);
              (allowed, new_state, retry_after) = try_consume entry (rl_config s1) now;
              stored = (if allowed \<or> 0 < retry_after then new_state else entry)
          in (Done (allowed, retry_after),
              s1\<lparr>rl_inner := hm_insert client_id stored (rl_inner s1)\<rparr>))"

definition storage_len :: "rate_limit_storage \<Rightarrow> nat" where
  "storage_len s = length (rl_inner s)"

definition storage_is_empty :: "rate_limit_storage \<Rightarrow> bool" where
  "storage_is_empty s \<longleftrightarrow> rl_inner s = []"

definition storage_clear :: "rate_limit_storage \<Rightarrow> rate_limit_storage" where
  "storage_clear s = s\<lparr>rl_inner := []\<rparr>"

section \<open>Invariant\<close>

definition buckets_ok :: "rate_limit_storage \<Rightarrow> bool" where
  "buckets_ok s \<longleftrightarrow> hm_ok (rl_inner s) \<and>
     (\<forall>c st. hm_get (rl_inner s) c = Some st \<longrightarrow> bucket_ok (rl_config s) st)"

lemma buckets_ok_new: "buckets_ok (rate_limit_storage_new config ttl)"
  by (simp add: buckets_ok_def rate_limit_storage_new_def)

lemma buckets_ok_clear: "buckets_ok (storage_clear s)"
  by (simp add: buckets_ok_def storage_clear_def)

lemma cleanup_stale_frame:
  "cleanup_stale now s = Done s1 \<Longrightarrow> rl_config s1 = rl_config s \<and> rl_ttl s1 = rl_ttl s"
  by (auto simp: cleanup_stale_def Let_def split: if_splits)

lemma cleanup_stale_get:
  "buckets_ok s \<Longrightarrow> cleanup_stale now s = Done s1 \<Longrightarrow> hm_get (rl_inner s1) c =
     (case hm_get (rl_inner s) c of None \<Rightarrow> None
      | Some st \<Rightarrow> if now - int (rl_ttl s) \<le> last_update st then Some st else None)"
  by (auto simp: cleanup_stale_def Let_def buckets_ok_def hm_get_retain split: if_splits)

lemma buckets_ok_cleanup: "buckets_ok s \<Longrightarrow> cleanup_stale now s = Done s1 \<Longrightarrow> buckets_ok s1"
  using cleanup_stale_get [of s now s1] cleanup_stale_frame [of now s s1]
  by (auto simp: buckets_ok_def cleanup_stale_def Let_def split: if_splits option.splits)

text \<open>The bucket a request is decided on, and what it leaves behind.\<close>

definition bucket_for :: "rate_limit_storage \<Rightarrow> string \<Rightarrow> instant \<Rightarrow> rate_limit_state" where
  "bucket_for s c fresh =
     (case hm_get (rl_inner s) c of Some st \<Rightarrow> st | None \<Rightarrow> new_full (capacity (rl_config s)) fresh)"

lemma bucket_for_ok: "buckets_ok s \<Longrightarrow> bucket_ok (rl_config s) (bucket_for s c fresh)"
  by (auto simp: bucket_for_def buckets_ok_def bucket_ok_new split: option.splits)

lemma check_and_consume_step:
  assumes "buckets_ok s" and "cleanup_stale now s = Done s1"
  shows "check_and_consume c now fresh s =
    (let (allowed, new_state, retry) = try_consume (bucket_for s1 c fresh) (rl_config s) now
     in (Done (allowed, retry), s1\<lparr>rl_inner := hm_insert c new_state (rl_inner s1)\<rparr>))"
proof -
  obtain a st r where t: "try_consume (bucket_for s1 c fresh) (rl_config s) now = (a, st, r)"
    by (metis prod_cases3)
  have "a \<or> 0 < r"
    using try_consume_retry [OF bucket_for_ok [OF buckets_ok_cleanup [OF assms]], of c fresh now a st r]
      t cleanup_stale_frame [OF assms(2)] by (auto simp: word_gt_0)
  then show ?thesis
    using t cleanup_stale_frame [OF assms(2)]
    by (simp add: check_and_consume_def assms(2) bucket_for_def [symmetric])
qed

lemma buckets_ok_check:
  assumes "buckets_ok s"
  shows "buckets_ok (snd (check_and_consume c now fresh s))"
proof (cases "cleanup_stale now s")
  case Panic
  then show ?thesis using assms by (simp add: check_and_consume_def)
next
  case (Done s1)
  obtain a st r where t: "try_consume (bucket_for s1 c fresh) (rl_config s) now = (a, st, r)"
    by (metis prod_cases3)
  have s1: "buckets_ok s1" by (rule buckets_ok_cleanup [OF assms Done])
  then have "bucket_ok (rl_config s1) st"
    using try_consume_ok [OF bucket_for_ok [OF s1]] t cleanup_stale_frame [OF Done] by metis
  then show ?thesis
    using s1 by (auto simp: check_and_consume_step [OF assms Done] t buckets_ok_def)
qed

text \<open>After a request every bucket left was used within the time to live, its own just now.\<close>

lemma try_consume_last_update [simp]: "last_update (fst (snd (try_consume st config now))) = now"
  by (auto simp: try_consume_def Let_def split: if_splits)

lemma check_leaves_recent:
  assumes "buckets_ok s" and "check_and_consume c now fresh s = (Done d, s')"
    and "hm_get (rl_inner s') c' = Some st"
  shows "now - int (rl_ttl s) \<le> last_update st"
proof -
  obtain s1 where s1: "cleanup_stale now s = Done s1"
    using assms(2) by (auto simp: check_and_consume_def split: run.splits)
  then show ?thesis
    using assms(2,3) cleanup_stale_get [OF assms(1) s1, of c']
    by (auto simp: check_and_consume_step [OF assms(1) s1] split_beta Let_def
        split: if_splits option.splits)
qed

section \<open>A client's decisions depend on its own requests only\<close>

record request =
  req_client :: string
  req_now :: instant
  req_fresh :: instant

text \<open>The decisions on a run of requests, each with its client.\<close>

fun decisions :: "rate_limit_storage \<Rightarrow> request list \<Rightarrow> (string \<times> (bool \<times> u64) run) list" where
  "decisions s [] = []"
| "decisions s (r # rs) =
     (let (d, s') = check_and_consume (req_client r) (req_now r) (req_fresh r) s
      in (req_client r, d) # decisions s' rs)"

text \<open>
  Two stores agree on a client from time \<open>t\<close> on: they have the same bucket for it, or one has
  already dropped a bucket that the other drops at the next request.
\<close>

definition agree :: "string \<Rightarrow> instant \<Rightarrow> rate_limit_storage \<Rightarrow> rate_limit_storage \<Rightarrow> bool" where
  "agree c t s s' \<longleftrightarrow>
     rl_config s = rl_config s' \<and> rl_ttl s = rl_ttl s' \<and>
     (hm_get (rl_inner s) c = hm_get (rl_inner s') c \<or>
      hm_get (rl_inner s) c = None \<and>
      (\<exists>st. hm_get (rl_inner s') c = Some st \<and> last_update st < t - int (rl_ttl s)))"

lemma agree_cleanup:
  assumes ok: "buckets_ok s" "buckets_ok s'" and ag: "agree c t s s'" and t: "t \<le> now"
    and s1: "cleanup_stale now s = Done s1" and s1': "cleanup_stale now s' = Done s1'"
  shows "rl_config s1 = rl_config s1' \<and> rl_ttl s1 = rl_ttl s1' \<and>
    hm_get (rl_inner s1) c = hm_get (rl_inner s1') c"
  using ag t cleanup_stale_get [OF ok(1) s1, of c] cleanup_stale_get [OF ok(2) s1', of c]
    cleanup_stale_frame [OF s1] cleanup_stale_frame [OF s1']
  by (auto simp: agree_def split: option.splits)

lemma agree_own_step:
  assumes ok: "buckets_ok s" "buckets_ok s'" and ag: "agree c t s s'" and t: "t \<le> now"
    and rep: "representable (now - int (rl_ttl s))"
  shows "fst (check_and_consume c now fresh s) = fst (check_and_consume c now fresh s') \<and>
    agree c now (snd (check_and_consume c now fresh s)) (snd (check_and_consume c now fresh s'))"
proof -
  obtain s1 where s1: "cleanup_stale now s = Done s1" using rep by (simp add: cleanup_stale_def)
  obtain s1' where s1': "cleanup_stale now s' = Done s1'"
    using rep ag by (simp add: cleanup_stale_def agree_def)
  note eq = agree_cleanup [OF ok ag t s1 s1']
  then have "bucket_for s1 c fresh = bucket_for s1' c fresh"
    by (auto simp: bucket_for_def split: option.splits)
  then show ?thesis
    using eq ag by (simp add: check_and_consume_step [OF ok(1) s1] check_and_consume_step [OF ok(2) s1']
        split_beta Let_def agree_def)
qed

lemma agree_other_step:
  assumes ok: "buckets_ok s" and ag: "agree c t s s'" and t: "t \<le> now" and d: "d \<noteq> c"
    and rep: "representable (now - int (rl_ttl s))"
  shows "agree c now (snd (check_and_consume d now fresh s)) s'"
proof -
  obtain s1 where s1: "cleanup_stale now s = Done s1" using rep by (simp add: cleanup_stale_def)
  show ?thesis
    using ag t d cleanup_stale_get [OF ok s1, of c] cleanup_stale_frame [OF s1]
    by (auto simp: check_and_consume_step [OF ok s1] split_beta Let_def agree_def
        split: option.splits)
qed

lemma check_ttl [simp]: "rl_ttl (snd (check_and_consume c now fresh s)) = rl_ttl s"
  using cleanup_stale_frame [of now s]
  by (auto simp: check_and_consume_def Let_def split_beta split: run.splits)

lemma decisions_agree:
  assumes "buckets_ok s" and "buckets_ok s'" and "agree c t s s'"
    and "sorted (t # map req_now rs)"
    and "\<forall>r \<in> set rs. representable (req_now r - int (rl_ttl s))"
  shows "filter (\<lambda>d. fst d = c) (decisions s rs) = decisions s' (filter (\<lambda>r. req_client r = c) rs)"
  using assms
proof (induction rs arbitrary: s s' t)
  case (Cons r rs)
  let ?step = "check_and_consume (req_client r) (req_now r) (req_fresh r)"
  have t: "t \<le> req_now r" and rep: "representable (req_now r - int (rl_ttl s))"
    and rest: "sorted (req_now r # map req_now rs)" using Cons.prems by auto
  have inv: "buckets_ok (snd (?step s))" by (rule buckets_ok_check [OF Cons.prems(1)])
  show ?case
  proof (cases "req_client r = c")
    case True
    note own = agree_own_step [OF Cons.prems(1-3) t rep, of "req_fresh r"]
    have "filter (\<lambda>d. fst d = c) (decisions (snd (?step s)) rs) =
        decisions (snd (?step s')) (filter (\<lambda>r. req_client r = c) rs)"
      using own inv rest Cons.prems True buckets_ok_check [OF Cons.prems(2)]
      by (intro Cons.IH) auto
    then show ?thesis using own True by (simp add: split_beta Let_def)
  next
    case False
    note other = agree_other_step [OF Cons.prems(1,3) t False rep, of "req_fresh r"]
    have "filter (\<lambda>d. fst d = c) (decisions (snd (?step s)) rs) =
        decisions s' (filter (\<lambda>r. req_client r = c) rs)"
      using other inv rest Cons.prems by (intro Cons.IH) auto
    then show ?thesis using False by (simp add: split_beta Let_def)
  qed
qed simp

section \<open>Properties\<close>

text \<open>C36: a request keeps every stored bucket between zero and the capacity, and leaves no bucket that
  was not used within the time to live.\<close>

theorem storage_stays_bounded:
  assumes "buckets_ok s" and "check_and_consume c now fresh s = (Done d, s')"
  shows "buckets_ok s' \<and> (\<forall>c' st. hm_get (rl_inner s') c' = Some st \<longrightarrow> now - int (rl_ttl s) \<le> last_update st)"
  using assms check_leaves_recent [OF assms] buckets_ok_check [OF assms(1), of c now fresh] by auto

theorem storage_stays_bounded_witness:
  "buckets_ok (snd (check_and_consume ''a'' 7 7 (rate_limit_storage_new (rate_limit_config_new 3 60) 100)))"
proof -
  let ?s = "rate_limit_storage_new (rate_limit_config_new 3 60) 100"
  have "\<exists>d. fst (check_and_consume ''a'' 7 7 ?s) = Done d"
    by (simp add: check_and_consume_def cleanup_stale_def rate_limit_storage_new_def representable_def
        Let_def split_beta)
  then show ?thesis
    using storage_stays_bounded [of ?s "''a''" 7 7, OF buckets_ok_new]
    by (metis prod.collapse)
qed

text \<open>C18: on a clock that does not run backwards the decisions for a client are those it would get if
  no other client existed, although the requests of the others clean its bucket up.\<close>

theorem client_isolated:
  assumes "buckets_ok s" and "sorted (map req_now rs)"
    and "\<forall>r \<in> set rs. representable (req_now r - int (rl_ttl s))"
  shows "filter (\<lambda>d. fst d = c) (decisions s rs) = decisions s (filter (\<lambda>r. req_client r = c) rs)"
proof (cases rs)
  case (Cons r rs')
  have "agree c (req_now r) s s" by (simp add: agree_def)
  then show ?thesis
    using decisions_agree [OF assms(1,1), of c "req_now r" rs] assms Cons by simp
qed simp

theorem client_isolated_witness:
  "filter (\<lambda>d. fst d = ''a'')
     (decisions (rate_limit_storage_new (rate_limit_config_new 1 60) 100)
        [\<lparr>req_client = ''a'', req_now = 1, req_fresh = 1\<rparr>, \<lparr>req_client = ''b'', req_now = 2, req_fresh = 2\<rparr>]) =
   decisions (rate_limit_storage_new (rate_limit_config_new 1 60) 100)
     [\<lparr>req_client = ''a'', req_now = 1, req_fresh = 1\<rparr>]"
  using client_isolated [of "rate_limit_storage_new (rate_limit_config_new 1 60) 100"
      "[\<lparr>req_client = ''a'', req_now = 1, req_fresh = 1\<rparr>, \<lparr>req_client = ''b'', req_now = 2, req_fresh = 2\<rparr>]"
      "''a''", OF buckets_ok_new]
  by (simp add: representable_def rate_limit_storage_new_def)

end
