(* ===== verification/Rate_Limit_Api.thy ===== *)
theory Rate_Limit_Api
  imports Api_Error Rate_Limit_Storage
begin

text \<open>
  The rate limiting middleware, \<open>shorty-server/src/api/rate_limit.rs\<close>: it names the client of a request
  and asks \<open>Rate_Limit_Storage\<close>. \<open>build_router\<close> creates its state and applies it nowhere.
\<close>

definition rate_limit_state_new :: "u64 \<Rightarrow> u64 \<Rightarrow> u64 \<Rightarrow> rate_limit_storage" where
  "rate_limit_state_new cap period cleanup_ttl_secs =
     rate_limit_storage_new (rate_limit_config_new cap period) (unat cleanup_ttl_secs * 1000000000)"

definition check_limit ::
  "string \<Rightarrow> instant \<Rightarrow> instant \<Rightarrow> rate_limit_storage \<Rightarrow> (app_error + unit) run \<times> rate_limit_storage" where
  "check_limit client_id now fresh st =
     (case check_and_consume client_id now fresh st of
        (Panic, st') \<Rightarrow> (Panic, st')
      | (Done (allowed, retry_after), st') \<Rightarrow>
          (Done (if allowed then Inr () else Inl (App_RateLimitExceeded retry_after)), st'))"

text \<open>\<open>trim\<close> on the text of a header, which holds visible ASCII, spaces and tabs.\<close>

definition is_space :: "char \<Rightarrow> bool" where
  "is_space c \<longleftrightarrow> (of_char c :: nat) = 32 \<or> 9 \<le> (of_char c :: nat) \<and> (of_char c :: nat) \<le> 13"

definition trim :: "string \<Rightarrow> string" where
  "trim s = rev (dropWhile is_space (rev (dropWhile is_space s)))"

definition get_client_id :: "http_request \<Rightarrow> string" where
  "get_client_id req =
     (case header_text req ''x-api-key'' of
        Some key \<Rightarrow> ''api-key:'' @ key
      | None \<Rightarrow>
          (case header_text req ''x-forwarded-for'' of
             Some ips \<Rightarrow> ''ip:'' @ trim (hd (split_on CHR '','' ips))
           | None \<Rightarrow>
               (case rq_remote req of
                  Some addr \<Rightarrow> ''ip:'' @ addr
                | None \<Rightarrow> ''unknown'')))"

text \<open>The middleware: the rest of the chain runs on the state \<open>'s\<close> if the limit allows it.\<close>

definition rate_limit_middleware ::
  "(http_request \<Rightarrow> 's \<Rightarrow> 'r \<times> 's) \<Rightarrow> http_request \<Rightarrow> instant \<Rightarrow> instant \<Rightarrow>
   rate_limit_storage \<times> 's \<Rightarrow> (app_error + 'r) run \<times> rate_limit_storage \<times> 's" where
  "rate_limit_middleware run_next req now fresh = (\<lambda>(st, s).
     (let client_id = get_client_id req
      in (case check_limit client_id now fresh st of
            (Panic, st') \<Rightarrow> (Panic, st', s)
          | (Done (Inl err), st') \<Rightarrow> (Done (Inl err), st', s)
          | (Done (Inr _), st') \<Rightarrow> let (r, s') = run_next req s in (Done (Inr r), st', s'))))"

section \<open>Who is limited\<close>

lemma client_id_api_key:
  "rq_header req ''x-api-key'' = Some (Some key) \<Longrightarrow> get_client_id req = ''api-key:'' @ key"
  by (simp add: get_client_id_def header_text_def)

lemma client_id_no_key:
  "header_text req ''x-api-key'' = None \<Longrightarrow> \<not> starts_with (get_client_id req) ''api-key:''"
  by (auto simp: get_client_id_def starts_with_def split: option.splits)

lemma check_limit_allowed:
  "check_limit c now fresh st = (Done (Inr ()), st') \<longleftrightarrow>
     (\<exists>retry. check_and_consume c now fresh st = (Done (True, retry), st'))"
  by (auto simp: check_limit_def split: prod.splits run.splits if_splits)

lemma check_limit_denied:
  "check_limit c now fresh st = (Done (Inl e), st') \<longleftrightarrow>
     (\<exists>retry. check_and_consume c now fresh st = (Done (False, retry), st') \<and> e = App_RateLimitExceeded retry)"
  by (auto simp: check_limit_def split: prod.splits run.splits if_splits)

section \<open>A burst of one client\<close>

text \<open>The bucket that \<open>c\<close> has, or gets on its next request at \<open>now\<close>, holds \<open>k\<close> whole tokens.\<close>

definition holds_tokens :: "string \<Rightarrow> instant \<Rightarrow> nat \<Rightarrow> rate_limit_storage \<Rightarrow> bool" where
  "holds_tokens c now k s \<longleftrightarrow> buckets_ok s \<and> bucket_for s c now = \<lparr>tokens = Fin (of_nat k), last_update = now\<rparr>"

lemma holds_tokens_new:
  assumes "unat cap \<le> 2 ^ 53"
  shows "holds_tokens c now (unat cap) (rate_limit_state_new cap period ttl)"
  using assms buckets_ok_new
  by (auto simp: holds_tokens_def rate_limit_state_new_def bucket_for_def rate_limit_storage_new_def
      rate_limit_config_new_def new_full_def f64_of_u64_def f64_of_nat_exact)

lemma check_burst:
  assumes period: "0 < period_secs (rl_config s)" and cap: "unat (capacity (rl_config s)) \<le> 2 ^ 53"
    and clock: "representable (now - int (rl_ttl s))"
    and k: "holds_tokens c now k s" "k \<le> unat (capacity (rl_config s))"
  obtains retry s' where "check_and_consume c now now s = (Done (0 < k, retry), s')"
    and "k = 0 \<Longrightarrow> 1 \<le> retry" and "holds_tokens c now (k - 1) s'"
    and "rl_config s' = rl_config s" and "rl_ttl s' = rl_ttl s"
proof -
  have ok: "buckets_ok s" using k(1) by (simp add: holds_tokens_def)
  obtain s1 where s1: "cleanup_stale now s = Done s1"
    using clock by (simp add: cleanup_stale_def Let_def)
  have "bucket_for s1 c now = bucket_for s c now"
    using cleanup_stale_get [OF ok s1, of c] cleanup_stale_frame [OF s1] k(1)
    by (auto simp: holds_tokens_def bucket_for_def split: option.splits)
  then have b: "bucket_for s1 c now = \<lparr>tokens = Fin (of_nat k), last_update = now\<rparr>"
    using k(1) by (simp add: holds_tokens_def)
  obtain a st retry where t: "try_consume (bucket_for s1 c now) (rl_config s) now = (a, st, retry)"
    by (metis prod_cases3)
  have a: "a = (0 < k)" "st = \<lparr>tokens = Fin (of_nat (k - 1)), last_update = now\<rparr>"
    using try_consume_whole [OF period cap k(2), of now] t b by simp_all
  let ?s' = "s1\<lparr>rl_inner := hm_insert c st (rl_inner s1)\<rparr>"
  have run: "check_and_consume c now now s = (Done (0 < k, retry), ?s')"
    using check_and_consume_step [OF ok s1, of c now] t a by simp
  moreover have "1 \<le> retry" if "k = 0"
  proof -
    have "bucket_ok (rl_config s) (bucket_for s1 c now)"
      using bucket_for_ok [OF buckets_ok_cleanup [OF ok s1]] cleanup_stale_frame [OF s1] by simp
    from try_consume_retry [OF this t] show ?thesis
      using that a(1) by (simp add: word_le_nat_alt) (metis One_nat_def Suc_leI gr0I unat_eq_zero)
  qed
  moreover have "holds_tokens c now (k - 1) ?s'"
    using buckets_ok_check [OF ok, of c now now] run a(2)
    by (simp add: holds_tokens_def bucket_for_def hm_get_insert)
  moreover have "rl_config ?s' = rl_config s" "rl_ttl ?s' = rl_ttl s"
    using cleanup_stale_frame [OF s1] by simp_all
  ultimately show thesis using that by blast
qed

text \<open>Requests through the middleware, one after the other, at one reading of the clock.\<close>

fun limited_all ::
  "(http_request \<Rightarrow> 's \<Rightarrow> 'r \<times> 's) \<Rightarrow> http_request list \<Rightarrow> instant \<Rightarrow> rate_limit_storage \<times> 's \<Rightarrow>
   (app_error + 'r) run list \<times> rate_limit_storage \<times> 's" where
  "limited_all f [] now x = ([], x)"
| "limited_all f (req # reqs) now x =
     (let (r, x') = rate_limit_middleware f req now now x;
          (rs, x'') = limited_all f reqs now x'
      in (r # rs, x''))"

fun let_through :: "(app_error + 'r) run \<Rightarrow> bool" where
  "let_through (Done (Inr _)) = True"
| "let_through _ = False"

text \<open>A refusal with a wait of at least a second.\<close>

fun refused :: "(app_error + 'r) run \<Rightarrow> bool" where
  "refused (Done (Inl (App_RateLimitExceeded retry))) \<longleftrightarrow> 1 \<le> retry"
| "refused _ \<longleftrightarrow> False"

lemma limited_burst:
  assumes "0 < period_secs (rl_config s)" and "unat (capacity (rl_config s)) \<le> 2 ^ 53"
    and "representable (now - int (rl_ttl s))" and "holds_tokens c now k s"
    and "k \<le> unat (capacity (rl_config s))" and "\<forall>req \<in> set reqs. get_client_id req = c"
  shows "\<exists>rs s'. limited_all f reqs now (s, x) = (rs, s', fold (\<lambda>req x. snd (f req x)) (take k reqs) x) \<and>
    map let_through rs = replicate (min (length reqs) k) True @ replicate (length reqs - k) False \<and>
    list_all (\<lambda>r. let_through r \<or> refused r) rs"
  using assms
proof (induction reqs arbitrary: k s x)
  case (Cons req reqs)
  obtain retry s1 where step: "check_and_consume c now now s = (Done (0 < k, retry), s1)"
    and wait: "k = 0 \<Longrightarrow> 1 \<le> retry" and s1: "holds_tokens c now (k - 1) s1"
    "rl_config s1 = rl_config s" "rl_ttl s1 = rl_ttl s"
    using check_burst [OF Cons.prems(1-5)] by blast
  have id: "get_client_id req = c" using Cons.prems(6) by simp
  obtain v x1 where f: "f req x = (v, x1)" by fastforce
  let ?x = "if 0 < k then x1 else x"
  have k': "k - 1 \<le> unat (capacity (rl_config s1))" using Cons.prems(5) s1(2) by simp
  obtain rs s' where IH: "limited_all f reqs now (s1, ?x) =
      (rs, s', fold (\<lambda>req x. snd (f req x)) (take (k - 1) reqs) ?x)"
    "map let_through rs = replicate (min (length reqs) (k - 1)) True @ replicate (length reqs - (k - 1)) False"
    "list_all (\<lambda>r. let_through r \<or> refused r) rs"
    using Cons.IH [OF _ _ _ s1(1) k', of ?x] Cons.prems s1 by auto
  show ?case
  proof (cases k)
    case 0
    then show ?thesis
      using IH step wait id by (simp add: rate_limit_middleware_def check_limit_def)
  next
    case (Suc j)
    then show ?thesis
      using IH step id f by (simp add: rate_limit_middleware_def check_limit_def Let_def)
  qed
qed simp

text \<open>With a period of zero every request finds its bucket full.\<close>

lemma check_period_0:
  assumes ok: "buckets_ok s" and period: "period_secs (rl_config s) = 0"
    and clock: "representable (now - int (rl_ttl s))"
  obtains allowed retry s' where "check_and_consume c now now s = (Done (allowed, retry), s')"
    and "allowed \<longleftrightarrow> f64_ge (f64_of_u64 (capacity (rl_config s))) (Fin 1)" and "\<not> allowed \<Longrightarrow> 1 \<le> retry"
    and "buckets_ok s'" and "rl_config s' = rl_config s" and "rl_ttl s' = rl_ttl s"
proof -
  obtain s1 where s1: "cleanup_stale now s = Done s1"
    using clock by (simp add: cleanup_stale_def Let_def)
  let ?b = "bucket_for s1 c now"
  have b: "bucket_ok (rl_config s) ?b"
    using bucket_for_ok [OF buckets_ok_cleanup [OF ok s1]] cleanup_stale_frame [OF s1] by simp
  obtain a st retry where t: "try_consume ?b (rl_config s) now = (a, st, retry)" by (metis prod_cases3)
  let ?s' = "s1\<lparr>rl_inner := hm_insert c st (rl_inner s1)\<rparr>"
  have run: "check_and_consume c now now s = (Done (a, retry), ?s')"
    using check_and_consume_step [OF ok s1, of c now] t by simp
  moreover have "a \<longleftrightarrow> f64_ge (f64_of_u64 (capacity (rl_config s))) (Fin 1)"
    using try_consume_allowed [of ?b "rl_config s" now] refilled_period_0 [OF b period, of now] t by simp
  moreover have "1 \<le> retry" if "\<not> a"
    using try_consume_retry [OF b t] that
    by (simp add: word_le_nat_alt) (metis One_nat_def Suc_leI gr0I unat_eq_zero)
  moreover have "buckets_ok ?s'" using buckets_ok_check [OF ok, of c now now] run by simp
  moreover have "rl_config ?s' = rl_config s" "rl_ttl ?s' = rl_ttl s"
    using cleanup_stale_frame [OF s1] by simp_all
  ultimately show thesis using that by blast
qed

lemma limited_period_0:
  assumes "buckets_ok s" and "period_secs (rl_config s) = 0" and "representable (now - int (rl_ttl s))"
    and "k = (if f64_ge (f64_of_u64 (capacity (rl_config s))) (Fin 1) then length reqs else 0)"
  shows "\<exists>rs s'. limited_all f reqs now (s, x) = (rs, s', fold (\<lambda>req x. snd (f req x)) (take k reqs) x) \<and>
    map let_through rs = replicate k True @ replicate (length reqs - k) False \<and>
    list_all (\<lambda>r. let_through r \<or> refused r) rs"
  using assms
proof (induction reqs arbitrary: k s x)
  case (Cons req reqs)
  obtain a retry s1 where step: "check_and_consume (get_client_id req) now now s = (Done (a, retry), s1)"
    and a: "a \<longleftrightarrow> f64_ge (f64_of_u64 (capacity (rl_config s))) (Fin 1)" and wait: "\<not> a \<Longrightarrow> 1 \<le> retry"
    and s1: "buckets_ok s1" "rl_config s1 = rl_config s" "rl_ttl s1 = rl_ttl s"
    using check_period_0 [OF Cons.prems(1-3)] by blast
  obtain v x1 where f: "f req x = (v, x1)" by fastforce
  let ?k = "if a then length reqs else 0" and ?x = "if a then x1 else x"
  obtain rs s' where IH: "limited_all f reqs now (s1, ?x) =
      (rs, s', fold (\<lambda>req x. snd (f req x)) (take ?k reqs) ?x)"
    "map let_through rs = replicate ?k True @ replicate (length reqs - ?k) False"
    "list_all (\<lambda>r. let_through r \<or> refused r) rs"
    using Cons.IH [of s1 ?k ?x] Cons.prems s1 a by auto
  show ?case
    using IH step wait f a Cons.prems(4)
    by (cases a) (simp_all add: rate_limit_middleware_def check_limit_def Let_def)
qed simp

section \<open>Properties\<close>

text \<open>C20: of the requests of a client that a fresh limiter has not seen, all at one instant, exactly
  the capacity reach the handler and take effect, in their order; every other one is refused with 429 and a
  wait of at least a second, and does not run. The one exception is a period of zero, which the
  configuration accepts: then every request is let through, unless the capacity is zero too. The capacity is
  at most \<open>2 ^ 53\<close>, and \<open>now\<close> less the time to live an
  \<open>Instant\<close>.\<close>

theorem burst_reaches_handler:
  assumes "unat cap \<le> 2 ^ 53" and "representable (now - int (unat ttl * 1000000000))"
    and "\<forall>req \<in> set reqs. get_client_id req = c"
    and "limited_all f reqs now (rate_limit_state_new cap period ttl, x) = (rs, s', x')"
    and "granted = (if period = 0 \<and> cap \<noteq> 0 then length reqs else min (length reqs) (unat cap))"
  shows "map let_through rs = replicate granted True @ replicate (length reqs - granted) False \<and>
    list_all (\<lambda>r. let_through r \<or> refused r) rs \<and>
    x' = fold (\<lambda>req x. snd (f req x)) (take granted reqs) x"
proof -
  let ?s = "rate_limit_state_new cap period ttl"
  have s: "rl_config ?s = rate_limit_config_new cap period" "rl_ttl ?s = unat ttl * 1000000000"
    by (simp_all add: rate_limit_state_new_def rate_limit_storage_new_def)
  show ?thesis
  proof (cases "period = 0")
    case False
    then have p: "0 < period_secs (rl_config ?s)" by (simp add: s rate_limit_config_new_def word_gt_0)
    have cap: "capacity (rl_config ?s) = cap" by (simp add: s rate_limit_config_new_def)
    have "unat (capacity (rl_config ?s)) \<le> 2 ^ 53" "representable (now - int (rl_ttl ?s))"
      "unat cap \<le> unat (capacity (rl_config ?s))" using assms(1,2) by (simp_all only: cap s(2) order_refl)
    from limited_burst [OF p this(1,2) holds_tokens_new [OF assms(1)] this(3) assms(3), of f x]
    obtain rs' s'' where run: "limited_all f reqs now (?s, x) =
        (rs', s'', fold (\<lambda>req x. snd (f req x)) (take (unat cap) reqs) x)"
      and rs': "map let_through rs' = replicate (min (length reqs) (unat cap)) True @ replicate (length reqs - unat cap) False"
      "list_all (\<lambda>r. let_through r \<or> refused r) rs'"
      by blast
    have "granted = min (length reqs) (unat cap)" using assms(5) False by simp
    moreover have "take (min (length reqs) n) reqs = take n reqs" "length reqs - min (length reqs) n = length reqs - n" for n
      by (simp_all add: min_def)
    ultimately show ?thesis using run rs' assms(4) by simp
  next
    case True
    have ok: "buckets_ok ?s" using holds_tokens_new [OF assms(1)] by (simp add: holds_tokens_def)
    have "f64_of_u64 cap = Fin (of_nat (unat cap))"
      using f64_of_nat_exact [OF assms(1)] by (simp only: f64_of_u64_def)
    moreover have "f64_ge (Fin (of_nat n)) (Fin 1) \<longleftrightarrow> n \<noteq> 0" for n by (cases n) simp_all
    ultimately have "f64_ge (f64_of_u64 cap) (Fin 1) \<longleftrightarrow> cap \<noteq> 0" by (simp only: unat_eq_zero not_False_eq_True)
    then have "granted = (if f64_ge (f64_of_u64 (capacity (rl_config ?s))) (Fin 1) then length reqs else 0)"
      using assms(5) True s(1) by (auto simp: rate_limit_config_new_def)
    from limited_period_0 [OF ok _ _ this, of now f x] show ?thesis
      using assms(2,4) True s by (auto simp: rate_limit_config_new_def)
  qed
qed

theorem burst_reaches_handler_witness:
  "map let_through (fst (limited_all (\<lambda>req n. ((), Suc n))
     (replicate 3 \<lparr>rq_method = ''POST'', rq_path = ''/'', rq_header = (\<lambda>_. None), rq_remote = None\<rparr>) 0
     (rate_limit_state_new 2 60 120, 0))) = [True, True, False]"
proof -
  let ?reqs = "replicate 3 \<lparr>rq_method = ''POST'', rq_path = ''/'', rq_header = (\<lambda>_. None), rq_remote = None\<rparr>"
  obtain rs s' x' where run: "limited_all (\<lambda>req n. ((), Suc n)) ?reqs 0 (rate_limit_state_new 2 60 120, 0) = (rs, s', x')"
    by (metis prod_cases3)
  from burst_reaches_handler [OF _ _ _ this refl, of "''unknown''"] show ?thesis
    using run by (simp add: representable_def get_client_id_def header_text_def numeral_3_eq_3)
qed

end
