(* ===== verification/Sliding_Window.thy ===== *)
theory Sliding_Window
  imports Prelude
begin

text \<open>
  The sliding window of one link, \<open>SlidingWindowStats\<close> of \<open>crates/domain/src/stats.rs\<close>: a ring
  of 60 counters indexed by the second modulo 60, with a cached sum and a total.

  The counters are 64-bit words, so the sum is an identity of the ring of words and holds even
  where a counter wraps. The abstract state is the list of the seconds of all recorded hits;
  \<open>window_rep\<close> says that the ring holds, for each residue, the number of hits of the last 60
  seconds before the newest one, and \<open>record_hit_rep\<close> that recording a hit refines appending its
  second to that list. The clock must not run backwards for that; the cached sum agrees with the
  ring whatever the clock does (\<open>window_inv\<close>).
\<close>

section \<open>State and operations\<close>

record sliding_window =
  win_buffer :: "u64 list"
  last_update_sec :: u64
  cached_sum :: u64
  total_hits :: u64

definition window_new :: sliding_window where
  "window_new = \<lparr>win_buffer = replicate 60 0, last_update_sec = 0, cached_sum = 0, total_hits = 0\<rparr>"

text \<open>The body of the loop over the seconds that have passed.\<close>

definition clear_cell :: "sliding_window \<Rightarrow> u64 \<Rightarrow> sliding_window" where
  "clear_cell w sec =
     (let idx = unat (sec mod 60)
      in w\<lparr>cached_sum := cached_sum w - win_buffer w ! idx,
           win_buffer := (win_buffer w)[idx := 0]\<rparr>)"

text \<open>The inclusive range of seconds \<open>(last_update_sec + 1)..=now_sec\<close>.\<close>

definition secs_between :: "u64 \<Rightarrow> u64 \<Rightarrow> u64 list" where
  "secs_between a b = map of_nat [unat a ..< Suc (unat b)]"

definition advance :: "sliding_window \<Rightarrow> u64 \<Rightarrow> sliding_window" where
  "advance w now_sec =
     (if now_sec > last_update_sec w + 60 then w\<lparr>win_buffer := replicate 60 0, cached_sum := 0\<rparr>
      else if now_sec > last_update_sec w
      then foldl clear_cell w (secs_between (last_update_sec w + 1) now_sec)
      else w)"

definition window_record_hit :: "sliding_window \<Rightarrow> system_time \<Rightarrow> sliding_window" where
  "window_record_hit w now =
     (let now_sec = as_secs (since_epoch now);
          w' = advance w now_sec;
          idx = unat (now_sec mod 60)
      in w'\<lparr>win_buffer := (win_buffer w')[idx := win_buffer w' ! idx + 1],
            cached_sum := cached_sum w' + 1,
            total_hits := total_hits w' + 1,
            last_update_sec := now_sec\<rparr>)"

definition get_last_60s :: "sliding_window \<Rightarrow> system_time \<Rightarrow> u64" where
  "get_last_60s w now =
     (let now_sec = as_secs (since_epoch now)
      in if now_sec > last_update_sec w
         then (let elapsed = now_sec - last_update_sec w
               in if elapsed \<ge> 60 then 0 else cached_sum w)
         else cached_sum w)"

definition get_total :: "sliding_window \<Rightarrow> u64" where
  "get_total w = total_hits w"

section \<open>The cached sum is the sum of the ring\<close>

definition window_inv :: "sliding_window \<Rightarrow> bool" where
  "window_inv w \<longleftrightarrow> length (win_buffer w) = 60 \<and> cached_sum w = sum_list (win_buffer w)"

lemma cell_less [simp]: "unat (sec mod 60 :: u64) < 60"
  by (simp add: unat_mod)

lemma sum_list_update_ring:
  "i < length xs \<Longrightarrow> sum_list (xs[i := x]) = sum_list xs + x - (xs ! i :: 'a :: ab_group_add)"
  by (induction xs arbitrary: i) (auto simp: algebra_simps split: nat.splits)

lemma window_inv_new: "window_inv window_new"
  by (simp add: window_inv_def window_new_def sum_list_replicate)

lemma window_inv_clear: "window_inv w \<Longrightarrow> window_inv (clear_cell w sec)"
  by (simp add: window_inv_def clear_cell_def Let_def sum_list_update_ring)

lemma window_inv_clears: "window_inv w \<Longrightarrow> window_inv (foldl clear_cell w secs)"
  by (induction secs arbitrary: w) (simp_all add: window_inv_clear)

lemma window_inv_advance: "window_inv w \<Longrightarrow> window_inv (advance w now_sec)"
  unfolding advance_def
  by (simp add: window_inv_clears) (simp add: window_inv_def sum_list_replicate)

lemma window_inv_record: "window_inv w \<Longrightarrow> window_inv (window_record_hit w now)"
  using window_inv_advance [of w "as_secs (since_epoch now)"]
  by (simp add: window_inv_def window_record_hit_def Let_def sum_list_update_ring)

section \<open>Refinement of the list of hits\<close>

text \<open>
  The hits are the seconds they were recorded in, newest first. A window that ends in second
  \<open>e\<close> holds the hits of the seconds \<open>e - 59, \<dots>, e\<close>.
\<close>

definition window_hits :: "nat \<Rightarrow> nat list \<Rightarrow> nat list" where
  "window_hits e hs = filter (\<lambda>h. e < h + 60) hs"

definition cell_hits :: "nat \<Rightarrow> nat \<Rightarrow> nat list \<Rightarrow> nat list" where
  "cell_hits e i hs = filter (\<lambda>h. e < h + 60 \<and> h mod 60 = i) hs"

definition newest :: "nat list \<Rightarrow> nat" where
  "newest hs = (case hs of [] \<Rightarrow> 0 | h # _ \<Rightarrow> h)"

definition ring_at :: "sliding_window \<Rightarrow> nat list \<Rightarrow> nat \<Rightarrow> bool" where
  "ring_at w hs e \<longleftrightarrow>
     length (win_buffer w) = 60 \<and>
     (\<forall>i < 60. win_buffer w ! i = of_nat (length (cell_hits e i hs))) \<and>
     cached_sum w = of_nat (length (window_hits e hs))"

definition window_rep :: "sliding_window \<Rightarrow> nat list \<Rightarrow> bool" where
  "window_rep w hs \<longleftrightarrow>
     ring_at w hs (newest hs) \<and> last_update_sec w = of_nat (newest hs) \<and>
     total_hits w = of_nat (length hs) \<and>
     (\<forall>h \<in> set hs. h \<le> newest hs) \<and> newest hs < 2 ^ 63"

lemma window_rep_new: "window_rep window_new []"
  by (simp add: window_rep_def ring_at_def window_new_def newest_def cell_hits_def
      window_hits_def)

lemma residue_unique: "h < e \<Longrightarrow> e < h + 60 \<Longrightarrow> h mod 60 \<noteq> e mod (60 :: nat)"
proof
  assume "h < e" "e < h + 60" "h mod 60 = e mod 60"
  then have "60 dvd e - h" using mod_eq_dvd_iff_nat [of h e 60] by simp
  then have "60 \<le> e - h" using \<open>h < e\<close> by (intro dvd_imp_le) auto
  with \<open>h < e\<close> \<open>e < h + 60\<close> show False by simp
qed

lemma residue_leaving: "Suc e \<noteq> h + 60 \<Longrightarrow> h \<le> e \<Longrightarrow> e < h + 60 \<Longrightarrow> h mod 60 \<noteq> Suc e mod 60"
  using residue_unique [of h "Suc e"] by auto

lemma cell_hits_none: "\<forall>h \<in> set hs. h < e \<Longrightarrow> cell_hits e (e mod 60) hs = []"
  using residue_unique by (auto simp: cell_hits_def filter_empty_conv)

lemma cell_hits_Suc_other:
  assumes "i \<noteq> Suc e mod 60"
  shows "cell_hits (Suc e) i hs = cell_hits e i hs"
proof -
  have "h mod 60 \<noteq> i" if "Suc e = h + 60" for h
    using assms that by (metis mod_add_self2)
  then have "Suc e < h + 60 \<and> h mod 60 = i \<longleftrightarrow> e < h + 60 \<and> h mod 60 = i" for h
    by (metis Suc_leI Suc_lessD le_neq_implies_less)
  then show ?thesis by (simp add: cell_hits_def)
qed

lemma window_hits_Suc:
  assumes "\<forall>h \<in> set hs. h \<le> e"
  shows "length (window_hits e hs) =
     length (window_hits (Suc e) hs) + length (cell_hits e (Suc e mod 60) hs)"
  unfolding window_hits_def cell_hits_def
proof (rule length_filter_split)
  fix h
  assume "h \<in> set hs"
  then have "h \<le> e" using assms by simp
  have "h mod 60 = Suc e mod 60" if "Suc e = h + 60"
    using that by (metis mod_add_self2)
  then show "e < h + 60 \<longleftrightarrow> Suc e < h + 60 \<or> e < h + 60 \<and> h mod 60 = Suc e mod 60"
    by (metis Suc_leI Suc_lessD le_neq_implies_less)
  show "\<not> (Suc e < h + 60 \<and> e < h + 60 \<and> h mod 60 = Suc e mod 60)"
    using residue_unique [of h "Suc e"] \<open>h \<le> e\<close> by (metis less_Suc_eq_le)
qed

lemma ring_at_clear:
  assumes ring: "ring_at w hs e" and le: "\<forall>h \<in> set hs. h \<le> e" and small: "Suc e < 2 ^ 64"
  shows "ring_at (clear_cell w (of_nat (Suc e))) hs (Suc e)"
proof -
  have idx: "unat ((of_nat (Suc e) :: u64) mod 60) = Suc e mod 60"
    using small by (simp add: unat_mod unat_of_nat take_bit_eq_mod del: of_nat_Suc)
  have none: "cell_hits (Suc e) (Suc e mod 60) hs = []"
    using le by (intro cell_hits_none) (auto simp: less_Suc_eq_le)
  show ?thesis
    using ring window_hits_Suc [OF le] none
    by (auto simp: ring_at_def clear_cell_def Let_def idx nth_list_update cell_hits_Suc_other
        simp del: of_nat_Suc)
qed

lemma ring_at_clears:
  assumes "ring_at w hs e" and "\<forall>h \<in> set hs. h \<le> e" and "e + k < 2 ^ 64"
  shows "ring_at (foldl clear_cell w (map of_nat [Suc e ..< Suc (e + k)])) hs (e + k)"
  using assms(3)
proof (induction k)
  case 0
  then show ?case using assms(1) by simp
next
  case (Suc k)
  have "ring_at (clear_cell (foldl clear_cell w (map of_nat [Suc e ..< Suc (e + k)]))
          (of_nat (Suc (e + k)))) hs (Suc (e + k))"
    using Suc assms(2) by (intro ring_at_clear) (auto intro: trans_le_add1)
  then show ?case by (simp del: of_nat_Suc)
qed

lemma unat_small: "n < 2 ^ 63 \<Longrightarrow> unat (of_nat n :: u64) = n"
  by (simp add: unat_of_nat take_bit_eq_mod)

lemma unat_small_add: "n < 2 ^ 63 \<Longrightarrow> k < 2 ^ 63 \<Longrightarrow> unat (of_nat n + of_nat k :: u64) = n + k"
  by (simp add: unat_of_nat take_bit_eq_mod flip: of_nat_add)

lemma small_less_iff:
  "m < 2 ^ 63 \<Longrightarrow> n < 2 ^ 63 \<Longrightarrow> (of_nat m :: u64) < of_nat n \<longleftrightarrow> m < n"
  by (simp add: word_less_nat_alt unat_small)

lemma small_less_60_iff:
  "m < 2 ^ 63 \<Longrightarrow> n < 2 ^ 63 \<Longrightarrow> (of_nat m + 60 :: u64) < of_nat n \<longleftrightarrow> m + 60 < n"
  using unat_small_add [of m 60] by (simp add: word_less_nat_alt unat_small)

lemma secs_between_small:
  "m < 2 ^ 63 \<Longrightarrow> n < 2 ^ 63 \<Longrightarrow>
   secs_between (of_nat m + 1) (of_nat n) = map of_nat [Suc m ..< Suc n]"
  using unat_small_add [of m 1] by (simp add: secs_between_def unat_small del: upt_Suc)

lemma foldl_clear_frame [simp]:
  "last_update_sec (foldl clear_cell w secs) = last_update_sec w"
  "total_hits (foldl clear_cell w secs) = total_hits w"
  by (induction secs arbitrary: w) (simp_all add: clear_cell_def Let_def)

lemma advance_frame [simp]:
  "last_update_sec (advance w n) = last_update_sec w" "total_hits (advance w n) = total_hits w"
  by (simp_all add: advance_def)

lemma advance_ring:
  assumes rep: "window_rep w hs" and le: "newest hs \<le> n" and n: "n < 2 ^ 63"
  shows "ring_at (advance w (of_nat n)) hs n"
proof -
  let ?m = "newest hs"
  have last: "last_update_sec w = of_nat ?m" and m: "?m < 2 ^ 63"
    and ring: "ring_at w hs ?m" and hs: "\<forall>h \<in> set hs. h \<le> ?m"
    using rep by (auto simp: window_rep_def)
  consider "?m + 60 < n" | "?m < n" "n \<le> ?m + 60" | "n = ?m" using le by linarith
  then show ?thesis
  proof cases
    case 1
    then have "\<forall>h \<in> set hs. \<not> n < h + 60" using hs by (auto dest!: bspec)
    with 1 m n show ?thesis
      by (auto simp: advance_def last small_less_60_iff ring_at_def cell_hits_def
          window_hits_def filter_empty_conv)
  next
    case 2
    have "ring_at (foldl clear_cell w (map of_nat [Suc ?m ..< Suc (?m + (n - ?m))])) hs (?m + (n - ?m))"
      using ring hs 2 n by (intro ring_at_clears) auto
    with 2 m n show ?thesis
      by (simp add: advance_def last small_less_60_iff small_less_iff secs_between_small
          del: upt_Suc)
  next
    case 3
    then show ?thesis using ring m by (simp add: advance_def last small_less_60_iff)
  qed
qed

lemma record_hit_rep:
  assumes rep: "window_rep w hs" and le: "newest hs \<le> epoch_sec now" and now: "representable now"
  shows "window_rep (window_record_hit w now) (epoch_sec now # hs)"
proof -
  let ?n = "epoch_sec now"
  have n: "?n < 2 ^ 63" using epoch_sec_less [OF now] .
  have ring: "ring_at (advance w (of_nat ?n)) hs ?n" by (rule advance_ring [OF rep le n])
  have idx: "unat ((of_nat ?n :: u64) mod 60) = ?n mod 60"
    using n by (simp add: unat_mod unat_small)
  have hs: "\<forall>h \<in> set hs. h \<le> ?n" using rep le by (auto simp: window_rep_def)
  show ?thesis
    using ring rep n hs
    by (auto simp: window_rep_def ring_at_def window_record_hit_def Let_def as_secs_since_epoch
        idx newest_def nth_list_update cell_hits_def window_hits_def)
qed

text \<open>Any history of hits recorded on a clock that does not run backwards.\<close>

lemma record_hits_rep:
  assumes "sorted ts" and "\<forall>t \<in> set ts. representable t"
  shows "window_rep (foldl window_record_hit window_new ts) (rev (map epoch_sec ts))"
  using assms
proof (induction ts rule: rev_induct)
  case (snoc t ts)
  have "newest (rev (map epoch_sec ts)) \<le> epoch_sec t"
    using snoc.prems(1)
    by (cases ts rule: rev_cases) (auto simp: newest_def sorted_append epoch_sec_mono)
  with snoc show ?case by (auto simp: sorted_append intro: record_hit_rep)
qed (simp add: window_rep_new)

lemma get_last_60s_rep:
  assumes rep: "window_rep w hs" and le: "newest hs \<le> epoch_sec now" and now: "representable now"
  shows "get_last_60s w now =
     (if newest hs + 60 \<le> epoch_sec now then 0 else of_nat (length (window_hits (newest hs) hs)))"
proof -
  let ?m = "newest hs" and ?n = "epoch_sec now"
  have m: "?m < 2 ^ 63" and n: "?n < 2 ^ 63"
    using rep epoch_sec_less [OF now] by (auto simp: window_rep_def)
  have "of_nat ?n - of_nat ?m = (of_nat (?n - ?m) :: u64)" using le by (simp add: of_nat_diff)
  moreover have "(60 :: u64) \<le> of_nat (?n - ?m) \<longleftrightarrow> 60 \<le> ?n - ?m"
    using n by (simp add: word_le_nat_alt unat_small)
  ultimately show ?thesis
    using rep m n le
    by (auto simp: get_last_60s_def Let_def as_secs_since_epoch window_rep_def ring_at_def
        small_less_iff)
qed

text \<open>The subtraction in the loop never goes below zero.\<close>

lemma cell_le_sum:
  assumes ring: "ring_at w hs e" and few: "length hs < 2 ^ 64" and i: "i < 60"
  shows "win_buffer w ! i \<le> cached_sum w"
proof -
  have "length (window_hits e hs) < 2 ^ 64"
    using few by (metis le_less_trans length_filter_le window_hits_def)
  moreover have "length (cell_hits e i hs) \<le> length (window_hits e hs)"
    by (induction hs) (auto simp: cell_hits_def window_hits_def)
  ultimately show ?thesis
    using ring i by (auto simp: ring_at_def word_le_nat_alt unat_of_nat take_bit_eq_mod)
qed

section \<open>Properties\<close>

lemma newest_rev: "ts \<noteq> [] \<Longrightarrow> newest (rev (map epoch_sec ts)) = epoch_sec (last ts)"
  by (cases ts rule: rev_cases) (simp_all add: newest_def)

lemma window_hits_rev:
  "length (window_hits e (rev (map epoch_sec ts))) = length (filter (\<lambda>t. e < epoch_sec t + 60) ts)"
  by (simp add: window_hits_def filter_map comp_def flip: rev_filter)

lemma last_60s_count:
  assumes "sorted ts" and "\<forall>t \<in> set ts. representable t" and "representable now"
    and "ts \<noteq> []" and "last ts \<le> now"
  shows "get_last_60s (foldl window_record_hit window_new ts) now =
    (if epoch_sec (last ts) + 60 \<le> epoch_sec now then 0
     else of_nat (length (filter (\<lambda>t. epoch_sec (last ts) < epoch_sec t + 60) ts)))"
  using get_last_60s_rep [OF record_hits_rep [OF assms(1,2)] _ assms(3)] assms(4,5)
  by (simp add: newest_rev window_hits_rev epoch_sec_mono)

text \<open>C16: after any history of hits on a clock that does not run backwards,
  \<open>get_last_60s\<close> is zero once 60 seconds have passed since the last hit, and else the number of
  hits of the 60 seconds that end with the last hit.\<close>

theorem last_60s_exact:
  assumes "sorted ts" and "\<forall>t \<in> set ts. representable t" and "representable now"
    and "ts \<noteq> []" and "last ts \<le> now"
  shows "get_last_60s (foldl window_record_hit window_new ts) now =
    (if epoch_sec (last ts) + 60 \<le> epoch_sec now then 0
     else of_nat (length (filter (\<lambda>t. epoch_sec (last ts) < epoch_sec t + 60) ts)))"
  by (rule last_60s_count [OF assms])

theorem last_60s_exact_witness:
  "get_last_60s (foldl window_record_hit window_new
     [1000000000000, 1050000000000, 1050000000001, 1120000000000]) 1130000000000 = 1"
  using last_60s_exact [of "[1000000000000, 1050000000000, 1050000000001, 1120000000000]" 1130000000000]
  by (simp add: representable_def epoch_sec_def since_epoch_def)

text \<open>C32: \<open>get_last_60s\<close> never misses a hit of the 60 seconds before the reading, and it
  is their exact number in the second of the last hit.\<close>

theorem last_60s_no_undercount:
  assumes "sorted ts" and "\<forall>t \<in> set ts. representable t" and "representable now"
    and "ts \<noteq> []" and "last ts \<le> now" and "length ts < 2 ^ 64"
  shows "length (filter (\<lambda>t. epoch_sec now < epoch_sec t + 60) ts) \<le>
      unat (get_last_60s (foldl window_record_hit window_new ts) now) \<and>
    (epoch_sec now = epoch_sec (last ts) \<longrightarrow>
      unat (get_last_60s (foldl window_record_hit window_new ts) now) =
        length (filter (\<lambda>t. epoch_sec now < epoch_sec t + 60) ts))"
proof -
  let ?n = "epoch_sec now" and ?m = "epoch_sec (last ts)"
  have mn: "?m \<le> ?n" by (rule epoch_sec_mono [OF assms(5)])
  have "t \<le> last ts" if "t \<in> set ts" for t
    using assms(1,4) that by (cases ts rule: rev_cases) (auto simp: sorted_append)
  then have tm: "epoch_sec t \<le> ?m" if "t \<in> set ts" for t using that by (simp add: epoch_sec_mono)
  have "length (filter (\<lambda>t. ?m < epoch_sec t + 60) ts) < 2 ^ 64"
    using assms(6) by (metis le_less_trans length_filter_le)
  then have u: "unat (of_nat (length (filter (\<lambda>t. ?m < epoch_sec t + 60) ts)) :: u64) =
      length (filter (\<lambda>t. ?m < epoch_sec t + 60) ts)"
    by (simp add: unat_of_nat take_bit_eq_mod)
  show ?thesis
  proof (cases "?m + 60 \<le> ?n")
    case True
    then have "filter (\<lambda>t. ?n < epoch_sec t + 60) ts = []"
      using tm by (fastforce simp: filter_empty_conv)
    then show ?thesis using True by simp
  next
    case False
    have "length (filter (\<lambda>t. ?n < epoch_sec t + 60) ts) \<le> length (filter (\<lambda>t. ?m < epoch_sec t + 60) ts)"
      using mn by (intro length_filter_mono) auto
    then show ?thesis
      using False last_60s_count [OF assms(1-5)] u by simp
  qed
qed

theorem last_60s_no_undercount_witness:
  "unat (get_last_60s (foldl window_record_hit window_new [1000000000000, 1050000000000]) 1050000000000) = 2"
  using last_60s_no_undercount [of "[1000000000000, 1050000000000]" 1050000000000]
  by (simp add: representable_def epoch_sec_def since_epoch_def)

text \<open>The reading may count hits that are more than 60 seconds old: of two hits at 1000 s and
  1050 s both are reported at 1100 s, where only the second is of the last 60 seconds.\<close>

theorem last_60s_stale:
  "get_last_60s (foldl window_record_hit window_new [1000000000000, 1050000000000]) 1100000000000 = 2 \<and>
   length (filter (\<lambda>t. epoch_sec 1100000000000 < epoch_sec t + 60) [1000000000000, 1050000000000]) = 1"
  using last_60s_count [of "[1000000000000, 1050000000000]" 1100000000000]
  by (simp add: representable_def epoch_sec_def since_epoch_def)

text \<open>Whatever the clock does, the total is the number of recorded hits and the cached sum is the
  sum of the ring, both modulo the width of the counters.\<close>

theorem window_totals:
  "get_total (foldl window_record_hit window_new ts) = of_nat (length ts) \<and>
   cached_sum (foldl window_record_hit window_new ts) =
     sum_list (win_buffer (foldl window_record_hit window_new ts)) \<and>
   length (win_buffer (foldl window_record_hit window_new ts)) = 60"
proof -
  let ?w = "foldl window_record_hit window_new ts"
  have "window_inv ?w" by (induction ts rule: rev_induct) (simp_all add: window_inv_new window_inv_record)
  moreover have "total_hits ?w = of_nat (length ts)"
    by (induction ts rule: rev_induct) (simp_all add: window_new_def window_record_hit_def Let_def)
  ultimately show ?thesis by (simp add: window_inv_def get_total_def)
qed

end
