(* ===== verification/Stats_Storage.thy ===== *)
theory Stats_Storage
  imports Sliding_Window
begin

text \<open>
  The statistics of all links, \<open>StatsStorage\<close> of \<open>crates/domain/src/stats.rs\<close>: a map from codes to
  shared handles \<open>Arc<RwLock<SlidingWindowStats>>\<close>. The handles are explicit: a reference is an
  index into the list of allocated windows, \<open>get_or_create\<close> returns the reference and the caller
  writes through it, as \<open>In_Memory\<close> does. The invariant says that no two codes share a window,
  which is what makes a write through one handle invisible to every other code
  (\<open>storage_record_view\<close>). The lock of each map and window is held for one operation, so the
  operations are atomic steps on this state.
\<close>

section \<open>State and operations\<close>

type_synonym arc = nat

record stats_storage =
  st_inner :: "(string, arc) hash_map"
  st_arcs :: "sliding_window list"

definition stats_storage_new :: stats_storage where
  "stats_storage_new = \<lparr>st_inner = [], st_arcs = []\<rparr>"

definition get_or_create :: "string \<Rightarrow> stats_storage \<Rightarrow> arc \<times> stats_storage" where
  "get_or_create code st =
     (case hm_get (st_inner st) code of
        Some r \<Rightarrow> (r, st)
      | None \<Rightarrow> let r = length (st_arcs st)
                in (r, st\<lparr>st_inner := hm_insert code r (st_inner st),
                          st_arcs := st_arcs st @ [window_new]\<rparr>))"

definition storage_get :: "string \<Rightarrow> stats_storage \<Rightarrow> arc option" where
  "storage_get code st = hm_get (st_inner st) code"

definition storage_remove :: "string \<Rightarrow> stats_storage \<Rightarrow> stats_storage" where
  "storage_remove code st = st\<lparr>st_inner := hm_remove code (st_inner st)\<rparr>"

definition get_top :: "u64 \<Rightarrow> stats_storage \<Rightarrow> (string \<times> u64) list" where
  "get_top limit st =
     (let entries = map (\<lambda>(code, r). (code, get_total (st_arcs st ! r))) (st_inner st);
          sorted_entries = sort_key (\<lambda>(_, total). Reverse total) entries
      in take (unat limit) sorted_entries)"

text \<open>\<open>stats.write().record_hit(now)\<close> and the read guard through a handle.\<close>

definition arc_record_hit :: "arc \<Rightarrow> system_time \<Rightarrow> stats_storage \<Rightarrow> stats_storage" where
  "arc_record_hit r now st =
     st\<lparr>st_arcs := (st_arcs st)[r := window_record_hit (st_arcs st ! r) now]\<rparr>"

definition arc_read :: "arc \<Rightarrow> stats_storage \<Rightarrow> sliding_window" where
  "arc_read r st = st_arcs st ! r"

section \<open>The map behind the handles\<close>

definition storage_inv :: "stats_storage \<Rightarrow> bool" where
  "storage_inv st \<longleftrightarrow>
     hm_ok (st_inner st) \<and>
     (\<forall>c r. hm_get (st_inner st) c = Some r \<longrightarrow> r < length (st_arcs st)) \<and>
     (\<forall>c c' r. hm_get (st_inner st) c = Some r \<longrightarrow> hm_get (st_inner st) c' = Some r \<longrightarrow> c = c') \<and>
     (\<forall>w \<in> set (st_arcs st). window_inv w)"

definition storage_view :: "stats_storage \<Rightarrow> string \<rightharpoonup> sliding_window" where
  "storage_view st code = map_option (\<lambda>r. st_arcs st ! r) (hm_get (st_inner st) code)"

text \<open>\<open>get_or_create\<close> followed by one recorded hit, as the repository calls them.\<close>

definition storage_record :: "string \<Rightarrow> system_time \<Rightarrow> stats_storage \<Rightarrow> stats_storage" where
  "storage_record code now st =
     (let (r, st') = get_or_create code st in arc_record_hit r now st')"

lemma storage_inv_new: "storage_inv stats_storage_new"
  by (simp add: storage_inv_def stats_storage_new_def)

lemma storage_view_new [simp]: "storage_view stats_storage_new = Map.empty"
  by (simp add: storage_view_def stats_storage_new_def fun_eq_iff)

lemma storage_bound: "storage_inv st \<Longrightarrow> hm_get (st_inner st) c = Some r \<Longrightarrow> r < length (st_arcs st)"
  by (simp add: storage_inv_def)

lemma refs_distinct:
  "storage_inv st \<Longrightarrow> hm_get (st_inner st) c = Some r \<Longrightarrow> hm_get (st_inner st) c' = Some r \<Longrightarrow> c = c'"
  by (simp add: storage_inv_def)

lemma storage_inv_get_or_create:
  assumes "storage_inv st"
  shows "storage_inv (snd (get_or_create code st))"
proof (cases "hm_get (st_inner st) code")
  case None
  moreover have "hm_get (st_inner st) c \<noteq> Some (length (st_arcs st))" for c
    using storage_bound [OF assms, of c] by auto
  ultimately show ?thesis
    using assms
    by (auto simp: storage_inv_def get_or_create_def Let_def window_inv_new less_Suc_eq split: if_splits)
qed (simp add: assms get_or_create_def)

lemma get_or_create_ref:
  "storage_inv st \<Longrightarrow> get_or_create code st = (r, st') \<Longrightarrow> hm_get (st_inner st') code = Some r"
  by (auto simp: get_or_create_def Let_def split: option.splits)

lemma get_or_create_view:
  assumes "storage_inv st" and "get_or_create code st = (r, st')"
  shows "storage_view st' = (storage_view st)
     (code \<mapsto> (case storage_view st code of None \<Rightarrow> window_new | Some w \<Rightarrow> w))"
proof
  fix c
  show "storage_view st' c = ((storage_view st)
     (code \<mapsto> (case storage_view st code of None \<Rightarrow> window_new | Some w \<Rightarrow> w))) c"
    using assms storage_bound [OF assms(1), of c]
    by (cases "hm_get (st_inner st) c"; cases "hm_get (st_inner st) code")
       (auto simp: get_or_create_def storage_view_def Let_def nth_append)
qed

lemma storage_inv_remove: "storage_inv st \<Longrightarrow> storage_inv (storage_remove code st)"
  by (auto simp: storage_inv_def storage_remove_def split: if_splits)

lemma storage_view_remove [simp]:
  "storage_view (storage_remove code st) = (storage_view st)(code := None)"
  by (auto simp: storage_view_def storage_remove_def fun_eq_iff)

lemma storage_inv_arc_record:
  "storage_inv st \<Longrightarrow> storage_inv (arc_record_hit r now st)"
  by (cases "r < length (st_arcs st)")
     (auto simp: storage_inv_def arc_record_hit_def window_inv_record list_update_beyond
       dest!: set_update_subset_insert [THEN subsetD])

text \<open>No aliasing: a write through the handle of one code changes that code only.\<close>

lemma arc_record_view:
  assumes "storage_inv st" and "hm_get (st_inner st) code = Some r"
  shows "storage_view (arc_record_hit r now st) =
    (storage_view st)(code \<mapsto> window_record_hit (st_arcs st ! r) now)"
proof
  fix c
  show "storage_view (arc_record_hit r now st) c =
    ((storage_view st)(code \<mapsto> window_record_hit (st_arcs st ! r) now)) c"
    using assms storage_bound [OF assms] refs_distinct [OF assms, of c]
    by (cases "hm_get (st_inner st) c")
       (auto simp: storage_view_def arc_record_hit_def nth_list_update)
qed

lemma storage_inv_record: "storage_inv st \<Longrightarrow> storage_inv (storage_record code now st)"
  using storage_inv_get_or_create [of st code]
  by (simp add: storage_record_def split_beta storage_inv_arc_record)

lemma storage_record_view:
  assumes "storage_inv st"
  shows "storage_view (storage_record code now st) = (storage_view st)
    (code \<mapsto> window_record_hit
       (case storage_view st code of None \<Rightarrow> window_new | Some w \<Rightarrow> w) now)"
proof -
  obtain r st' where goc: "get_or_create code st = (r, st')" by fastforce
  have inv': "storage_inv st'" using storage_inv_get_or_create [OF assms, of code] goc by simp
  have ref: "hm_get (st_inner st') code = Some r" by (rule get_or_create_ref [OF assms goc])
  have "st_arcs st' ! r = (case storage_view st code of None \<Rightarrow> window_new | Some w \<Rightarrow> w)"
    using get_or_create_view [OF assms goc] ref
    by (auto simp: storage_view_def fun_eq_iff dest: spec [where x = code])
  then show ?thesis
    using arc_record_view [OF inv' ref, of now] get_or_create_view [OF assms goc]
    by (simp add: storage_record_def goc)
qed

section \<open>The top list\<close>

definition top_entries :: "stats_storage \<Rightarrow> (string \<times> u64) list" where
  "top_entries st = map (\<lambda>(code, r). (code, get_total (st_arcs st ! r))) (st_inner st)"

lemma get_top_entries:
  "get_top limit st = take (unat limit) (sort_key (\<lambda>(_, total). Reverse total) (top_entries st))"
  by (simp add: get_top_def top_entries_def)

lemma top_entries_iff:
  assumes "storage_inv st"
  shows "(c, n) \<in> set (top_entries st) \<longleftrightarrow> map_option get_total (storage_view st c) = Some n"
proof -
  have "(c, r) \<in> set (st_inner st) \<longleftrightarrow> hm_get (st_inner st) c = Some r" for r
    using assms by (intro hm_mem_iff) (simp add: storage_inv_def)
  then show ?thesis
    by (auto simp: top_entries_def storage_view_def intro!: rev_image_eqI)
qed

lemma top_entries_distinct: "storage_inv st \<Longrightarrow> distinct (map fst (top_entries st))"
  by (simp add: storage_inv_def hm_ok_def top_entries_def comp_def split_beta)

lemma get_top_distinct: "storage_inv st \<Longrightarrow> distinct (map fst (get_top limit st))"
  by (simp add: get_top_entries distinct_take top_entries_distinct
      flip: take_map)

lemma get_top_sorted: "sorted (map (\<lambda>(_, total). Reverse total) (get_top limit st))"
  by (simp add: get_top_entries sorted_wrt_take flip: take_map)

lemma get_top_length: "length (get_top limit st) = min (unat limit) (length (st_inner st))"
  by (simp add: get_top_entries top_entries_def min.commute)

lemma get_top_sound:
  "storage_inv st \<Longrightarrow> (c, n) \<in> set (get_top limit st) \<Longrightarrow>
   map_option get_total (storage_view st c) = Some n"
  using in_set_takeD [of "(c, n)" "unat limit" "sort_key (\<lambda>(_, total). Reverse total) (top_entries st)"]
  by (simp add: get_top_entries top_entries_iff)

lemma get_top_best:
  assumes inv: "storage_inv st" and w: "storage_view st c = Some w"
    and out: "c \<notin> fst ` set (get_top limit st)" and top: "(c', n) \<in> set (get_top limit st)"
  shows "get_total w \<le> n"
proof -
  let ?s = "sort_key (\<lambda>(_, total). Reverse total) (top_entries st)"
  have "(c, get_total w) \<in> set ?s" using w by (simp add: top_entries_iff [OF inv])
  moreover have "(c, get_total w) \<notin> set (take (unat limit) ?s)"
    using out by (force simp: get_top_entries)
  ultimately have "(c, get_total w) \<in> set (drop (unat limit) ?s)"
    by (metis Un_iff append_take_drop_id set_append)
  with sort_key_take_drop [OF top [unfolded get_top_entries] this] show ?thesis by simp
qed

section \<open>Properties\<close>

text \<open>Recording a hit through the shared handle of a code changes the window of that code, and of
  no other: the handles of different codes never alias.\<close>

theorem stats_no_aliasing:
  assumes "storage_inv st"
  shows "storage_inv (storage_record code now st) \<and>
    storage_view (storage_record code now st) code =
      Some (window_record_hit (case storage_view st code of None \<Rightarrow> window_new | Some w \<Rightarrow> w) now) \<and>
    (\<forall>c. c \<noteq> code \<longrightarrow> storage_view (storage_record code now st) c = storage_view st c)"
  using assms by (simp add: storage_inv_record storage_record_view)

theorem stats_no_aliasing_witness:
  "storage_view (storage_record ''b'' 5 (storage_record ''a'' 3 stats_storage_new)) ''a'' =
   Some (window_record_hit window_new 3)"
  using stats_no_aliasing [OF storage_inv_record [OF storage_inv_new, of "''a''" 3], of "''b''" 5]
  by (simp add: storage_record_view [OF storage_inv_new])

text \<open>C27: \<open>get_top\<close> lists the true totals of distinct codes, most hits first, as many as
  the limit allows, and every code left out has at most as many hits as any code listed.\<close>

theorem get_top_ranking:
  assumes "storage_inv st"
  shows "length (get_top limit st) = min (unat limit) (length (st_inner st)) \<and>
    distinct (map fst (get_top limit st)) \<and>
    sorted (map (\<lambda>(_, total). Reverse total) (get_top limit st)) \<and>
    (\<forall>(c, n) \<in> set (get_top limit st). map_option get_total (storage_view st c) = Some n \<and>
       (\<forall>d w. storage_view st d = Some w \<longrightarrow> d \<notin> fst ` set (get_top limit st) \<longrightarrow> get_total w \<le> n))"
  using get_top_distinct [OF assms] get_top_sorted [of limit st] get_top_length [of limit st]
    get_top_sound [OF assms] get_top_best [OF assms] by blast

theorem get_top_ranking_witness:
  "length (get_top 1 (storage_record ''b'' 5 (storage_record ''a'' 3 stats_storage_new))) = 1"
  using get_top_ranking [OF storage_inv_record [OF storage_inv_record [OF storage_inv_new]],
      of 1 "''b''" 5 "''a''" 3]
  by (simp add: storage_record_def get_or_create_def stats_storage_new_def arc_record_hit_def Let_def)

end
