(* ===== verification/In_Memory.thy ===== *)
theory In_Memory
  imports Domain_Link Stats_Storage
begin

text \<open>
  The in-memory store, \<open>crates/storage/src/in_memory.rs\<close>: a locked map from codes to entries (the
  link and an atomic counter) and its own statistics storage. Each \<open>_sync\<close> method holds the lock
  of the map for its whole body, so it is one atomic step; a method that reads the clock takes the
  reading. \<open>list_sync\<close> slices a vector and so may panic. The store is interpreted as a
  \<open>reliable_repository\<close>.
\<close>

section \<open>State and operations\<close>

record link_entry =
  entry_link :: short_link
  entry_hits :: u64

record in_memory_repo =
  im_inner :: "(string, link_entry) hash_map"
  im_stats :: stats_storage

definition link_entry_new :: "short_link \<Rightarrow> link_entry" where
  "link_entry_new l = \<lparr>entry_link = l, entry_hits = 0\<rparr>"

definition entry_stats :: "link_entry \<Rightarrow> link_stats" where
  "entry_stats e = \<lparr>stats_link = entry_link e, stats_hits = entry_hits e\<rparr>"

definition in_memory_new :: in_memory_repo where
  "in_memory_new = \<lparr>im_inner = [], im_stats = stats_storage_new\<rparr>"

definition insert_sync :: "short_link \<Rightarrow> in_memory_repo \<Rightarrow> (repo_error + unit) \<times> in_memory_repo" where
  "insert_sync l s =
     (case hm_get (im_inner s) (link_code l) of
        Some _ \<Rightarrow> (Inl (CodeTaken (link_code l)), s)
      | None \<Rightarrow> (Inr (), s\<lparr>im_inner := hm_insert (link_code l) (link_entry_new l) (im_inner s)\<rparr>))"

definition get_sync :: "string \<Rightarrow> in_memory_repo \<Rightarrow> repo_error + short_link" where
  "get_sync code s =
     (case hm_get (im_inner s) code of None \<Rightarrow> Inl (NotFound code) | Some e \<Rightarrow> Inr (entry_link e))"

definition remove_sync :: "string \<Rightarrow> in_memory_repo \<Rightarrow> (repo_error + unit) \<times> in_memory_repo" where
  "remove_sync code s =
     (case hm_get (im_inner s) code of
        None \<Rightarrow> (Inl (NotFound code), s)
      | Some _ \<Rightarrow> (Inr (), s\<lparr>im_inner := hm_remove code (im_inner s)\<rparr>))"

definition record_hit_sync ::
  "string \<Rightarrow> system_time \<Rightarrow> in_memory_repo \<Rightarrow> (repo_error + u64) \<times> in_memory_repo" where
  "record_hit_sync code now s =
     (case hm_get (im_inner s) code of
        None \<Rightarrow> (Inl (NotFound code), s)
      | Some entry \<Rightarrow>
          let new_hits = entry_hits entry + 1;
              s' = s\<lparr>im_inner := hm_insert code (entry\<lparr>entry_hits := new_hits\<rparr>) (im_inner s)\<rparr>;
              (stats, st) = get_or_create code (im_stats s')
          in (Inr new_hits, s'\<lparr>im_stats := arc_record_hit stats now st\<rparr>))"

definition update_sync ::
  "string \<Rightarrow> string \<Rightarrow> system_time \<Rightarrow> in_memory_repo \<Rightarrow> (repo_error + short_link) \<times> in_memory_repo" where
  "update_sync code target_url now s =
     (case hm_get (im_inner s) code of
        None \<Rightarrow> (Inl (NotFound code), s)
      | Some entry \<Rightarrow>
          let l = (entry_link entry)\<lparr>link_target_url := target_url, link_updated_at := now,
                    link_version := link_version (entry_link entry) + 1\<rparr>
          in (Inr l, s\<lparr>im_inner := hm_insert code (entry\<lparr>entry_link := l\<rparr>) (im_inner s)\<rparr>))"

definition stats_sync :: "string \<Rightarrow> in_memory_repo \<Rightarrow> repo_error + link_stats" where
  "stats_sync code s =
     (case hm_get (im_inner s) code of None \<Rightarrow> Inl (NotFound code) | Some e \<Rightarrow> Inr (entry_stats e))"

text \<open>\<open>Iterator::position\<close> and the text of a link's creation second.\<close>

fun position :: "('a \<Rightarrow> bool) \<Rightarrow> 'a list \<Rightarrow> nat option" where
  "position p [] = None"
| "position p (x # xs) = (if p x then Some 0 else map_option Suc (position p xs))"

definition created_secs_text :: "short_link \<Rightarrow> string" where
  "created_secs_text l = show_nat (unat (as_secs (since_epoch (link_created_at l))))"

definition sorted_links :: "in_memory_repo \<Rightarrow> short_link list" where
  "sorted_links s = sort_key list_key (map (\<lambda>(_, e). entry_link e) (im_inner s))"

definition created_at_cursor :: "short_link \<Rightarrow> cursor" where
  "created_at_cursor l = (created_secs_text l, link_code l)"

definition list_start :: "cursor option \<Rightarrow> short_link list \<Rightarrow> nat" where
  "list_start cursor entries =
     (case cursor of
        Some (c_ts, c_code) \<Rightarrow>
          (case position (\<lambda>l. created_secs_text l = c_ts \<and> link_code l = c_code) entries of
             Some i \<Rightarrow> i + 1
           | None \<Rightarrow> 0)
      | None \<Rightarrow> 0)"

definition list_sync :: "u64 \<Rightarrow> cursor option \<Rightarrow> in_memory_repo \<Rightarrow> (short_link list \<times> cursor option) run" where
  "list_sync limit cursor s =
     (let entries = sorted_links s;
          start = list_start cursor entries;
          stop = min (unat (of_nat start + limit)) (length entries)
      in if stop < start then Panic
         else let page = take (stop - start) (drop start entries);
                  next_cursor = (if page = [] then None else Some (created_at_cursor (last page)))
              in Done (page, next_cursor))"

definition purge_expired_sync :: "system_time \<Rightarrow> in_memory_repo \<Rightarrow> nat \<times> in_memory_repo" where
  "purge_expired_sync now s =
     (let before = length (im_inner s);
          expired_codes = map fst (filter (\<lambda>(_, e). is_expired (entry_link e) now) (im_inner s));
          s' = foldl (\<lambda>s code. s\<lparr>im_inner := hm_remove code (im_inner s),
                                im_stats := storage_remove code (im_stats s)\<rparr>) s expired_codes
      in (before - length (im_inner s'), s'))"

text \<open>The \<open>LinkRepository\<close> implementation; \<open>update\<close> drops the version it is given.\<close>

definition in_memory_ops :: "in_memory_repo link_repository" where
  "in_memory_ops =
     \<lparr>repo_insert = insert_sync,
      repo_get = (\<lambda>code s. (get_sync code s, s)),
      repo_update = (\<lambda>code target_url _ now s. update_sync code target_url now s),
      repo_remove = remove_sync,
      repo_record_hit = record_hit_sync,
      repo_stats = (\<lambda>code s. (stats_sync code s, s)),
      repo_list = (\<lambda>limit cursor s.
         (case list_sync limit cursor s of Panic \<Rightarrow> Panic | Done r \<Rightarrow> Done (Inr r), s)),
      repo_purge_expired = purge_expired_sync\<rparr>"

section \<open>Invariant and view\<close>

definition in_memory_inv :: "in_memory_repo \<Rightarrow> bool" where
  "in_memory_inv s \<longleftrightarrow>
     hm_ok (im_inner s) \<and> storage_inv (im_stats s) \<and>
     (\<forall>c e. hm_get (im_inner s) c = Some e \<longrightarrow> link_code (entry_link e) = c)"

definition in_memory_view :: "in_memory_repo \<Rightarrow> link_view" where
  "in_memory_view s c = map_option entry_stats (hm_get (im_inner s) c)"

lemma entry_stats_simps [simp]:
  "stats_link (entry_stats e) = entry_link e" "stats_hits (entry_stats e) = entry_hits e"
  "entry_stats (e\<lparr>entry_hits := n\<rparr>) = (entry_stats e)\<lparr>stats_hits := n\<rparr>"
  "entry_stats (e\<lparr>entry_link := l\<rparr>) = (entry_stats e)\<lparr>stats_link := l\<rparr>"
  "entry_stats (link_entry_new l) = \<lparr>stats_link = l, stats_hits = 0\<rparr>"
  by (simp_all add: entry_stats_def link_entry_new_def)

lemma in_memory_inv_new: "in_memory_inv in_memory_new"
  by (simp add: in_memory_inv_def in_memory_new_def storage_inv_new)

lemma in_memory_view_new [simp]: "in_memory_view in_memory_new = Map.empty"
  by (simp add: in_memory_view_def in_memory_new_def fun_eq_iff)

lemma in_memory_view_None: "in_memory_view s c = None \<longleftrightarrow> hm_get (im_inner s) c = None"
  by (simp add: in_memory_view_def)

lemma in_memory_view_insert:
  "in_memory_view (s\<lparr>im_inner := hm_insert c e (im_inner s)\<rparr>) = (in_memory_view s)(c \<mapsto> entry_stats e)"
  by (auto simp: in_memory_view_def fun_eq_iff)

lemma in_memory_view_stats [simp]: "in_memory_view (s\<lparr>im_stats := st\<rparr>) = in_memory_view s"
  by (simp add: in_memory_view_def fun_eq_iff)

section \<open>Each operation through the view\<close>

lemma insert_sync_result:
  "fst (insert_sync l s) =
     (if in_memory_view s (link_code l) = None then Inr () else Inl (CodeTaken (link_code l)))"
  by (auto simp: insert_sync_def in_memory_view_None split: option.splits)

lemma insert_sync_view:
  "in_memory_view (snd (insert_sync l s)) =
     (if in_memory_view s (link_code l) = None
      then (in_memory_view s)(link_code l \<mapsto> \<lparr>stats_link = l, stats_hits = 0\<rparr>)
      else in_memory_view s)"
  by (auto simp: insert_sync_def in_memory_view_insert in_memory_view_None split: option.splits)

lemma insert_sync_inv: "in_memory_inv s \<Longrightarrow> in_memory_inv (snd (insert_sync l s))"
  by (auto simp: insert_sync_def in_memory_inv_def link_entry_new_def split: option.splits)

lemma get_sync_view:
  "get_sync c s =
     (case in_memory_view s c of None \<Rightarrow> Inl (NotFound c) | Some st \<Rightarrow> Inr (stats_link st))"
  by (auto simp: get_sync_def in_memory_view_def split: option.splits)

lemma stats_sync_view:
  "stats_sync c s = (case in_memory_view s c of None \<Rightarrow> Inl (NotFound c) | Some st \<Rightarrow> Inr st)"
  by (auto simp: stats_sync_def in_memory_view_def split: option.splits)

lemma remove_sync_result:
  "fst (remove_sync c s) = (case in_memory_view s c of None \<Rightarrow> Inl (NotFound c) | Some _ \<Rightarrow> Inr ())"
  by (auto simp: remove_sync_def in_memory_view_def split: option.splits)

lemma remove_sync_view: "in_memory_view (snd (remove_sync c s)) = (in_memory_view s)(c := None)"
  by (auto simp: remove_sync_def in_memory_view_def fun_eq_iff split: option.splits)

lemma remove_sync_inv: "in_memory_inv s \<Longrightarrow> in_memory_inv (snd (remove_sync c s))"
  by (auto simp: remove_sync_def in_memory_inv_def split: option.splits if_splits)

lemma record_hit_sync_result:
  "fst (record_hit_sync c now s) =
     (case in_memory_view s c of None \<Rightarrow> Inl (NotFound c) | Some st \<Rightarrow> Inr (stats_hits st + 1))"
  by (auto simp: record_hit_sync_def in_memory_view_def Let_def split_beta split: option.splits)

lemma record_hit_sync_view:
  "in_memory_view (snd (record_hit_sync c now s)) =
     (case in_memory_view s c of
        None \<Rightarrow> in_memory_view s
      | Some st \<Rightarrow> (in_memory_view s)(c \<mapsto> st\<lparr>stats_hits := stats_hits st + 1\<rparr>))"
  by (auto simp: record_hit_sync_def in_memory_view_def fun_eq_iff Let_def split_beta
      split: option.splits)

lemma record_hit_sync_stats:
  "im_stats (snd (record_hit_sync c now s)) =
     (if in_memory_view s c = None then im_stats s else storage_record c now (im_stats s))"
  by (auto simp: record_hit_sync_def storage_record_def in_memory_view_None Let_def split_beta
      split: option.splits)

lemma record_hit_sync_inv: "in_memory_inv s \<Longrightarrow> in_memory_inv (snd (record_hit_sync c now s))"
  using storage_inv_record [of "im_stats s" c now]
  by (auto simp: record_hit_sync_def in_memory_inv_def storage_record_def Let_def split_beta
      split: option.splits if_splits)

lemma update_sync_result:
  "fst (update_sync c url now s) =
     (case in_memory_view s c of
        None \<Rightarrow> Inl (NotFound c)
      | Some st \<Rightarrow> Inr ((stats_link st)\<lparr>link_target_url := url, link_updated_at := now,
                         link_version := link_version (stats_link st) + 1\<rparr>))"
  by (auto simp: update_sync_def in_memory_view_def Let_def split: option.splits)

lemma update_sync_view:
  "in_memory_view (snd (update_sync c url now s)) =
     (case in_memory_view s c of
        None \<Rightarrow> in_memory_view s
      | Some st \<Rightarrow> (in_memory_view s)(c \<mapsto> st\<lparr>stats_link :=
          (stats_link st)\<lparr>link_target_url := url, link_updated_at := now,
             link_version := link_version (stats_link st) + 1\<rparr>\<rparr>))"
  by (auto simp: update_sync_def in_memory_view_def fun_eq_iff Let_def split: option.splits)

lemma update_sync_inv: "in_memory_inv s \<Longrightarrow> in_memory_inv (snd (update_sync c url now s))"
  by (auto simp: update_sync_def in_memory_inv_def Let_def split: option.splits)

lemmas in_memory_op_views =
  insert_sync_result insert_sync_view get_sync_view stats_sync_view remove_sync_result
  remove_sync_view record_hit_sync_result record_hit_sync_view update_sync_result update_sync_view

lemmas in_memory_op_invs =
  insert_sync_inv remove_sync_inv record_hit_sync_inv update_sync_inv

section \<open>Purging\<close>

definition purge_codes :: "string list \<Rightarrow> in_memory_repo \<Rightarrow> in_memory_repo" where
  "purge_codes cs s =
     foldl (\<lambda>s code. s\<lparr>im_inner := hm_remove code (im_inner s),
                     im_stats := storage_remove code (im_stats s)\<rparr>) s cs"

definition expired_codes :: "system_time \<Rightarrow> in_memory_repo \<Rightarrow> string list" where
  "expired_codes now s = map fst (filter (\<lambda>(_, e). is_expired (entry_link e) now) (im_inner s))"

lemma purge_expired_sync_codes:
  "purge_expired_sync now s =
     (let s' = purge_codes (expired_codes now s) s in (length (im_inner s) - length (im_inner s'), s'))"
  by (simp add: purge_expired_sync_def purge_codes_def expired_codes_def Let_def)

lemma purge_codes_Cons:
  "purge_codes (c # cs) s = purge_codes cs (s\<lparr>im_inner := hm_remove c (im_inner s),
     im_stats := storage_remove c (im_stats s)\<rparr>)"
  by (simp add: purge_codes_def)

lemma purge_one_inv:
  "in_memory_inv s \<Longrightarrow> in_memory_inv (s\<lparr>im_inner := hm_remove c (im_inner s),
     im_stats := storage_remove c (im_stats s)\<rparr>)"
  by (simp add: in_memory_inv_def storage_inv_remove)

lemma purge_codes_inv: "in_memory_inv s \<Longrightarrow> in_memory_inv (purge_codes cs s)"
  by (induction cs arbitrary: s) (simp add: purge_codes_def, simp add: purge_codes_Cons purge_one_inv)

lemma purge_codes_get:
  "hm_get (im_inner (purge_codes cs s)) c = (if c \<in> set cs then None else hm_get (im_inner s) c)"
  by (induction cs arbitrary: s) (simp add: purge_codes_def, simp add: purge_codes_Cons)

lemma purge_codes_stats:
  "storage_view (im_stats (purge_codes cs s)) c =
     (if c \<in> set cs then None else storage_view (im_stats s) c)"
  by (induction cs arbitrary: s) (simp add: purge_codes_def, simp add: purge_codes_Cons)

lemma expired_codes_iff:
  assumes "in_memory_inv s"
  shows "c \<in> set (expired_codes now s) \<longleftrightarrow>
    (\<exists>e. hm_get (im_inner s) c = Some e \<and> is_expired (entry_link e) now)"
proof -
  have "(c, e) \<in> set (im_inner s) \<longleftrightarrow> hm_get (im_inner s) c = Some e" for e
    using assms by (intro hm_mem_iff) (simp add: in_memory_inv_def)
  then show ?thesis by (auto simp: expired_codes_def image_iff)
qed

lemma purge_sync_view:
  "in_memory_inv s \<Longrightarrow> in_memory_view (snd (purge_expired_sync now s)) = live_view now (in_memory_view s)"
  by (rule ext) (auto simp: purge_expired_sync_codes Let_def in_memory_view_def purge_codes_get
      expired_codes_iff live_view_def split: option.splits)

lemma purge_sync_inv: "in_memory_inv s \<Longrightarrow> in_memory_inv (snd (purge_expired_sync now s))"
  by (simp add: purge_expired_sync_codes Let_def purge_codes_inv)

lemma purge_codes_inner:
  "im_inner (purge_codes cs s) = filter (\<lambda>(c, _). c \<notin> set cs) (im_inner s)"
  unfolding purge_codes_def
  by (induction cs arbitrary: s) (auto simp: AList.delete_eq filter_filter intro!: filter_cong)

lemma purge_sync_inner:
  assumes "in_memory_inv s"
  shows "im_inner (snd (purge_expired_sync now s)) =
    filter (\<lambda>(_, e). \<not> is_expired (entry_link e) now) (im_inner s)"
proof -
  have "(c, e) \<in> set (im_inner s) \<Longrightarrow> c \<in> set (expired_codes now s) \<longleftrightarrow> is_expired (entry_link e) now"
    for c e
    using assms expired_codes_iff [OF assms, of c now] hm_mem_iff [of "im_inner s" c]
    by (simp add: in_memory_inv_def)
  then show ?thesis
    by (auto simp: purge_expired_sync_codes Let_def purge_codes_inner intro!: filter_cong)
qed

lemma purge_sync_count:
  assumes "in_memory_inv s"
  shows "fst (purge_expired_sync now s) =
    length (filter (\<lambda>(_, e). is_expired (entry_link e) now) (im_inner s))"
proof -
  have "length (im_inner s) = length (filter (\<lambda>(_, e). is_expired (entry_link e) now) (im_inner s)) +
      length (im_inner (snd (purge_expired_sync now s)))"
    using sum_length_filter_compl [of "\<lambda>(_, e). is_expired (entry_link e) now" "im_inner s"]
    by (simp add: purge_sync_inner [OF assms] case_prod_unfold)
  then show ?thesis by (simp add: purge_expired_sync_codes Let_def)
qed

section \<open>Listing\<close>

lemma position_Some:
  "position p xs = Some i \<Longrightarrow> i < length xs \<and> p (xs ! i)"
  by (induction xs arbitrary: i) (auto split: if_splits)

lemma position_unique:
  assumes "i < length xs" and "p (xs ! i)" and "\<And>j. j < length xs \<Longrightarrow> p (xs ! j) \<Longrightarrow> j = i"
  shows "position p xs = Some i"
  using assms
proof (induction xs arbitrary: i)
  case (Cons x xs)
  show ?case
  proof (cases i)
    case 0
    then show ?thesis using Cons.prems by simp
  next
    case (Suc k)
    have "\<not> p x" using Cons.prems(3) [of 0] Suc by auto
    moreover have "position p xs = Some k"
      using Cons.prems Suc by (intro Cons.IH) (auto dest: Cons.prems(3) [of "Suc _", simplified])
    ultimately show ?thesis using Suc by simp
  qed
qed simp

lemma sorted_links_mem:
  assumes "in_memory_inv s"
  shows "l \<in> set (sorted_links s) \<longleftrightarrow> (\<exists>st. in_memory_view s (link_code l) = Some st \<and> stats_link st = l)"
proof -
  have "(c, e) \<in> set (im_inner s) \<longleftrightarrow> hm_get (im_inner s) c = Some e" for c e
    using assms by (intro hm_mem_iff) (simp add: in_memory_inv_def)
  moreover have "hm_get (im_inner s) c = Some e \<Longrightarrow> link_code (entry_link e) = c" for c e
    using assms by (simp add: in_memory_inv_def)
  ultimately show ?thesis
    by (force simp: sorted_links_def in_memory_view_def)
qed

lemma inner_codes:
  assumes "in_memory_inv s"
  shows "map link_code (map (\<lambda>(_, e). entry_link e) (im_inner s)) = map fst (im_inner s)"
proof -
  have "link_code (entry_link e) = c" if "(c, e) \<in> set (im_inner s)" for c e
    using assms that hm_mem_iff [of "im_inner s" c e] by (auto simp: in_memory_inv_def)
  then show ?thesis by auto
qed

lemma sorted_links_distinct:
  assumes "in_memory_inv s"
  shows "distinct (map link_code (sorted_links s))"
  unfolding sorted_links_def distinct_map_sort_key inner_codes [OF assms]
  using assms by (simp add: in_memory_inv_def hm_ok_def)

lemma sorted_links_sorted [simp]: "sorted (map list_key (sorted_links s))"
  by (simp add: sorted_links_def)

lemma length_sorted_links [simp]: "length (sorted_links s) = length (im_inner s)"
  by (simp add: sorted_links_def)

lemma list_start_le: "list_start cursor entries \<le> length entries"
  by (auto simp: list_start_def split: option.splits dest!: position_Some)

lemma unat_add_le: "unat (of_nat m + n :: u64) \<le> m + unat n"
proof -
  have "of_nat m + n = (of_nat (m + unat n) :: u64)" by simp
  then show ?thesis by (simp only: unat_of_nat mod_less_eq_dividend)
qed

lemma list_sync_Done:
  assumes "list_sync limit cursor s = Done (page, next)"
  obtains k where "page = take k (drop (list_start cursor (sorted_links s)) (sorted_links s))"
    and "k \<le> unat limit"
    and "next = (if page = [] then None else Some (created_at_cursor (last page)))"
proof (rule that)
  let ?start = "list_start cursor (sorted_links s)"
  let ?stop = "min (unat (of_nat ?start + limit)) (length (sorted_links s))"
  show "page = take (?stop - ?start) (drop ?start (sorted_links s))"
    and "next = (if page = [] then None else Some (created_at_cursor (last page)))"
    using assms by (auto simp: list_sync_def Let_def split: if_splits)
  show "?stop - ?start \<le> unat limit"
    using unat_add_le [of ?start limit] by linarith
qed

text \<open>Where the addition does not overflow, the page is the next \<open>limit\<close> links.\<close>

lemma list_sync_page:
  assumes "unat limit + length (im_inner s) < 2 ^ 64"
  shows "list_sync limit cursor s =
    (let page = take (unat limit) (drop (list_start cursor (sorted_links s)) (sorted_links s))
     in Done (page, if page = [] then None else Some (created_at_cursor (last page))))"
proof -
  let ?start = "list_start cursor (sorted_links s)" and ?n = "length (sorted_links s)"
  have start: "?start \<le> ?n" by (rule list_start_le)
  have add: "unat (of_nat ?start + limit) = ?start + unat limit"
    using assms start by (simp add: unat_word_ariths unat_of_nat take_bit_eq_mod)
  have "take (min (?start + unat limit) ?n - ?start) (drop ?start (sorted_links s)) =
      take (unat limit) (drop ?start (sorted_links s))"
    by (cases "?start + unat limit \<le> ?n") (simp_all add: min_def)
  then show ?thesis
    using start by (simp add: list_sync_def add Let_def min_less_iff_disj not_less)
qed

lemma list_start_cursor:
  assumes inv: "in_memory_inv s" and i: "i < length (sorted_links s)"
  shows "list_start (Some (created_at_cursor (sorted_links s ! i))) (sorted_links s) = Suc i"
proof -
  have "link_code (sorted_links s ! j) = link_code (sorted_links s ! i) \<Longrightarrow> j = i"
    if "j < length (sorted_links s)" for j
    using nth_eq_iff_index_eq [OF sorted_links_distinct [OF inv], of j i] that i by simp
  then have "position (\<lambda>l. created_secs_text l = created_secs_text (sorted_links s ! i) \<and>
      link_code l = link_code (sorted_links s ! i)) (sorted_links s) = Some i"
    using i by (intro position_unique) auto
  then show ?thesis by (simp add: list_start_def created_at_cursor_def)
qed

section \<open>The store keeps the repository's promises\<close>

lemma in_memory_ops_simps [simp]:
  "repo_insert in_memory_ops = insert_sync"
  "repo_get in_memory_ops = (\<lambda>code s. (get_sync code s, s))"
  "repo_update in_memory_ops = (\<lambda>code target_url _ now s. update_sync code target_url now s)"
  "repo_remove in_memory_ops = remove_sync"
  "repo_record_hit in_memory_ops = record_hit_sync"
  "repo_stats in_memory_ops = (\<lambda>code s. (stats_sync code s, s))"
  "repo_purge_expired in_memory_ops = purge_expired_sync"
  "repo_list in_memory_ops limit cursor s =
     (case list_sync limit cursor s of Panic \<Rightarrow> Panic | Done r \<Rightarrow> Done (Inr r), s)"
  by (simp_all add: in_memory_ops_def)

lemma purge_sync_cases:
  "in_memory_inv s \<Longrightarrow> purge_expired_sync now s = (k, s') \<Longrightarrow>
   in_memory_view s' = live_view now (in_memory_view s)"
  using purge_sync_view [of s now] by simp

lemma in_memory_list_ok:
  assumes inv: "in_memory_inv s"
    and ok: "repo_list in_memory_ops n cur s = (Done (Inr (ls, next)), s')"
  shows "length ls \<le> unat n \<and> newest_first ls \<and> distinct (map link_code ls) \<and>
    (\<forall>l \<in> set ls. \<exists>st. in_memory_view s (link_code l) = Some st \<and> stats_link st = l)"
proof -
  from ok have "list_sync n cur s = Done (ls, next)" by (simp split: run.splits)
  then obtain k where ls: "ls = take k (drop (list_start cur (sorted_links s)) (sorted_links s))"
    and k: "k \<le> unat n" by (rule list_sync_Done)
  have "set ls \<subseteq> set (sorted_links s)"
    unfolding ls by (meson set_drop_subset set_take_subset subset_trans)
  then have "\<forall>l \<in> set ls. \<exists>st. in_memory_view s (link_code l) = Some st \<and> stats_link st = l"
    using sorted_links_mem [OF inv] by blast
  moreover have "newest_first ls" and "distinct (map link_code ls)"
    using sorted_links_distinct [OF inv] sorted_list_key_newest [of ls]
    by (simp_all add: ls sorted_wrt_take sorted_wrt_drop flip: take_map drop_map)
  ultimately show ?thesis using k by (simp add: ls)
qed

text \<open>Each step as the result and the view after it, for use as destruction rules.\<close>

lemma insert_sync_step: "insert_sync l s = (r, s') \<Longrightarrow>
    r = fst (insert_sync l s) \<and> in_memory_view s' = in_memory_view (snd (insert_sync l s))"
  by simp

lemma remove_sync_step: "remove_sync c s = (r, s') \<Longrightarrow>
    r = fst (remove_sync c s) \<and> in_memory_view s' = in_memory_view (snd (remove_sync c s))"
  by simp

lemma record_hit_sync_step: "record_hit_sync c now s = (r, s') \<Longrightarrow>
    r = fst (record_hit_sync c now s) \<and>
    in_memory_view s' = in_memory_view (snd (record_hit_sync c now s))"
  by simp

lemma update_sync_step: "update_sync c url now s = (r, s') \<Longrightarrow>
    r = fst (update_sync c url now s) \<and>
    in_memory_view s' = in_memory_view (snd (update_sync c url now s))"
  by simp

lemmas in_memory_steps =
  insert_sync_step [unfolded insert_sync_result insert_sync_view]
  remove_sync_step [unfolded remove_sync_result remove_sync_view]
  record_hit_sync_step [unfolded record_hit_sync_result record_hit_sync_view]
  update_sync_step [unfolded update_sync_result update_sync_view]

interpretation im: reliable_repository in_memory_ops in_memory_inv in_memory_view
proof unfold_locales
  fix s c st
  assume "in_memory_inv s" and "in_memory_view s c = Some st"
  then show "link_code (stats_link st) = c"
    by (auto simp: in_memory_inv_def in_memory_view_def)
next
  fix s n cur ls and "next" :: "cursor option" and s'
  assume "in_memory_inv s" and "repo_list in_memory_ops n cur s = (Done (Inr (ls, next)), s')"
  then show "length ls \<le> unat n \<and> newest_first ls \<and> distinct (map link_code ls) \<and>
    (\<forall>l \<in> set ls. \<exists>st. in_memory_view s (link_code l) = Some st \<and> stats_link st = l)"
    by (rule in_memory_list_ok)
qed (auto simp: in_memory_op_views in_memory_op_invs purge_sync_inv
      dest!: in_memory_steps purge_sync_cases split: option.splits if_splits)

section \<open>The store as a map\<close>

text \<open>
  The abstract store: a map from codes to links and counts, and one function per operation. The
  in-memory store answers every sequence of operations as the map does.
\<close>

datatype repo_op =
    Op_Insert short_link
  | Op_Get string
  | Op_Update string string system_time
  | Op_Remove string
  | Op_Hit string system_time
  | Op_Stats string
  | Op_Purge system_time

datatype repo_reply =
    Reply_Unit "repo_error + unit"
  | Reply_Link "repo_error + short_link"
  | Reply_Hits "repo_error + u64"
  | Reply_Stats "repo_error + link_stats"
  | Reply_Count nat

fun spec_step :: "repo_op \<Rightarrow> link_view \<Rightarrow> repo_reply \<times> link_view" where
  "spec_step (Op_Insert l) v =
     (case v (link_code l) of
        None \<Rightarrow> (Reply_Unit (Inr ()), v(link_code l \<mapsto> \<lparr>stats_link = l, stats_hits = 0\<rparr>))
      | Some _ \<Rightarrow> (Reply_Unit (Inl (CodeTaken (link_code l))), v))"
| "spec_step (Op_Get c) v =
     (Reply_Link (case v c of None \<Rightarrow> Inl (NotFound c) | Some st \<Rightarrow> Inr (stats_link st)), v)"
| "spec_step (Op_Update c url now) v =
     (case v c of
        None \<Rightarrow> (Reply_Link (Inl (NotFound c)), v)
      | Some st \<Rightarrow>
          let l = (stats_link st)\<lparr>link_target_url := url, link_updated_at := now,
                    link_version := link_version (stats_link st) + 1\<rparr>
          in (Reply_Link (Inr l), v(c \<mapsto> st\<lparr>stats_link := l\<rparr>)))"
| "spec_step (Op_Remove c) v =
     (case v c of
        None \<Rightarrow> (Reply_Unit (Inl (NotFound c)), v)
      | Some _ \<Rightarrow> (Reply_Unit (Inr ()), v(c := None)))"
| "spec_step (Op_Hit c now) v =
     (case v c of
        None \<Rightarrow> (Reply_Hits (Inl (NotFound c)), v)
      | Some st \<Rightarrow> (Reply_Hits (Inr (stats_hits st + 1)), v(c \<mapsto> st\<lparr>stats_hits := stats_hits st + 1\<rparr>)))"
| "spec_step (Op_Stats c) v =
     (Reply_Stats (case v c of None \<Rightarrow> Inl (NotFound c) | Some st \<Rightarrow> Inr st), v)"
| "spec_step (Op_Purge now) v =
     (Reply_Count (card {c. \<exists>st. v c = Some st \<and> is_expired (stats_link st) now}), live_view now v)"

fun impl_step :: "repo_op \<Rightarrow> in_memory_repo \<Rightarrow> repo_reply \<times> in_memory_repo" where
  "impl_step (Op_Insert l) s = (let (r, s') = repo_insert in_memory_ops l s in (Reply_Unit r, s'))"
| "impl_step (Op_Get c) s = (let (r, s') = repo_get in_memory_ops c s in (Reply_Link r, s'))"
| "impl_step (Op_Update c url now) s =
     (let (r, s') = repo_update in_memory_ops c url 0 now s in (Reply_Link r, s'))"
| "impl_step (Op_Remove c) s = (let (r, s') = repo_remove in_memory_ops c s in (Reply_Unit r, s'))"
| "impl_step (Op_Hit c now) s = (let (r, s') = repo_record_hit in_memory_ops c now s in (Reply_Hits r, s'))"
| "impl_step (Op_Stats c) s = (let (r, s') = repo_stats in_memory_ops c s in (Reply_Stats r, s'))"
| "impl_step (Op_Purge now) s = (let (n, s') = repo_purge_expired in_memory_ops now s in (Reply_Count n, s'))"

fun replies :: "(repo_op \<Rightarrow> 'a \<Rightarrow> repo_reply \<times> 'a) \<Rightarrow> 'a \<Rightarrow> repo_op list \<Rightarrow> repo_reply list" where
  "replies step s [] = []"
| "replies step s (op # ops) = (let (r, s') = step op s in r # replies step s' ops)"

lemma expired_card:
  assumes "in_memory_inv s"
  shows "card {c. \<exists>st. in_memory_view s c = Some st \<and> is_expired (stats_link st) now} =
    fst (purge_expired_sync now s)"
proof -
  have "{c. \<exists>st. in_memory_view s c = Some st \<and> is_expired (stats_link st) now} =
      set (expired_codes now s)"
    by (auto simp: expired_codes_iff [OF assms] in_memory_view_def)
  moreover have "distinct (expired_codes now s)"
    using assms by (auto simp: expired_codes_def in_memory_inv_def hm_ok_def distinct_map_filter)
  moreover have "length (expired_codes now s) = fst (purge_expired_sync now s)"
    by (simp add: purge_sync_count [OF assms] expired_codes_def)
  ultimately show ?thesis by (metis distinct_card)
qed

lemma impl_step_spec:
  assumes "in_memory_inv s"
  shows "in_memory_inv (snd (impl_step op s)) \<and>
    fst (impl_step op s) = fst (spec_step op (in_memory_view s)) \<and>
    in_memory_view (snd (impl_step op s)) = snd (spec_step op (in_memory_view s))"
  using assms
  by (cases op) (auto simp: split_beta Let_def in_memory_op_views in_memory_op_invs purge_sync_inv
      purge_sync_view expired_card split: option.splits)

section \<open>Following the cursors\<close>

lemma walk_in_memory:
  assumes inv: "in_memory_inv s" and limit: "1 \<le> unat limit" "unat limit + length (im_inner s) < 2 ^ 64"
  shows "length (im_inner s) < list_start cur (sorted_links s) + fuel \<Longrightarrow>
    walk_pages in_memory_ops limit fuel cur s = Done (Inr (drop (list_start cur (sorted_links s)) (sorted_links s)))"
proof (induction fuel arbitrary: cur)
  case 0
  then show ?case using list_start_le [of cur "sorted_links s"] by simp
next
  case (Suc fuel)
  let ?k = "list_start cur (sorted_links s)" and ?ls = "sorted_links s"
  let ?page = "take (unat limit) (drop ?k ?ls)"
  have list: "repo_list in_memory_ops limit cur s =
      (Done (Inr (?page, if ?page = [] then None else Some (created_at_cursor (last ?page)))), s)"
    by (simp add: list_sync_page [OF limit(2)] Let_def)
  show ?case
  proof (cases "?page = []")
    case True
    then have "drop ?k ?ls = []" using limit(1) by auto
    then show ?thesis using True by (simp add: list del: in_memory_ops_simps)
  next
    case False
    let ?m = "?k + length ?page"
    have m: "?m \<le> length ?ls" by (rule take_drop_le [OF list_start_le])
    have pos: "0 < length ?page" using False by simp
    then obtain j where j: "?m = Suc j" by (cases ?m) auto
    have "list_start (Some (created_at_cursor (?ls ! j))) ?ls = Suc j"
      using m unfolding j by (intro list_start_cursor [OF inv]) simp
    then have start: "list_start (Some (created_at_cursor (last ?page))) ?ls = ?m"
      unfolding last_take_drop [OF False j] j .
    have "walk_pages in_memory_ops limit fuel (Some (created_at_cursor (last ?page))) s =
        Done (Inr (drop ?m ?ls))"
      using Suc.IH [of "Some (created_at_cursor (last ?page))"] Suc.prems pos by (simp only: start)
    moreover have "?page @ drop ?m ?ls = drop ?k ?ls" by (rule take_drop_rest)
    ultimately show ?thesis using False by (simp add: list del: in_memory_ops_simps)
  qed
qed

section \<open>Counting hits\<close>

lemma record_hits_many:
  assumes "in_memory_inv s" and "in_memory_view s c = Some st"
  shows "in_memory_inv (foldl (\<lambda>s t. snd (record_hit_sync c t s)) s ts) \<and>
    in_memory_view (foldl (\<lambda>s t. snd (record_hit_sync c t s)) s ts) =
      (in_memory_view s)(c \<mapsto> st\<lparr>stats_hits := stats_hits st + of_nat (length ts)\<rparr>)"
  using assms
proof (induction ts rule: rev_induct)
  case Nil
  have "st\<lparr>stats_hits := stats_hits st + 0\<rparr> = st" by simp
  then show ?case using Nil by (simp add: fun_upd_idem)
next
  case (snoc t ts)
  then show ?case
    by (auto simp: record_hit_sync_view record_hit_sync_inv fun_eq_iff add_ac)
qed

section \<open>Properties\<close>

text \<open>C1: on every sequence of operations, errors included, the in-memory store started empty gives the
  replies of the abstract map from codes to links and hit counts.\<close>

theorem in_memory_refines_map: "replies impl_step in_memory_new ops = replies spec_step Map.empty ops"
proof -
  have "replies impl_step s ops = replies spec_step (in_memory_view s) ops" if "in_memory_inv s" for s
    using that
  proof (induction ops arbitrary: s)
    case (Cons op ops)
    then show ?case using impl_step_spec [OF Cons.prems, of op] by (simp add: split_beta Let_def)
  qed simp
  from this [OF in_memory_inv_new] show ?thesis by simp
qed

text \<open>A page of size zero is empty and has no cursor.\<close>

lemma walk_limit_0: "walk_pages in_memory_ops 0 (Suc fuel) None s = Done (Inr [])"
  by (simp add: in_memory_ops_def list_sync_def list_start_def Let_def)

lemma paging_memory:
  assumes "in_memory_inv s" and "unat limit + length (im_inner s) < 2 ^ 64"
  shows "walk_pages in_memory_ops limit (Suc (length (im_inner s))) None s =
    Done (Inr (if limit = 0 then [] else sorted_links s))"
  using walk_in_memory [OF assms(1) _ assms(2), of None "Suc (length (im_inner s))"] walk_limit_0
  by (auto simp: list_start_def unat_gt_0 Suc_le_eq simp del: walk_pages.simps)

text \<open>C14: a client of the trait that follows the cursors of the listing gets every stored link
  exactly once, newest first: no link is skipped or repeated between pages. The page size may be any but
  zero, for which the listing is one empty page, and those so close to \<open>2 ^ 64\<close> that the end of
  a page overflows.\<close>

theorem paging_is_complete:
  assumes "in_memory_inv s" and "unat limit + length (im_inner s) < 2 ^ 64"
  shows "walk_pages in_memory_ops limit (Suc (length (im_inner s))) None s =
      Done (Inr (if limit = 0 then [] else sorted_links s)) \<and>
    distinct (map link_code (sorted_links s)) \<and> sorted (map list_key (sorted_links s)) \<and>
    (\<forall>l. l \<in> set (sorted_links s) \<longleftrightarrow>
       (\<exists>st. in_memory_view s (link_code l) = Some st \<and> stats_link st = l))"
  using paging_memory [OF assms] sorted_links_distinct [OF assms(1)] sorted_links_mem [OF assms(1)]
  by (simp del: walk_pages.simps)

theorem paging_is_complete_witness:
  "walk_pages in_memory_ops 1 3 None
     (snd (insert_sync (short_link_new ''b'' ''y'' 7) (snd (insert_sync (short_link_new ''a'' ''x'' 5) in_memory_new)))) =
   Done (Inr [short_link_new ''b'' ''y'' 7, short_link_new ''a'' ''x'' 5])"
proof -
  let ?s1 = "snd (insert_sync (short_link_new ''a'' ''x'' 5) in_memory_new)"
  let ?s = "snd (insert_sync (short_link_new ''b'' ''y'' 7) ?s1)"
  have inner: "im_inner ?s = [(''a'', link_entry_new (short_link_new ''a'' ''x'' 5)),
      (''b'', link_entry_new (short_link_new ''b'' ''y'' 7))]"
    by (simp add: insert_sync_def in_memory_new_def short_link_new_def)
  have inv: "in_memory_inv ?s" by (intro insert_sync_inv in_memory_inv_new)
  have len: "length (im_inner ?s) = 2" by (simp only: inner) simp
  have "sorted_links ?s = [short_link_new ''b'' ''y'' 7, short_link_new ''a'' ''x'' 5]"
    unfolding sorted_links_def inner
    by (simp add: link_entry_new_def short_link_new_def list_key_def sort_key_def)
  then show ?thesis using paging_is_complete [OF inv, of 1] len by (simp del: walk_pages.simps)
qed

text \<open>A purge removes the expired links and their statistics, keeps every other link and its
  statistics, and returns the number of links removed.\<close>

theorem purge_exact:
  assumes "in_memory_inv s"
  shows "in_memory_view (snd (purge_expired_sync now s)) = live_view now (in_memory_view s) \<and>
    fst (purge_expired_sync now s) =
      card {c. \<exists>st. in_memory_view s c = Some st \<and> is_expired (stats_link st) now} \<and>
    (\<forall>c. storage_view (im_stats (snd (purge_expired_sync now s))) c =
       (if \<exists>st. in_memory_view s c = Some st \<and> is_expired (stats_link st) now then None
        else storage_view (im_stats s) c))"
  using purge_sync_view [OF assms] expired_card [OF assms] expired_codes_iff [OF assms]
  by (auto simp: purge_expired_sync_codes Let_def purge_codes_stats in_memory_view_def)

theorem purge_exact_witness:
  "in_memory_view (snd (purge_expired_sync 9 (snd (insert_sync
     (with_expires_at (short_link_new ''a'' ''x'' 5) 8) in_memory_new)))) = Map.empty"
  using purge_exact [OF insert_sync_inv [OF in_memory_inv_new],
      of 9 "with_expires_at (short_link_new ''a'' ''x'' 5) 8"]
  by (auto simp: insert_sync_view fun_eq_iff live_view_def is_expired_def with_expires_at_def)

text \<open>The hits of a link are the number of recorded visits, and no visit of one link changes the
  count of another.\<close>

theorem hits_are_counted:
  assumes "in_memory_inv s" and "in_memory_view s c = Some st"
  shows "in_memory_view (foldl (\<lambda>s t. snd (record_hit_sync c t s)) s ts) =
    (in_memory_view s)(c \<mapsto> st\<lparr>stats_hits := stats_hits st + of_nat (length ts)\<rparr>)"
  using record_hits_many [OF assms] by simp

theorem hits_are_counted_witness:
  "map_option stats_hits (in_memory_view (foldl (\<lambda>s t. snd (record_hit_sync ''a'' t s))
     (snd (insert_sync (short_link_new ''a'' ''x'' 5) in_memory_new)) [7, 8, 3]) ''a'') = Some 3"
proof -
  let ?l = "short_link_new ''a'' ''x'' 5"
  have v: "in_memory_view (snd (insert_sync ?l in_memory_new)) ''a'' = Some \<lparr>stats_link = ?l, stats_hits = 0\<rparr>"
    by (simp add: insert_sync_view short_link_new_def)
  show ?thesis
    using hits_are_counted [OF insert_sync_inv [OF in_memory_inv_new] v, of "[7, 8, 3]"] by simp
qed

text \<open>A cursor that names no stored link (its link was deleted or purged) lists from the first page
  again.\<close>

theorem stale_cursor_restarts:
  assumes "\<forall>l \<in> set (sorted_links s). created_at_cursor l \<noteq> c"
  shows "list_sync limit (Some c) s = list_sync limit None s"
proof -
  have "position (\<lambda>l. created_secs_text l = fst c \<and> link_code l = snd c) (sorted_links s) = None"
  proof (rule ccontr)
    assume "position (\<lambda>l. created_secs_text l = fst c \<and> link_code l = snd c) (sorted_links s) \<noteq> None"
    then obtain i where "i < length (sorted_links s)" and "created_at_cursor (sorted_links s ! i) = c"
      using position_Some by (fastforce simp: created_at_cursor_def)
    then show False using assms by (metis nth_mem)
  qed
  then have "list_start (Some c) (sorted_links s) = list_start None (sorted_links s)"
    by (cases c) (simp add: list_start_def)
  then show ?thesis by (simp add: list_sync_def)
qed

theorem stale_cursor_restarts_witness:
  "list_sync 1 (Some (''0'', ''gone'')) in_memory_new = list_sync 1 None in_memory_new"
  by (rule stale_cursor_restarts) (simp add: sorted_links_def in_memory_new_def)

text \<open>The in-memory store does not lock: of two updates that were given the same version both
  succeed, and the target of the first is lost.\<close>

theorem in_memory_lost_update:
  assumes "in_memory_inv s" and "in_memory_view s c = Some st"
    and "repo_update in_memory_ops c url1 v t1 s = (r1, s1)"
    and "repo_update in_memory_ops c url2 v t2 s1 = (r2, s2)"
  shows "(\<exists>l1. r1 = Inr l1) \<and> (\<exists>l2. r2 = Inr l2 \<and> link_target_url l2 = url2 \<and>
    link_version l2 = link_version (stats_link st) + 2) \<and>
    map_option (\<lambda>st. link_target_url (stats_link st)) (in_memory_view s2 c) = Some url2"
proof -
  have s1: "s1 = snd (update_sync c url1 t1 s)" "r1 = fst (update_sync c url1 t1 s)"
    and s2: "s2 = snd (update_sync c url2 t2 s1)" "r2 = fst (update_sync c url2 t2 s1)"
    using assms(3,4) by simp_all
  show ?thesis
    using assms(2) by (auto simp: s2 s1 update_sync_view update_sync_result)
qed

theorem in_memory_lost_update_witness:
  "map_option (\<lambda>st. link_target_url (stats_link st)) (in_memory_view
     (snd (update_sync ''a'' ''z'' 8 (snd (update_sync ''a'' ''y'' 7
       (snd (insert_sync (short_link_new ''a'' ''x'' 5) in_memory_new)))))) ''a'') = Some ''z''"
proof -
  let ?s = "snd (insert_sync (short_link_new ''a'' ''x'' 5) in_memory_new)"
  let ?s1 = "snd (update_sync ''a'' ''y'' 7 ?s)"
  have "in_memory_view ?s ''a'' = Some \<lparr>stats_link = short_link_new ''a'' ''x'' 5, stats_hits = 0\<rparr>"
    by (simp add: insert_sync_view short_link_new_def)
  from in_memory_lost_update [OF insert_sync_inv [OF in_memory_inv_new] this,
      of "''y''" 1 7 "fst (update_sync ''a'' ''y'' 7 ?s)" ?s1 "''z''" 8 "fst (update_sync ''a'' ''z'' 8 ?s1)"
        "snd (update_sync ''a'' ''z'' 8 ?s1)"]
  show ?thesis by simp
qed

end
