(* ===== verification/Cleanup.thy ===== *)
theory Cleanup
  imports In_Memory
begin

text \<open>
  The background task that purges expired links, \<open>shorty-server/src/cleanup.rs\<close>: a loop of
  \<open>tokio::select!\<close> over the cancellation token and an interval. One step of the loop is a relation, as
  \<open>select!\<close> may take either branch when both are ready. The interval is its next deadline on the
  monotonic clock: the first tick is due at once, and with \<open>MissedTickBehavior::Delay\<close> a late tick
  moves the next one to a period after it. The purge reads the wall clock.
\<close>

record 's cleaner =
  cl_repo :: 's
  cl_running :: bool
  cl_cancelled :: bool
  cl_deadline :: instant

definition spawn_cleaner :: "'s \<Rightarrow> instant \<Rightarrow> 's cleaner" where
  "spawn_cleaner repo now =
     \<lparr>cl_repo = repo, cl_running = True, cl_cancelled = False, cl_deadline = now\<rparr>"

definition cleaner_tick ::
  "'s link_repository \<Rightarrow> int \<Rightarrow> instant \<Rightarrow> system_time \<Rightarrow> 's cleaner \<Rightarrow> 's cleaner" where
  "cleaner_tick R period at wall c =
     (let (removed, repo) = repo_purge_expired R wall (cl_repo c)
      in c\<lparr>cl_repo := repo, cl_deadline := at + period\<rparr>)"

text \<open>
  What happens to the task: a tick at the monotonic reading \<open>at\<close> and the wall reading \<open>wall\<close>, the
  exit on cancellation, a cancellation from outside, and requests that change the repository.
\<close>

datatype 's cleaner_event = Tick instant system_time | Exit | Cancel | Request 's

inductive cleaner_step ::
  "'s link_repository \<Rightarrow> int \<Rightarrow> 's cleaner \<Rightarrow> 's cleaner_event \<Rightarrow> 's cleaner \<Rightarrow> bool"
  for R :: "'s link_repository" and period :: int where
  tick: "cl_running c \<Longrightarrow> cl_deadline c \<le> at \<Longrightarrow>
    cleaner_step R period c (Tick at wall) (cleaner_tick R period at wall c)"
| exit: "cl_running c \<Longrightarrow> cl_cancelled c \<Longrightarrow> cleaner_step R period c Exit (c\<lparr>cl_running := False\<rparr>)"
| cancel: "cleaner_step R period c Cancel (c\<lparr>cl_cancelled := True\<rparr>)"
| request: "cleaner_step R period c (Request repo) (c\<lparr>cl_repo := repo\<rparr>)"

inductive_cases tick_cases: "cleaner_step R period c (Tick at wall) c'"
inductive_cases exit_cases: "cleaner_step R period c Exit c'"
inductive_simps cleaner_step_simps:
  "cleaner_step R period c (Tick at wall) c'"
  "cleaner_step R period c Exit c'"
  "cleaner_step R period c Cancel c'"
  "cleaner_step R period c (Request repo) c'"

inductive cleaner_runs ::
  "'s link_repository \<Rightarrow> int \<Rightarrow> 's cleaner \<Rightarrow> 's cleaner_event list \<Rightarrow> 's cleaner \<Rightarrow> bool"
  for R :: "'s link_repository" and period :: int where
  runs_nil: "cleaner_runs R period c [] c"
| runs_step: "cleaner_step R period c e c1 \<Longrightarrow> cleaner_runs R period c1 es c2 \<Longrightarrow>
    cleaner_runs R period c (e # es) c2"

inductive_simps cleaner_runs_simps:
  "cleaner_runs R period c [] c'"
  "cleaner_runs R period c (e # es) c'"

section \<open>Ticks, cancellation and what is left\<close>

fun tick_times :: "'s cleaner_event list \<Rightarrow> instant list" where
  "tick_times [] = []"
| "tick_times (Tick at wall # es) = at # tick_times es"
| "tick_times (_ # es) = tick_times es"

text \<open>After the exit there is no tick, and ticks are a period apart.\<close>

lemma stopped_no_ticks:
  "cleaner_runs R period c es c' \<Longrightarrow> \<not> cl_running c \<Longrightarrow> tick_times es = [] \<and> \<not> cl_running c'"
  by (induction rule: cleaner_runs.induct) (auto elim: cleaner_step.cases)

lemma ticks_after_deadline:
  assumes "cleaner_runs R period c es c'" and "0 \<le> period"
  shows "(\<forall>t \<in> set (tick_times es). cl_deadline c \<le> t) \<and>
    sorted_wrt (\<lambda>t u. t + period \<le> u) (tick_times es)"
  using assms
proof (induction rule: cleaner_runs.induct)
  case (runs_step c e c1 es c2)
  from runs_step.hyps(1) runs_step.IH [OF runs_step.prems] runs_step.prems show ?case
    by cases (auto simp: cleaner_tick_def Let_def split_beta)
qed simp

text \<open>When the next tick is due: at once at first, then a period after the last one.\<close>

definition next_due :: "instant \<Rightarrow> int \<Rightarrow> instant list \<Rightarrow> instant" where
  "next_due start period ts = (if ts = [] then start else last ts + period)"

text \<open>The state of the task after a run, from the events alone.\<close>

lemma cleaner_state:
  assumes "cleaner_runs R period c es c'"
  shows "cl_running c' \<longleftrightarrow> cl_running c \<and> Exit \<notin> set es"
    and "cl_cancelled c' \<longleftrightarrow> cl_cancelled c \<or> Cancel \<in> set es"
    and "cl_deadline c' = next_due (cl_deadline c) period (tick_times es)"
  using assms
  by (induction rule: cleaner_runs.induct)
     (auto elim!: cleaner_step.cases simp: cleaner_tick_def next_due_def Let_def split_beta)

lemma runs_append:
  "cleaner_runs R period c (xs @ ys) c2 \<longleftrightarrow>
     (\<exists>c1. cleaner_runs R period c xs c1 \<and> cleaner_runs R period c1 ys c2)"
  by (induction xs arbitrary: c) (auto simp: cleaner_runs_simps)

section \<open>Properties\<close>

text \<open>C30: the clean-up task, however cancellations and requests fall between its steps: until it
  exits it can purge exactly from the moment a purge is due, which is at once for the first and a period
  after the last for every other, so that purges are at least a period apart; it can exit exactly once it
  has been cancelled, so that an exit follows a cancellation, and never purges again. When a due purge or a
  due exit runs is up to the scheduler, which may also purge once more after a cancellation.\<close>

theorem cleaner_schedule:
  assumes "cleaner_runs R period (spawn_cleaner repo now) es c" and "0 \<le> period"
  shows "(\<forall>t wall. (\<exists>c'. cleaner_step R period c (Tick t wall) c') \<longleftrightarrow>
       Exit \<notin> set es \<and> next_due now period (tick_times es) \<le> t) \<and>
    (\<forall>t wall c'. cleaner_step R period c (Tick t wall) c' \<longrightarrow>
       cl_repo c' = snd (repo_purge_expired R wall (cl_repo c))) \<and>
    sorted_wrt (\<lambda>t u. t + period \<le> u) (tick_times es) \<and>
    ((\<exists>c'. cleaner_step R period c Exit c') \<longleftrightarrow> Exit \<notin> set es \<and> Cancel \<in> set es) \<and>
    (\<forall>xs ys. es = xs @ Exit # ys \<longrightarrow> Cancel \<in> set xs \<and> tick_times ys = [])"
proof -
  note start [simp] = spawn_cleaner_def
  have exits: "Cancel \<in> set xs \<and> tick_times ys = []" if split: "es = xs @ Exit # ys" for xs ys
  proof -
    obtain c1 c2 where xs: "cleaner_runs R period (spawn_cleaner repo now) xs c1"
      and exit: "cleaner_step R period c1 Exit c2" and ys: "cleaner_runs R period c2 ys c"
      using assms(1) unfolding split runs_append by (auto simp: cleaner_runs_simps)
    have "\<not> cl_running c2" "cl_cancelled c1" using exit by (auto simp: cleaner_step_simps)
    then show ?thesis using stopped_no_ticks [OF ys] cleaner_state(2) [OF xs] by simp
  qed
  have "sorted_wrt (\<lambda>t u. t + period \<le> u) (tick_times es)" using ticks_after_deadline [OF assms] by simp
  then show ?thesis
    using exits cleaner_state [OF assms(1)]
    by (auto simp: cleaner_step_simps cleaner_tick_def Let_def split_beta)
qed

theorem cleaner_schedule_witness:
  "sorted_wrt (\<lambda>t u. t + 30 \<le> u)
     (tick_times [Tick 1 5, Cancel, Tick 31 6, Exit :: in_memory_repo cleaner_event])"
proof -
  have "\<exists>c'. cleaner_runs in_memory_ops 30 (spawn_cleaner in_memory_new 0) [Tick 1 5, Cancel, Tick 31 6, Exit] c'"
    by (simp add: cleaner_runs_simps cleaner_step_simps spawn_cleaner_def cleaner_tick_def Let_def split_beta)
  then show ?thesis
    using cleaner_schedule [of in_memory_ops 30 in_memory_new 0 "[Tick 1 5, Cancel, Tick 31 6, Exit]"] by auto
qed

end
