(* ===== verification/Dto.thy ===== *)
theory Dto
  imports Api_Error
begin

text \<open>
  The wire format of the API and its validation, \<open>shorty-server/src/api/dto.rs\<close>. \<open>Url::parse\<close> is
  the parameter \<open>url_parse\<close>: the parsed URL (its scheme and its text) or the text of the parse error.
\<close>

record create_link_request =
  cr_target_url :: string
  cr_custom_code :: "string option"
  cr_ttl_seconds :: "u64 option"

record update_link_request =
  ur_target_url :: string
  ur_version :: i64

record link_response =
  lr_code :: string
  lr_target_url :: string
  lr_created_at_unix :: u64
  lr_expires_at_unix :: "u64 option"
  lr_hits :: u64
  lr_version :: i64

record list_links_response =
  ll_links :: "link_response list"
  ll_next_cursor :: "string option"

definition unix_secs :: "system_time \<Rightarrow> u64" where
  "unix_secs t = as_secs (since_epoch t)"

definition link_response_of_stats :: "link_stats \<Rightarrow> link_response" where
  "link_response_of_stats stats =
     \<lparr>lr_code = link_code (stats_link stats),
      lr_target_url = link_target_url (stats_link stats),
      lr_created_at_unix = unix_secs (link_created_at (stats_link stats)),
      lr_expires_at_unix = map_option unix_secs (link_expires_at (stats_link stats)),
      lr_hits = stats_hits stats,
      lr_version = link_version (stats_link stats)\<rparr>"

definition link_response_of_link :: "short_link \<Rightarrow> link_response" where
  "link_response_of_link l =
     \<lparr>lr_code = link_code l,
      lr_target_url = link_target_url l,
      lr_created_at_unix = unix_secs (link_created_at l),
      lr_expires_at_unix = map_option unix_secs (link_expires_at l),
      lr_hits = 0,
      lr_version = link_version l\<rparr>"

record url =
  url_scheme :: string
  url_text :: string

definition parse_target_url :: "(string \<Rightarrow> string + url) \<Rightarrow> string \<Rightarrow> app_error + url" where
  "parse_target_url url_parse raw =
     (case url_parse raw of
        Inl e \<Rightarrow>
          Inl (App_Validation (''invalid target_url: '' @ e)
            [\<lparr>fe_field = ''target_url'', fe_issue = ''invalid url: '' @ e\<rparr>])
      | Inr u \<Rightarrow>
          if url_scheme u \<noteq> ''http'' \<and> url_scheme u \<noteq> ''https''
          then Inl (App_Validation
                 (''target_url must use http or https, got '' @ quoted (url_scheme u))
                 [\<lparr>fe_field = ''target_url'',
                   fe_issue = ''scheme must be http or https, got '' @ quoted (url_scheme u)\<rparr>])
          else Inr u)"

definition is_ascii_alphanumeric :: "char \<Rightarrow> bool" where
  "is_ascii_alphanumeric c \<longleftrightarrow>
     (let n = (of_char c :: nat)
      in 48 \<le> n \<and> n \<le> 57 \<or> 65 \<le> n \<and> n \<le> 90 \<or> 97 \<le> n \<and> n \<le> 122)"

definition code_char :: "char \<Rightarrow> bool" where
  "code_char c \<longleftrightarrow> is_ascii_alphanumeric c \<or> c = CHR ''_'' \<or> c = CHR ''-''"

definition validate_custom_code :: "string \<Rightarrow> app_error + unit" where
  "validate_custom_code code =
     (if \<not> (4 \<le> length code \<and> length code \<le> 32)
      then Inl (App_Validation ''custom_code must be 4..=32 characters long''
             [\<lparr>fe_field = ''custom_code'',
               fe_issue = ''length is '' @ show_nat (length code) @ '' characters, expected 4..=32''\<rparr>])
      else if \<not> list_all code_char code
      then Inl (App_Validation ''custom_code may contain only [a-zA-Z0-9_-]''
             [\<lparr>fe_field = ''custom_code'', fe_issue = ''contains invalid characters''\<rparr>])
      else Inr ())"

text \<open>\<open>now\<close> is the reading of the clock; adding the time to live to it may panic.\<close>

definition expires_at_from_ttl ::
  "u64 option \<Rightarrow> system_time \<Rightarrow> (app_error + system_time option) run" where
  "expires_at_from_ttl ttl_seconds now =
     (case ttl_seconds of
        None \<Rightarrow> Done (Inr None)
      | Some secs \<Rightarrow>
          if secs = 0
          then Done (Inl (App_Validation ''ttl_seconds must be greater than zero''
                 [\<lparr>fe_field = ''ttl_seconds'', fe_issue = ''must be greater than zero''\<rparr>]))
          else if secs < 60
          then Done (Inl (App_Validation ''ttl_seconds must be at least 60 seconds''
                 [\<lparr>fe_field = ''ttl_seconds'',
                   fe_issue = ''value is '' @ show_nat (unat secs) @ '' seconds, minimum is 60''\<rparr>]))
          else (case time_add_secs now secs of
                  Panic \<Rightarrow> Panic
                | Done t \<Rightarrow> Done (Inr (Some t))))"

section \<open>Validation\<close>

lemma parse_target_url_Inr:
  "parse_target_url url_parse raw = Inr u \<longleftrightarrow>
     url_parse raw = Inr u \<and> url_scheme u \<in> {''http'', ''https''}"
  by (auto simp: parse_target_url_def split: sum.splits)

lemma parse_target_url_Inl:
  "parse_target_url url_parse raw = Inl e \<Longrightarrow> \<exists>m ds. e = App_Validation m ds"
  by (auto simp: parse_target_url_def split: sum.splits if_splits)

lemma validate_custom_code_Inr:
  "validate_custom_code code = Inr () \<longleftrightarrow>
     4 \<le> length code \<and> length code \<le> 32 \<and> (\<forall>c \<in> set code. code_char c)"
  by (auto simp: validate_custom_code_def list_all_iff)

lemma validate_custom_code_Inl:
  "validate_custom_code code = Inl e \<Longrightarrow> \<exists>m ds. e = App_Validation m ds"
  by (auto simp: validate_custom_code_def split: if_splits)

lemma expires_at_from_ttl_cases:
  "expires_at_from_ttl ttl now = Done (Inr None) \<longleftrightarrow> ttl = None"
  "expires_at_from_ttl ttl now = Done (Inr (Some t)) \<longleftrightarrow>
     (\<exists>secs. ttl = Some secs \<and> 60 \<le> secs \<and> t = now + uint secs * nanos_per_sec \<and> representable t)"
  "expires_at_from_ttl ttl now = Panic \<longleftrightarrow>
     (\<exists>secs. ttl = Some secs \<and> 60 \<le> secs \<and> \<not> representable (now + uint secs * nanos_per_sec))"
  by (auto simp: expires_at_from_ttl_def time_add_secs_def Let_def not_less
      split: option.splits run.splits if_splits)

lemma expires_at_from_ttl_Inl:
  "expires_at_from_ttl ttl now = Done (Inl e) \<Longrightarrow>
     \<exists>secs m ds. ttl = Some secs \<and> secs < 60 \<and> e = App_Validation m ds"
  by (auto simp: expires_at_from_ttl_def split: option.splits run.splits if_splits)

lemma expires_at_from_ttl_short:
  "secs < 60 \<Longrightarrow> \<exists>e. expires_at_from_ttl (Some secs) now = Done (Inl e)"
  by (auto simp: expires_at_from_ttl_def)

definition alphabet :: string where
  "alphabet = ''abcdefghijklmnopqrstuvwxyzABCDEFGHIJKLMNOPQRSTUVWXYZ0123456789_-''"

lemma alphabet_codes:
  "(of_char :: char \<Rightarrow> nat) ` set alphabet = set ([48..<58] @ [65..<91] @ [97..<123] @ [95, 45])"
  unfolding alphabet_def
  by (simp only: list.set image_insert image_empty, simp add: upt_rec, blast)

lemma code_char_alphabet: "code_char c \<longleftrightarrow> c \<in> set alphabet"
proof -
  have e: "d = c \<longleftrightarrow> (of_char d :: nat) = of_char c" for d
    by simp
  have "c \<in> set alphabet \<longleftrightarrow> (of_char c :: nat) \<in> of_char ` set alphabet"
    by (auto simp: image_iff)
  also have "\<dots> \<longleftrightarrow> code_char c"
    unfolding alphabet_codes set_append set_upt Un_iff atLeastLessThan_iff list.set insert_iff
      empty_iff code_char_def is_ascii_alphanumeric_def Let_def
    using e [of "CHR ''_''"] e [of "CHR ''-''"] by auto
  finally show ?thesis by simp
qed

section \<open>Properties\<close>

text \<open>\<open>custom_code\<close> is accepted exactly if it has 4 to 32 characters of
  \<open>[a-zA-Z0-9_-]\<close>, the 64 characters of \<open>alphabet\<close>.\<close>

theorem custom_code_rule:
  "validate_custom_code code = Inr () \<longleftrightarrow>
     length code \<in> {4..32} \<and>
     set code \<subseteq> set alphabet"
  by (auto simp: validate_custom_code_Inr code_char_alphabet)

text \<open>A time to live is absent, or at least 60 seconds and then added to the clock; a shorter one is a
  validation error, and one that leaves the range of the clock panics instead of being rejected.\<close>

theorem ttl_rule:
  "expires_at_from_ttl None now = Done (Inr None) \<and>
   (secs < 60 \<longrightarrow> (\<exists>m ds. expires_at_from_ttl (Some secs) now = Done (Inl (App_Validation m ds)))) \<and>
   (60 \<le> secs \<longrightarrow> expires_at_from_ttl (Some secs) now =
      (if representable (now + uint secs * nanos_per_sec)
       then Done (Inr (Some (now + uint secs * nanos_per_sec))) else Panic))"
  by (auto simp: expires_at_from_ttl_def time_add_secs_def Let_def not_less)

theorem ttl_rule_witness:
  "expires_at_from_ttl (Some 18446744073709551615) 1700000000000000000 = Panic"
  using ttl_rule [of 1700000000000000000 18446744073709551615] by (simp add: representable_def)

end
