(* ===== verification/Cache.thy ===== *)
theory Cache
  imports Prelude
begin

text \<open>
  The Redis cache, \<open>crates/storage/src/cache.rs\<close>. Redis is a service: a record of its three
  commands over a state \<open>'r\<close> is a parameter, and each command answers, fails, or runs into the
  timeout, in which case it may or may not have taken effect. What the properties rely on of it is
  \<open>redis_maps\<close>: an answered command has read, written or deleted its key, a failed or timed-out
  \<open>GET\<close> changed nothing. Serialisation is a parameter too, \<open>None\<close> its failure.
\<close>

section \<open>Redis\<close>

datatype 'a reply = Answered 'a | Failed | TimedOut

record 'r redis =
  redis_get :: "string \<Rightarrow> 'r \<Rightarrow> string option reply \<times> 'r"
  redis_set_ex :: "string \<Rightarrow> string \<Rightarrow> u64 \<Rightarrow> 'r \<Rightarrow> unit reply \<times> 'r"
  redis_del :: "string \<Rightarrow> 'r \<Rightarrow> unit reply \<times> 'r"

section \<open>The cache client\<close>

record cache_config =
  cc_ttl_secs :: u64
  cc_jitter_secs :: u64
  cc_op_timeout_ms :: u64

definition cache_config_default :: cache_config where
  "cache_config_default = \<lparr>cc_ttl_secs = 60, cc_jitter_secs = 10, cc_op_timeout_ms = 300\<rparr>"

text \<open>The connection is the state of the service behind it.\<close>

record 'r cache =
  cache_conn :: "'r option"
  cache_cfg :: cache_config
  cache_hits :: u64
  cache_misses :: u64

definition cache_disabled :: "'r cache" where
  "cache_disabled =
     \<lparr>cache_conn = None, cache_cfg = cache_config_default, cache_hits = 0, cache_misses = 0\<rparr>"

definition cache_from_manager :: "'r \<Rightarrow> cache_config \<Rightarrow> 'r cache" where
  "cache_from_manager conn config =
     \<lparr>cache_conn = Some conn, cache_cfg = config, cache_hits = 0, cache_misses = 0\<rparr>"

text \<open>\<open>connect\<close>: \<open>None\<close> where the client or the connection cannot be made.\<close>

definition cache_connect :: "'r option \<Rightarrow> cache_config \<Rightarrow> 'r cache" where
  "cache_connect manager config =
     (case manager of Some conn \<Rightarrow> cache_from_manager conn config | None \<Rightarrow> cache_disabled)"

definition record_cache_hit :: "'r cache \<Rightarrow> 'r cache" where
  "record_cache_hit c = c\<lparr>cache_hits := cache_hits c + 1\<rparr>"

definition record_cache_miss :: "'r cache \<Rightarrow> 'r cache" where
  "record_cache_miss c = c\<lparr>cache_misses := cache_misses c + 1\<rparr>"

definition cache_get :: "'r redis \<Rightarrow> (string \<Rightarrow> 'a option) \<Rightarrow> string \<Rightarrow> 'r cache \<Rightarrow> 'a option \<times> 'r cache" where
  "cache_get R from_str key c =
     (case cache_conn c of
        None \<Rightarrow> (None, record_cache_miss c)
      | Some conn \<Rightarrow>
          let (result, conn') = redis_get R key conn;
              c' = c\<lparr>cache_conn := Some conn'\<rparr>
          in (case result of
                Answered (Some raw) \<Rightarrow>
                  (case from_str raw of
                     Some v \<Rightarrow> (Some v, record_cache_hit c')
                   | None \<Rightarrow> (None, record_cache_miss c'))
              | Answered None \<Rightarrow> (None, record_cache_miss c')
              | Failed \<Rightarrow> (None, record_cache_miss c')
              | TimedOut \<Rightarrow> (None, record_cache_miss c')))"

text \<open>
  The time to live with jitter: \<open>offset\<close> is the random number drawn from \<open>-jitter..=jitter\<close>;
  drawing from an empty range panics.
\<close>

definition jittered_ttl :: "cache_config \<Rightarrow> i64 \<Rightarrow> u64 run" where
  "jittered_ttl config offset =
     (let base = cc_ttl_secs config; jitter = cc_jitter_secs config
      in if sint jitter < sint (- jitter) then Panic
         else Done (of_int (max (sint (base + offset)) 1)))"

definition cache_set ::
  "'r redis \<Rightarrow> ('a \<Rightarrow> string option) \<Rightarrow> i64 \<Rightarrow> string \<Rightarrow> 'a \<Rightarrow> 'r cache \<Rightarrow> unit run \<times> 'r cache" where
  "cache_set R to_str offset key v c =
     (case cache_conn c of
        None \<Rightarrow> (Done (), c)
      | Some conn \<Rightarrow>
          (case to_str v of
             None \<Rightarrow> (Done (), c)
           | Some raw \<Rightarrow>
               (case jittered_ttl (cache_cfg c) offset of
                  Panic \<Rightarrow> (Panic, c)
                | Done ttl \<Rightarrow>
                    let (_, conn') = redis_set_ex R key raw ttl conn
                    in (Done (), c\<lparr>cache_conn := Some conn'\<rparr>))))"

definition cache_invalidate :: "'r redis \<Rightarrow> string \<Rightarrow> 'r cache \<Rightarrow> 'r cache" where
  "cache_invalidate R key c =
     (case cache_conn c of
        None \<Rightarrow> c
      | Some conn \<Rightarrow> let (_, conn') = redis_del R key conn in c\<lparr>cache_conn := Some conn'\<rparr>)"

definition link_key :: "string \<Rightarrow> string" where
  "link_key code = ''shorty:v1:link:'' @ code"

lemma link_key_inject [simp]: "link_key a = link_key b \<longleftrightarrow> a = b"
  by (simp add: link_key_def)

section \<open>What Redis promises\<close>

text \<open>
  The documented behaviour the properties rely on, over what the service holds (\<open>contents\<close>): a value
  read is a value held; a write or a deletion touches its key only, and a command that failed or timed
  out may have taken effect; a key may expire at any time. \<open>redis_deletes\<close> adds that deletions are
  answered, and then the key is gone.
\<close>

definition redis_maps :: "'r redis \<Rightarrow> ('r \<Rightarrow> string \<rightharpoonup> string) \<Rightarrow> bool" where
  "redis_maps R contents \<longleftrightarrow>
     (\<forall>key r v r'. redis_get R key r = (v, r') \<longrightarrow> contents r' \<subseteq>\<^sub>m contents r \<and>
        (\<forall>raw. v = Answered (Some raw) \<longrightarrow> contents r key = Some raw)) \<and>
     (\<forall>key raw ttl r. \<forall>k. contents (snd (redis_set_ex R key raw ttl r)) k \<in>
        {None, contents r k} \<union> (if k = key then {Some raw} else {})) \<and>
     (\<forall>key r v r'. redis_del R key r = (v, r') \<longrightarrow> contents r' \<subseteq>\<^sub>m contents r \<and>
        (v = Answered () \<longrightarrow> contents r' key = None))"

definition redis_deletes :: "'r redis \<Rightarrow> bool" where
  "redis_deletes R \<longleftrightarrow> (\<forall>key r. fst (redis_del R key r) = Answered ())"

text \<open>What the cache holds, nothing where it is disabled.\<close>

definition cached :: "('r \<Rightarrow> string \<rightharpoonup> string) \<Rightarrow> 'r cache \<Rightarrow> string \<rightharpoonup> string" where
  "cached contents c = (case cache_conn c of None \<Rightarrow> Map.empty | Some r \<Rightarrow> contents r)"

lemma record_cache_simps [simp]:
  "cache_conn (record_cache_hit c) = cache_conn c" "cache_conn (record_cache_miss c) = cache_conn c"
  by (simp_all add: record_cache_hit_def record_cache_miss_def)

lemma cache_get_frame:
  assumes "redis_maps R contents" and "cache_get R fs key c = (v, c')"
  shows "cached contents c' \<subseteq>\<^sub>m cached contents c"
proof (cases "cache_conn c")
  case (Some r)
  obtain x r' where get: "redis_get R key r = (x, r')" by fastforce
  then have "contents r' \<subseteq>\<^sub>m contents r" using assms(1) by (simp add: redis_maps_def)
  then show ?thesis
    using assms(2) Some get
    by (auto simp: cache_get_def cached_def Let_def split: reply.splits option.splits)
qed (use assms(2) in \<open>auto simp: cache_get_def cached_def\<close>)

lemma cache_get_Some:
  assumes "redis_maps R contents" and "cache_get R fs key c = (Some v, c')"
  shows "\<exists>raw. cached contents c key = Some raw \<and> fs raw = Some v"
proof (cases "cache_conn c")
  case (Some r)
  obtain x r' where get: "redis_get R key r = (x, r')" by fastforce
  obtain raw where "x = Answered (Some raw)" and fs: "fs raw = Some v"
    using assms(2) Some get by (auto simp: cache_get_def Let_def split: reply.splits option.splits)
  then have "contents r key = Some raw" using assms(1) get by (simp add: redis_maps_def)
  then show ?thesis using fs Some by (simp add: cached_def)
qed (use assms(2) in \<open>simp add: cache_get_def\<close>)

lemma cache_set_frame:
  assumes "redis_maps R contents" and "cache_set R ts offset key v c = (u, c')"
    and "cached contents c' k = Some x"
  shows "cached contents c k = Some x \<or> k = key \<and> ts v = Some x"
proof -
  have set_ex: "contents (snd (redis_set_ex R key raw ttl r)) k = Some x \<Longrightarrow>
      contents r k = Some x \<or> k = key \<and> raw = x" for raw ttl r
  proof -
    assume "contents (snd (redis_set_ex R key raw ttl r)) k = Some x"
    moreover have "contents (snd (redis_set_ex R key raw ttl r)) k \<in>
        {None, contents r k} \<union> (if k = key then {Some raw} else {})"
      using assms(1) unfolding redis_maps_def by blast
    ultimately show ?thesis by (auto split: if_splits)
  qed
  show ?thesis
    using assms(2,3) set_ex
    by (fastforce simp: cache_set_def cached_def Let_def split_beta split: option.splits run.splits)
qed

lemma cache_invalidate_frame:
  assumes "redis_maps R contents"
  shows "cached contents (cache_invalidate R key c) \<subseteq>\<^sub>m cached contents c"
proof (cases "cache_conn c")
  case (Some r)
  obtain x r' where del: "redis_del R key r = (x, r')" by fastforce
  then have "contents r' \<subseteq>\<^sub>m contents r" using assms by (simp add: redis_maps_def)
  then show ?thesis using Some del by (simp add: cache_invalidate_def cached_def)
qed (simp add: cache_invalidate_def cached_def)

lemma cache_invalidate_gone:
  assumes "redis_maps R contents" and "redis_deletes R"
  shows "cached contents (cache_invalidate R key c) key = None"
proof (cases "cache_conn c")
  case (Some r)
  obtain x r' where del: "redis_del R key r = (x, r')" by fastforce
  moreover have "x = Answered ()" using assms(2) del unfolding redis_deletes_def by (metis fst_conv)
  ultimately have "contents r' key = None" using assms(1) by (simp add: redis_maps_def)
  then show ?thesis using Some del by (simp add: cache_invalidate_def cached_def)
qed (simp add: cache_invalidate_def cached_def)

section \<open>Time to live\<close>

lemma sint_small:
  assumes "int (unat (w :: u64)) < 2 ^ 63"
  shows "sint w = int (unat w)"
proof -
  have "signed_take_bit 63 (int (unat w)) = int (unat w)"
    using assms by (intro signed_take_bit_int_eq_self) (linarith+)
  then show ?thesis by (simp add: sint_uint)
qed

lemma sint_add_small:
  "- (2 ^ 63) \<le> sint (a :: u64) + sint b \<Longrightarrow> sint a + sint b < 2 ^ 63 \<Longrightarrow> sint (a + b) = sint a + sint b"
  by (simp add: sint_word_ariths signed_take_bit_int_eq_self)

lemma sint_neg_small: "sint (a :: u64) < 2 ^ 63 \<Longrightarrow> 0 \<le> sint a \<Longrightarrow> sint (- a) = - sint a"
  by (simp add: sint_word_ariths signed_take_bit_int_eq_self)

lemma of_int_word_small: "0 \<le> k \<Longrightarrow> k < 2 ^ 64 \<Longrightarrow> int (unat (of_int k :: u64)) = k"
  by (simp add: uint_word_of_int flip: uint_nat)

lemma jittered_ttl_bounds:
  assumes small: "int (unat (cc_ttl_secs config)) + int (unat (cc_jitter_secs config)) < 2 ^ 63"
    and offset: "- int (unat (cc_jitter_secs config)) \<le> sint offset"
      "sint offset \<le> int (unat (cc_jitter_secs config))"
  obtains ttl where "jittered_ttl config offset = Done ttl"
    and "int (unat ttl) = max (int (unat (cc_ttl_secs config)) + sint offset) 1"
proof -
  let ?b = "cc_ttl_secs config" and ?j = "cc_jitter_secs config"
  let ?B = "int (unat ?b)" and ?J = "int (unat ?j)"
  have J: "0 \<le> ?J" and B: "0 \<le> ?B" by simp_all
  have j63: "?J < 2 ^ 63" and b63: "?B < 2 ^ 63" using small J B by linarith+
  note sj = sint_small [OF j63] and sb = sint_small [OF b63]
  have lo: "- (2 ^ 63) \<le> ?B + sint offset" and hi: "?B + sint offset < 2 ^ 63"
    using small offset J B by linarith+
  have sum: "sint (?b + offset) = ?B + sint offset"
    using sint_add_small [of ?b offset] lo hi unfolding sb by blast
  have neg: "sint (- ?j) = - ?J"
    using sint_neg_small [of ?j] J j63 unfolding sj by blast
  let ?t = "of_int (max (int (unat ?b) + sint offset) 1) :: u64"
  have "jittered_ttl config offset = Done ?t"
    using J unfolding jittered_ttl_def Let_def sj neg sum by simp
  moreover have "int (unat ?t) = max (int (unat ?b) + sint offset) 1"
  proof -
    have "max x 1 < 2 ^ 64" and "0 \<le> max x 1" if "x < 2 ^ 63" for x :: int
      using that by (simp_all add: max_def)
    from this [OF hi] show ?thesis by (simp only: of_int_word_small)
  qed
  ultimately show thesis by (rule that)
qed

section \<open>Properties\<close>

text \<open>C31: the time to live of a cached value is the configured one plus the offset drawn, at least one
  second, and drawing it never panics, for every configuration whose sum fits an \<open>i64\<close>.\<close>

theorem cache_ttl_bounds:
  assumes "int (unat (cc_ttl_secs config)) + int (unat (cc_jitter_secs config)) < 2 ^ 63"
    and "- int (unat (cc_jitter_secs config)) \<le> sint offset" and "sint offset \<le> int (unat (cc_jitter_secs config))"
  shows "\<exists>ttl. jittered_ttl config offset = Done ttl \<and> 1 \<le> int (unat ttl) \<and>
    int (unat ttl) = max (int (unat (cc_ttl_secs config)) + sint offset) 1 \<and>
    int (unat ttl) \<le> max (int (unat (cc_ttl_secs config)) + int (unat (cc_jitter_secs config))) 1"
proof -
  obtain ttl where "jittered_ttl config offset = Done ttl"
    and t: "int (unat ttl) = max (int (unat (cc_ttl_secs config)) + sint offset) 1"
    using jittered_ttl_bounds [OF assms] by blast
  moreover have "max (a + b) 1 \<le> max (a + c) 1" if "b \<le> c" for a b c :: int using that by simp
  ultimately show ?thesis using assms(3) by (metis max.cobounded2)
qed

theorem cache_ttl_bounds_witness: "\<exists>ttl. jittered_ttl cache_config_default (- 7) = Done ttl"
proof -
  have "sint (- 7 :: i64) = - 7" by simp
  then show ?thesis using cache_ttl_bounds [of cache_config_default "- 7"] by (auto simp: cache_config_default_def)
qed

text \<open>Every lookup is counted once, as a hit exactly when it returns a value, and it returns only what
  Redis holds under the key; a Redis that fails or times out makes it a miss, never an error.\<close>

theorem cache_get_sound:
  assumes "redis_maps R contents" and "cache_get R from_str key c = (v, c')"
  shows "(case v of
      Some x \<Rightarrow> (\<exists>raw. cached contents c key = Some raw \<and> from_str raw = Some x) \<and>
        cache_hits c' = cache_hits c + 1 \<and> cache_misses c' = cache_misses c
    | None \<Rightarrow> cache_hits c' = cache_hits c \<and> cache_misses c' = cache_misses c + 1) \<and>
    cached contents c' \<subseteq>\<^sub>m cached contents c"
proof -
  have "case v of Some x \<Rightarrow> cache_hits c' = cache_hits c + 1 \<and> cache_misses c' = cache_misses c
    | None \<Rightarrow> cache_hits c' = cache_hits c \<and> cache_misses c' = cache_misses c + 1"
    using assms(2)
    by (auto simp: cache_get_def record_cache_hit_def record_cache_miss_def Let_def split_beta
        split: option.splits reply.splits)
  then show ?thesis
    using cache_get_Some [OF assms(1)] cache_get_frame [OF assms] assms(2) by (auto split: option.splits)
qed

text \<open>A Redis that is a map, for the concrete instances.\<close>

definition map_redis :: "(string \<rightharpoonup> string) redis" where
  "map_redis =
     \<lparr>redis_get = (\<lambda>key m. (Answered (m key), m)),
      redis_set_ex = (\<lambda>key raw _ m. (Answered (), m(key \<mapsto> raw))),
      redis_del = (\<lambda>key m. (Answered (), m(key := None)))\<rparr>"

lemma map_redis_ok: "redis_maps map_redis (\<lambda>m. m)" "redis_deletes map_redis"
  by (auto simp: redis_maps_def redis_deletes_def map_redis_def map_le_def)

theorem cache_get_sound_witness:
  "fst (cache_get map_redis (\<lambda>s. Some (length s)) ''k'' (cache_from_manager [''k'' \<mapsto> ''abc''] cache_config_default)) =
   Some 3"
proof -
  let ?c = "cache_from_manager [''k'' \<mapsto> ''abc''] cache_config_default"
  obtain v c' where run: "cache_get map_redis (\<lambda>s. Some (length s)) ''k'' ?c = (v, c')" by fastforce
  have "v \<noteq> None" using run by (auto simp: cache_get_def cache_from_manager_def map_redis_def)
  then show ?thesis
    using cache_get_sound [OF map_redis_ok(1) run] run by (auto simp: cached_def cache_from_manager_def)
qed

end
