(* ===== verification/Auth.thy ===== *)
theory Auth
  imports Api_Error
begin

text \<open>
  Authentication, \<open>shorty-server/src/auth/mod.rs\<close>. The crates it calls are the record \<open>crypto\<close>, a
  parameter of the functions that use it: reading a key file, parsing PEM keys, encoding and decoding
  JWTs, hashing and checking passwords, and chrono's addition of seconds, which may panic. Key types
  are type variables. \<open>jwt_decode\<close> takes the reading of the clock. What the properties assume of the JWT
  crate is \<open>jwt_signs\<close>, its documented validation of a token it has signed.
\<close>

section \<open>Errors\<close>

datatype auth_error =
    InvalidCredentials
  | MissingToken
  | InvalidToken
  | TokenExpired
  | Forbidden

record auth_error_body =
  ab_code :: string
  ab_message :: string
  ab_request_id :: "string option"

definition auth_error_message :: "auth_error \<Rightarrow> string" where
  "auth_error_message e =
     (case e of
        InvalidCredentials \<Rightarrow> ''invalid credentials''
      | MissingToken \<Rightarrow> ''missing token''
      | InvalidToken \<Rightarrow> ''invalid token''
      | TokenExpired \<Rightarrow> ''token expired''
      | Forbidden \<Rightarrow> ''forbidden'')"

definition auth_into_response :: "id_scope \<Rightarrow> auth_error \<Rightarrow> auth_error_body http_response" where
  "auth_into_response scope e =
     (let status = (case e of
            InvalidCredentials \<Rightarrow> 401 | InvalidToken \<Rightarrow> 401 | TokenExpired \<Rightarrow> 401
          | MissingToken \<Rightarrow> 401 | Forbidden \<Rightarrow> 403)
      in \<lparr>resp_status = status, resp_headers = [],
          resp_body = \<lparr>ab_code = ''auth_error'', ab_message = auth_error_message e,
                       ab_request_id = current_request_id scope\<rparr>\<rparr>)"

section \<open>Claims, configuration and the libraries\<close>

record claims =
  cl_sub :: string
  cl_exp :: u64
  cl_iat :: u64
  cl_iss :: string
  cl_aud :: string
  cl_role :: string

text \<open>The algorithms \<open>load_keys\<close> tells apart; the library has more.\<close>

datatype algorithm = RS256 | RS384 | RS512 | ES256 | ES384 | Other_Algorithm string

record auth_config =
  ac_issuer :: string
  ac_audience :: string
  ac_access_token_ttl_secs :: i64
  ac_private_key_path :: string
  ac_public_key_path :: string
  ac_admin_username :: string
  ac_admin_password_hash :: string
  ac_algorithm :: algorithm

record validation =
  va_algorithm :: algorithm
  va_validate_exp :: bool
  va_leeway :: u64
  va_iss :: "string list"
  va_aud :: "string list"
  va_required :: "string list"

datatype jwt_error = ExpiredSignature | Other_Jwt_Error string

record ('ek, 'dk) crypto =
  read_to_string :: "string \<Rightarrow> string option"
  enc_from_rsa_pem :: "string \<Rightarrow> 'ek option"
  enc_from_ec_pem :: "string \<Rightarrow> 'ek option"
  dec_from_rsa_pem :: "string \<Rightarrow> 'dk option"
  dec_from_ec_pem :: "string \<Rightarrow> 'dk option"
  jwt_encode :: "algorithm \<Rightarrow> claims \<Rightarrow> 'ek \<Rightarrow> string option"
  jwt_decode :: "validation \<Rightarrow> string \<Rightarrow> 'dk \<Rightarrow> system_time \<Rightarrow> jwt_error + claims"
  hash_password :: "string \<Rightarrow> string"
  password_hash_valid :: "string \<Rightarrow> bool"
  password_matches :: "string \<Rightarrow> string \<Rightarrow> bool"
  utc_add_seconds :: "system_time \<Rightarrow> i64 \<Rightarrow> system_time run"
  manifest_dir :: string

definition auth_config_default :: "('ek, 'dk) crypto \<Rightarrow> auth_config" where
  "auth_config_default C =
     \<lparr>ac_issuer = ''shorty-service'',
      ac_audience = ''shorty-api'',
      ac_access_token_ttl_secs = 900,
      ac_private_key_path = ''../keys/jwt_private.pem'',
      ac_public_key_path = ''../keys/jwt_public.pem'',
      ac_admin_username = ''admin'',
      ac_admin_password_hash = hash_password C ''admin'',
      ac_algorithm = RS256\<rparr>"

text \<open>\<open>timestamp()\<close> is the whole seconds, rounded down; the casts to \<open>usize\<close> wrap.\<close>

definition timestamp :: "system_time \<Rightarrow> int" where
  "timestamp t = t div nanos_per_sec"

definition claims_new ::
  "('ek, 'dk) crypto \<Rightarrow> string \<Rightarrow> string \<Rightarrow> string \<Rightarrow> string \<Rightarrow> i64 \<Rightarrow> system_time \<Rightarrow> claims run" where
  "claims_new C sub role iss aud ttl_secs now =
     (case utc_add_seconds C now ttl_secs of
        Panic \<Rightarrow> Panic
      | Done expires \<Rightarrow>
          Done \<lparr>cl_sub = sub, cl_exp = of_int (timestamp expires), cl_iat = of_int (timestamp now),
                cl_iss = iss, cl_aud = aud, cl_role = role\<rparr>)"

section \<open>Passwords, keys and tokens\<close>

definition verify_password :: "('ek, 'dk) crypto \<Rightarrow> string \<Rightarrow> string \<Rightarrow> auth_error + unit" where
  "verify_password C password hash =
     (if \<not> password_hash_valid C hash then Inl InvalidCredentials
      else if password_matches C password hash then Inr () else Inl InvalidCredentials)"

text \<open>\<open>PathBuf::join\<close> of a relative path puts one separator between the parts.\<close>

definition resolve_path :: "string \<Rightarrow> string \<Rightarrow> string" where
  "resolve_path path dir =
     (if starts_with path ''/'' \<or> starts_with path ''~/'' then path
      else if dir = [] \<or> last dir = CHR ''/'' then dir @ path
      else dir @ ''/'' @ path)"

definition load_keys :: "('ek, 'dk) crypto \<Rightarrow> auth_config \<Rightarrow> auth_error + 'ek \<times> 'dk" where
  "load_keys C config =
     (case read_to_string C (resolve_path (ac_private_key_path config) (manifest_dir C)) of
        None \<Rightarrow> Inl InvalidToken
      | Some private_pem \<Rightarrow>
     (case read_to_string C (resolve_path (ac_public_key_path config) (manifest_dir C)) of
        None \<Rightarrow> Inl InvalidToken
      | Some public_pem \<Rightarrow>
     (let encoding_key =
            (if ac_algorithm config \<in> {RS256, RS384, RS512} then enc_from_rsa_pem C private_pem
             else if ac_algorithm config \<in> {ES256, ES384} then enc_from_ec_pem C private_pem
             else None);
          decoding_key =
            (if ac_algorithm config \<in> {RS256, RS384, RS512} then dec_from_rsa_pem C public_pem
             else if ac_algorithm config \<in> {ES256, ES384} then dec_from_ec_pem C public_pem
             else None)
      in (case encoding_key of
            None \<Rightarrow> Inl InvalidToken
          | Some ek \<Rightarrow>
              (case decoding_key of None \<Rightarrow> Inl InvalidToken | Some dk \<Rightarrow> Inr (ek, dk))))))"

definition create_token :: "('ek, 'dk) crypto \<Rightarrow> claims \<Rightarrow> 'ek \<Rightarrow> auth_error + string" where
  "create_token C claims encoding_key =
     (case jwt_encode C (ac_algorithm (auth_config_default C)) claims encoding_key of
        None \<Rightarrow> Inl InvalidToken
      | Some token \<Rightarrow> Inr token)"

definition token_validation :: "('ek, 'dk) crypto \<Rightarrow> validation" where
  "token_validation C =
     (let config = auth_config_default C
      in \<lparr>va_algorithm = ac_algorithm config, va_validate_exp = True, va_leeway = 30,
          va_iss = [ac_issuer config], va_aud = [ac_audience config],
          va_required = [''exp'', ''iss'', ''aud'']\<rparr>)"

definition validate_token ::
  "('ek, 'dk) crypto \<Rightarrow> string \<Rightarrow> 'dk \<Rightarrow> system_time \<Rightarrow> auth_error + claims" where
  "validate_token C token public_key now =
     (case jwt_decode C (token_validation C) token public_key now of
        Inr claims \<Rightarrow> Inr claims
      | Inl ExpiredSignature \<Rightarrow> Inl TokenExpired
      | Inl (Other_Jwt_Error _) \<Rightarrow> Inl InvalidToken)"

section \<open>Login and the middleware\<close>

record login_request =
  lq_username :: string
  lq_password :: string

record login_response =
  ls_access_token :: string
  ls_token_type :: string
  ls_expires_in :: i64

definition login_handler ::
  "('ek, 'dk) crypto \<Rightarrow> auth_config option \<Rightarrow> login_request \<Rightarrow> system_time \<Rightarrow>
   (auth_error + login_response) run" where
  "login_handler C auth req now =
     (case auth of
        None \<Rightarrow> Panic
      | Some config \<Rightarrow>
          if lq_username req \<noteq> ac_admin_username config then Done (Inl InvalidCredentials)
          else (case verify_password C (lq_password req) (ac_admin_password_hash config) of
             Inl e \<Rightarrow> Done (Inl e)
           | Inr _ \<Rightarrow>
          (case claims_new C (lq_username req) ''admin'' (ac_issuer config) (ac_audience config)
                  (ac_access_token_ttl_secs config) now of
             Panic \<Rightarrow> Panic
           | Done claims \<Rightarrow>
          (case load_keys C config of
             Inl e \<Rightarrow> Done (Inl e)
           | Inr (encoding_key, _) \<Rightarrow>
          (case create_token C claims encoding_key of
             Inl e \<Rightarrow> Done (Inl e)
           | Inr token \<Rightarrow>
               Done (Inr \<lparr>ls_access_token = token, ls_token_type = ''Bearer'',
                         ls_expires_in = ac_access_token_ttl_secs config\<rparr>))))))"

text \<open>
  The bearer token of a request, and the claims it carries under a configuration. \<open>auth_middleware\<close>
  runs the rest of the chain on the state \<open>'s\<close> with the user it has found, if authentication is on.
\<close>

definition bearer_token :: "http_request \<Rightarrow> auth_error + string" where
  "bearer_token req =
     (case header_text req ''Authorization'' of
        None \<Rightarrow> Inl MissingToken
      | Some auth_header \<Rightarrow>
          (case strip_prefix auth_header ''Bearer '' of
             None \<Rightarrow> Inl InvalidToken
           | Some token \<Rightarrow> Inr token))"

definition request_claims ::
  "('ek, 'dk) crypto \<Rightarrow> auth_config \<Rightarrow> http_request \<Rightarrow> system_time \<Rightarrow> auth_error + claims" where
  "request_claims C config req now =
     (case bearer_token req of
        Inl e \<Rightarrow> Inl e
      | Inr token \<Rightarrow>
          (case load_keys C config of
             Inl e \<Rightarrow> Inl e
           | Inr (_, decoding_key) \<Rightarrow> validate_token C token decoding_key now))"

definition auth_user_from_request ::
  "('ek, 'dk) crypto \<Rightarrow> http_request \<Rightarrow> system_time \<Rightarrow> auth_error + claims" where
  "auth_user_from_request C req now = request_claims C (auth_config_default C) req now"

definition auth_middleware ::
  "('ek, 'dk) crypto \<Rightarrow> auth_config option \<Rightarrow> (claims option \<Rightarrow> http_request \<Rightarrow> 's \<Rightarrow> 'r \<times> 's) \<Rightarrow>
   http_request \<Rightarrow> system_time \<Rightarrow> 's \<Rightarrow> (auth_error + 'r) \<times> 's" where
  "auth_middleware C auth run_next req now s =
     (case auth of
        None \<Rightarrow> let (r, s') = run_next None req s in (Inr r, s')
      | Some config \<Rightarrow>
          (case request_claims C config req now of
             Inl e \<Rightarrow> (Inl e, s)
           | Inr claims \<Rightarrow> let (r, s') = run_next (Some claims) req s in (Inr r, s')))"

section \<open>What the JWT library promises\<close>

text \<open>
  The documented validation of a token that \<open>encode\<close> made from \<open>claims\<close> with \<open>alg\<close>, checked with the key
  that belongs to it: the algorithm, then the expiry with its leeway, then issuer and audience. Every
  claim is present. The error text of a failed check is left open.
\<close>

definition token_expired :: "validation \<Rightarrow> claims \<Rightarrow> system_time \<Rightarrow> bool" where
  "token_expired v c now \<longleftrightarrow>
     va_validate_exp v \<and> int (unat (cl_exp c)) < timestamp now - int (unat (va_leeway v))"

definition jwt_checks :: "validation \<Rightarrow> algorithm \<Rightarrow> claims \<Rightarrow> system_time \<Rightarrow> jwt_error + claims \<Rightarrow> bool" where
  "jwt_checks v alg c now r \<longleftrightarrow>
     (if va_algorithm v \<noteq> alg then \<exists>m. r = Inl (Other_Jwt_Error m)
      else if token_expired v c now then r = Inl ExpiredSignature
      else if cl_iss c \<notin> set (va_iss v) \<or> cl_aud c \<notin> set (va_aud v)
      then \<exists>m. r = Inl (Other_Jwt_Error m)
      else r = Inr c)"

definition jwt_signs :: "('ek, 'dk) crypto \<Rightarrow> 'ek \<Rightarrow> 'dk \<Rightarrow> bool" where
  "jwt_signs C ek dk \<longleftrightarrow>
     (\<forall>alg c token v now. jwt_encode C alg c ek = Some token \<longrightarrow>
        jwt_checks v alg c now (jwt_decode C v token dk now))"

lemma jwt_signsD:
  "jwt_signs C ek dk \<Longrightarrow> jwt_encode C alg c ek = Some token \<Longrightarrow>
   jwt_checks v alg c now (jwt_decode C v token dk now)"
  by (simp add: jwt_signs_def)

lemma auth_config_default_simps [simp]:
  "ac_algorithm (auth_config_default C) = RS256"
  "ac_issuer (auth_config_default C) = ''shorty-service''"
  "ac_audience (auth_config_default C) = ''shorty-api''"
  by (simp_all add: auth_config_default_def)

lemma token_validation_simps [simp]:
  "va_algorithm (token_validation C) = RS256" "va_leeway (token_validation C) = 30"
  "va_validate_exp (token_validation C)" "va_iss (token_validation C) = [''shorty-service'']"
  "va_aud (token_validation C) = [''shorty-api'']"
  by (simp_all add: token_validation_def Let_def)

text \<open>What \<open>validate_token\<close> says of a token that \<open>create_token\<close> made.\<close>

lemma validate_created_token:
  assumes "jwt_signs C ek dk" and "create_token C c ek = Inr token"
  shows "validate_token C token dk now =
    (if int (unat (cl_exp c)) < timestamp now - 30 then Inl TokenExpired
     else if cl_iss c = ''shorty-service'' \<and> cl_aud c = ''shorty-api'' then Inr c
     else Inl InvalidToken)"
proof -
  have "jwt_encode C RS256 c ek = Some token"
    using assms(2) by (simp add: create_token_def split: option.splits)
  from jwt_signsD [OF assms(1) this, of "token_validation C" now] show ?thesis
    by (auto simp: jwt_checks_def token_expired_def validate_token_def split: if_splits)
qed

lemma bearer_token_Inr:
  "bearer_token req = Inr token \<longleftrightarrow>
     rq_header req ''Authorization'' = Some (Some (''Bearer '' @ token))"
  by (auto simp: bearer_token_def header_text_cases strip_prefix_Some strip_prefix_None
      starts_with_def split: option.splits)

lemma claims_new_Done:
  "claims_new C sub role iss aud ttl now = Done c \<Longrightarrow> cl_iss c = iss \<and> cl_aud c = aud \<and> cl_sub c = sub"
  by (auto simp: claims_new_def split: run.splits)

lemma login_handler_Inr:
  "login_handler C (Some config) lq now = Done (Inr resp) \<longleftrightarrow>
     lq_username lq = ac_admin_username config \<and>
     verify_password C (lq_password lq) (ac_admin_password_hash config) = Inr () \<and>
     (\<exists>c ek dk token.
        claims_new C (lq_username lq) ''admin'' (ac_issuer config) (ac_audience config)
          (ac_access_token_ttl_secs config) now = Done c \<and>
        load_keys C config = Inr (ek, dk) \<and> create_token C c ek = Inr token \<and>
        resp = \<lparr>ls_access_token = token, ls_token_type = ''Bearer'',
                 ls_expires_in = ac_access_token_ttl_secs config\<rparr>)"
  by (auto simp: login_handler_def split: sum.splits run.splits if_splits)

section \<open>A sample of the libraries\<close>

text \<open>
  Libraries that keep the promises, for the concrete instances: a token is the subject of its claims,
  and decoding knows the claims of one login, that of \<open>admin\<close> at second 1000.
\<close>

definition sample_claims :: "string \<Rightarrow> claims" where
  "sample_claims iss =
     \<lparr>cl_sub = ''admin'', cl_exp = 1900, cl_iat = 1000, cl_iss = iss, cl_aud = ''shorty-api'', cl_role = ''admin''\<rparr>"

definition sample_crypto :: "string \<Rightarrow> (unit, unit) crypto" where
  "sample_crypto iss =
     \<lparr>read_to_string = (\<lambda>_. Some ''pem''),
      enc_from_rsa_pem = (\<lambda>_. Some ()), enc_from_ec_pem = (\<lambda>_. Some ()),
      dec_from_rsa_pem = (\<lambda>_. Some ()), dec_from_ec_pem = (\<lambda>_. Some ()),
      jwt_encode = (\<lambda>alg c _. if alg = RS256 \<and> c = sample_claims iss then Some ''token'' else None),
      jwt_decode = (\<lambda>v token _ now.
         if va_algorithm v \<noteq> RS256 then Inl (Other_Jwt_Error ''algorithm'')
         else if token_expired v (sample_claims iss) now then Inl ExpiredSignature
         else if iss \<notin> set (va_iss v) \<or> ''shorty-api'' \<notin> set (va_aud v) then Inl (Other_Jwt_Error ''claims'')
         else Inr (sample_claims iss)),
      hash_password = (\<lambda>p. p), password_hash_valid = (\<lambda>_. True), password_matches = (\<lambda>p h. p = h),
      utc_add_seconds = (\<lambda>t n. Done (t + sint n * nanos_per_sec)),
      manifest_dir = ''/app''\<rparr>"

lemma sample_crypto_signs: "jwt_signs (sample_crypto iss) () ()"
  by (auto simp: jwt_signs_def sample_crypto_def jwt_checks_def sample_claims_def)

section \<open>Properties\<close>

text \<open>A login on the sample configuration.\<close>

lemma sample_login:
  fixes C cfg
  assumes "C = sample_crypto ''shorty-service''" and "cfg = auth_config_default C"
  shows "load_keys C cfg = Inr ((), ())"
    and "claims_new C ''admin'' ''admin'' ''shorty-service'' ''shorty-api'' 900 1000000000000 =
      Done (sample_claims ''shorty-service'')"
    and "ac_admin_username cfg = ''admin''" "ac_admin_password_hash cfg = ''admin''"
      "ac_access_token_ttl_secs cfg = 900"
    and "login_handler C (Some cfg) \<lparr>lq_username = ''admin'', lq_password = ''admin''\<rparr> 1000000000000 =
      Done (Inr \<lparr>ls_access_token = ''token'', ls_token_type = ''Bearer'', ls_expires_in = 900\<rparr>)"
proof -
  show keys: "load_keys C cfg = Inr ((), ())"
    by (simp add: assms load_keys_def sample_crypto_def)
  show claims: "claims_new C ''admin'' ''admin'' ''shorty-service'' ''shorty-api'' 900 1000000000000 =
      Done (sample_claims ''shorty-service'')"
    by (simp add: assms claims_new_def sample_crypto_def sample_claims_def timestamp_def)
  show cfg: "ac_admin_username cfg = ''admin''" "ac_admin_password_hash cfg = ''admin''"
    "ac_access_token_ttl_secs cfg = 900"
    by (simp_all add: assms auth_config_default_def sample_crypto_def)
  have "ac_issuer cfg = ''shorty-service''" "ac_audience cfg = ''shorty-api''" by (simp_all add: assms(2))
  then show "login_handler C (Some cfg) \<lparr>lq_username = ''admin'', lq_password = ''admin''\<rparr> 1000000000000 =
      Done (Inr \<lparr>ls_access_token = ''token'', ls_token_type = ''Bearer'', ls_expires_in = 900\<rparr>)"
    using keys claims
    by (simp add: login_handler_Inr cfg verify_password_def create_token_def)
       (simp add: assms sample_crypto_def)
qed

text \<open>C21: a login succeeds only with the name and the password of the administrator. Its token is
  accepted until 30 seconds after it expires, and refused as expired afterwards, where issuer and audience
  are the defaults; under any other configured issuer or audience the server refuses its own tokens.\<close>

theorem login_then_access:
  assumes "jwt_signs C ek dk" and "load_keys C config = Inr (ek, dk)"
    and "login_handler C (Some config) lq t0 = Done (Inr resp)"
    and "rq_header req ''Authorization'' = Some (Some (''Bearer '' @ ls_access_token resp))"
  shows "lq_username lq = ac_admin_username config \<and>
    verify_password C (lq_password lq) (ac_admin_password_hash config) = Inr () \<and>
    (\<exists>c. claims_new C (lq_username lq) ''admin'' (ac_issuer config) (ac_audience config)
           (ac_access_token_ttl_secs config) t0 = Done c \<and>
       request_claims C config req t =
         (if int (unat (cl_exp c)) < timestamp t - 30 then Inl TokenExpired
          else if ac_issuer config = ''shorty-service'' \<and> ac_audience config = ''shorty-api'' then Inr c
          else Inl InvalidToken))"
proof -
  obtain c token where login: "lq_username lq = ac_admin_username config"
      "verify_password C (lq_password lq) (ac_admin_password_hash config) = Inr ()"
    and c: "claims_new C (lq_username lq) ''admin'' (ac_issuer config) (ac_audience config)
      (ac_access_token_ttl_secs config) t0 = Done c"
    and token: "create_token C c ek = Inr token" "ls_access_token resp = token"
    using assms(2,3) by (auto simp: login_handler_Inr)
  have "bearer_token req = Inr token"
    using assms(4) token(2) by (simp add: bearer_token_Inr)
  then have "request_claims C config req t = validate_token C token dk t"
    using assms(2) by (simp add: request_claims_def)
  then show ?thesis
    using login c validate_created_token [OF assms(1) token(1), of t] claims_new_Done [OF c] by auto
qed

theorem login_then_access_witness:
  "request_claims (sample_crypto ''shorty-service'') (auth_config_default (sample_crypto ''shorty-service''))
     \<lparr>rq_method = ''GET'', rq_path = ''/'', rq_header = (\<lambda>_. Some (Some ''Bearer token'')), rq_remote = None\<rparr>
     1930000000000 = Inr (sample_claims ''shorty-service'')"
proof -
  let ?C = "sample_crypto ''shorty-service''"
  let ?req = "\<lparr>rq_method = ''GET'', rq_path = ''/'', rq_header = (\<lambda>_. Some (Some ''Bearer token'')), rq_remote = None\<rparr>"
  note sample = sample_login [OF refl refl]
  show ?thesis
    using login_then_access [OF sample_crypto_signs sample(1,6), of ?req 1930000000000] sample(2)
    by (simp add: sample(3-5) sample_claims_def timestamp_def)
qed

end
