(* ===== verification/Handlers.thy ===== *)
theory Handlers
  imports Dto Cache Config Stats_Storage
begin

text \<open>
  The HTTP handlers, \<open>shorty-server/src/api/handlers.rs\<close>. A handler runs on the application state
  (the storage behind \<open>Arc<dyn LinkRepository>\<close>, the statistics storage, the cache) and returns a
  result or an \<open>AppError\<close>, or panics; \<open>h_bind\<close> is Rust's \<open>?\<close>. What it calls outside the repository is
  the record \<open>services\<close>: the URL parser, JSON and base64. Random codes and clock readings are
  functions from the attempt to its value.
\<close>

section \<open>State, services and the order of effects\<close>

record ('s, 'r) app_state =
  as_repo :: 's
  as_stats :: stats_storage
  as_cache :: "'r cache"

record ('s, 'r) services =
  sv_repo :: "'s link_repository"
  sv_redis :: "'r redis"
  sv_config :: config
  url_parse :: "string \<Rightarrow> string + url"
  response_to_json :: "link_response \<Rightarrow> string option"
  response_from_json :: "string \<Rightarrow> link_response option"
  cursor_to_json :: "cursor \<Rightarrow> string option"
  cursor_from_json :: "string \<Rightarrow> cursor option"
  base64_encode :: "string \<Rightarrow> string"
  base64_decode :: "string \<Rightarrow> string option"

type_synonym ('s, 'r, 'a) handler =
  "('s, 'r) app_state \<Rightarrow> (app_error + 'a) run \<times> ('s, 'r) app_state"

definition h_result :: "app_error + 'a \<Rightarrow> ('s, 'r, 'a) handler" where
  "h_result r s = (Done r, s)"

definition h_run :: "(app_error + 'a) run \<Rightarrow> ('s, 'r, 'a) handler" where
  "h_run r s = (r, s)"

definition h_bind ::
  "('s, 'r, 'a) handler \<Rightarrow> ('a \<Rightarrow> ('s, 'r, 'b) handler) \<Rightarrow> ('s, 'r, 'b) handler" where
  "h_bind m f s =
     (case m s of
        (Panic, s') \<Rightarrow> (Panic, s')
      | (Done (Inl e), s') \<Rightarrow> (Done (Inl e), s')
      | (Done (Inr v), s') \<Rightarrow> f v s')"

definition on_repo :: "('s \<Rightarrow> 'a \<times> 's) \<Rightarrow> ('s, 'r) app_state \<Rightarrow> 'a \<times> ('s, 'r) app_state" where
  "on_repo f s = (let (r, repo) = f (as_repo s) in (r, s\<lparr>as_repo := repo\<rparr>))"

definition h_repo :: "('s \<Rightarrow> (repo_error + 'a) \<times> 's) \<Rightarrow> ('s, 'r, 'a) handler" where
  "h_repo f s = (let (r, s') = on_repo f s in (Done (repo_result r), s'))"

definition h_invalidate :: "('s, 'r) services \<Rightarrow> string \<Rightarrow> ('s, 'r, unit) handler" where
  "h_invalidate sv key s =
     (Done (Inr ()), s\<lparr>as_cache := cache_invalidate (sv_redis sv) key (as_cache s)\<rparr>)"

section \<open>Creating links\<close>

definition try_insert_link ::
  "('s, 'r) services \<Rightarrow> string \<Rightarrow> string \<Rightarrow> system_time option \<Rightarrow> system_time \<Rightarrow>
   ('s, 'r) app_state \<Rightarrow> (repo_error + unit) \<times> ('s, 'r) app_state" where
  "try_insert_link sv code target_url expires_at now s =
     (let l = short_link_new code target_url now;
          l = (case expires_at of Some at \<Rightarrow> with_expires_at l at | None \<Rightarrow> l)
      in on_repo (repo_insert (sv_repo sv) l) s)"

definition insert_link ::
  "('s, 'r) services \<Rightarrow> string \<Rightarrow> string \<Rightarrow> system_time option \<Rightarrow> system_time \<Rightarrow> ('s, 'r, unit) handler" where
  "insert_link sv code target_url expires_at now s =
     (let (r, s') = try_insert_link sv code target_url expires_at now s in (Done (repo_result r), s'))"

text \<open>The loop over the attempts: \<open>i\<close> counts them from zero, \<open>n\<close> are left.\<close>

fun generate_code_from ::
  "('s, 'r) services \<Rightarrow> string \<Rightarrow> system_time option \<Rightarrow> (nat \<Rightarrow> string) \<Rightarrow> (nat \<Rightarrow> system_time) \<Rightarrow>
   nat \<Rightarrow> nat \<Rightarrow> ('s, 'r, string) handler" where
  "generate_code_from sv target_url expires_at codes clock i 0 s =
     (Done (Inl (App_Internal (''failed to generate a unique code in '' @
        show_nat (unat (max_generate_attempts (sv_config sv))) @ '' attempts''))), s)"
| "generate_code_from sv target_url expires_at codes clock i (Suc n) s =
     (case try_insert_link sv (codes i) target_url expires_at (clock i) s of
        (Inr _, s') \<Rightarrow> (Done (Inr (codes i)), s')
      | (Inl (CodeTaken _), s') \<Rightarrow> generate_code_from sv target_url expires_at codes clock (Suc i) n s'
      | (Inl other, s') \<Rightarrow> (Done (Inl (app_error_of_repo other)), s'))"

definition generate_code ::
  "('s, 'r) services \<Rightarrow> string \<Rightarrow> system_time option \<Rightarrow> (nat \<Rightarrow> string) \<Rightarrow> (nat \<Rightarrow> system_time) \<Rightarrow>
   ('s, 'r, string) handler" where
  "generate_code sv target_url expires_at codes clock =
     generate_code_from sv target_url expires_at codes clock 0
       (unat (max_generate_attempts (sv_config sv)))"

definition links_path :: "string \<Rightarrow> string" where
  "links_path code = ''/api/v1/links/'' @ code"

text \<open>The \<open>match req.custom_code\<close> of \<open>create_link\<close>.\<close>

definition insert_code ::
  "('s, 'r) services \<Rightarrow> string option \<Rightarrow> string \<Rightarrow> system_time option \<Rightarrow> (nat \<Rightarrow> string) \<Rightarrow>
   (nat \<Rightarrow> system_time) \<Rightarrow> ('s, 'r, string) handler" where
  "insert_code sv custom_code target_url expires_at codes clock =
     (case custom_code of
        Some code \<Rightarrow>
          h_bind (h_result (validate_custom_code code)) (\<lambda>_.
          h_bind (insert_link sv code target_url expires_at (clock 0)) (\<lambda>_.
          h_result (Inr code)))
      | None \<Rightarrow> generate_code sv target_url expires_at codes clock)"

definition create_link ::
  "('s, 'r) services \<Rightarrow> create_link_request \<Rightarrow> system_time \<Rightarrow> (nat \<Rightarrow> string) \<Rightarrow> (nat \<Rightarrow> system_time) \<Rightarrow>
   ('s, 'r, link_response http_response) handler" where
  "create_link sv req now codes clock =
     h_bind (h_result (parse_target_url (url_parse sv) (cr_target_url req))) (\<lambda>target_url.
     h_bind (h_run (expires_at_from_ttl (cr_ttl_seconds req) now)) (\<lambda>expires_at.
     h_bind (insert_code sv (cr_custom_code req) (url_text target_url) expires_at codes clock) (\<lambda>code.
     h_bind (h_repo (repo_stats (sv_repo sv) code)) (\<lambda>stats.
     h_result (Inr \<lparr>resp_status = 201, resp_headers = [(''location'', links_path code)],
                    resp_body = link_response_of_stats stats\<rparr>)))))"

section \<open>The other operations on links\<close>

definition update_link ::
  "('s, 'r) services \<Rightarrow> string \<Rightarrow> update_link_request \<Rightarrow> system_time \<Rightarrow> ('s, 'r, link_response) handler" where
  "update_link sv code req now =
     h_bind (h_result (parse_target_url (url_parse sv) (ur_target_url req))) (\<lambda>target_url.
     h_bind (h_repo (repo_update (sv_repo sv) code (url_text target_url) (ur_version req) now)) (\<lambda>l.
     h_bind (h_invalidate sv (link_key code)) (\<lambda>_.
     h_result (Inr (link_response_of_link l)))))"

text \<open>\<open>offset\<close> is the random number of the cache's time to live.\<close>

definition get_link :: "('s, 'r) services \<Rightarrow> string \<Rightarrow> i64 \<Rightarrow> ('s, 'r, link_response) handler" where
  "get_link sv code offset s =
     (let key = link_key code;
          (cached, c) = cache_get (sv_redis sv) (response_from_json sv) key (as_cache s);
          s = s\<lparr>as_cache := c\<rparr>
      in (case cached of
            Some response \<Rightarrow> (Done (Inr response), s)
          | None \<Rightarrow>
              h_bind (h_repo (repo_stats (sv_repo sv) code)) (\<lambda>stats s.
                let response = link_response_of_stats stats;
                    (r, c) = cache_set (sv_redis sv) (response_to_json sv) offset key response (as_cache s)
                in (case r of Panic \<Rightarrow> Panic | Done _ \<Rightarrow> Done (Inr response), s\<lparr>as_cache := c\<rparr>)) s))"

text \<open>\<open>String::from_utf8\<close> accepts the well-formed sequences of the Unicode standard.\<close>

definition utf8_tail :: "nat \<Rightarrow> bool" where
  "utf8_tail b \<longleftrightarrow> 128 \<le> b \<and> b \<le> 191"

fun utf8_valid :: "nat list \<Rightarrow> bool" where
  "utf8_valid [] = True"
| "utf8_valid (a # bs) =
     (if a < 128 then utf8_valid bs
      else (case bs of
         [] \<Rightarrow> False
       | b # cs \<Rightarrow>
           if 194 \<le> a \<and> a \<le> 223 then utf8_tail b \<and> utf8_valid cs
           else (case cs of
              [] \<Rightarrow> False
            | c # ds \<Rightarrow>
                if a = 224 then 160 \<le> b \<and> b \<le> 191 \<and> utf8_tail c \<and> utf8_valid ds
                else if a = 237 then 128 \<le> b \<and> b \<le> 159 \<and> utf8_tail c \<and> utf8_valid ds
                else if 225 \<le> a \<and> a \<le> 239 then utf8_tail b \<and> utf8_tail c \<and> utf8_valid ds
                else (case ds of
                   [] \<Rightarrow> False
                 | d # es \<Rightarrow>
                     (if a = 240 then 144 \<le> b \<and> b \<le> 191
                      else if 241 \<le> a \<and> a \<le> 243 then utf8_tail b
                      else a = 244 \<and> 128 \<le> b \<and> b \<le> 143) \<and>
                     utf8_tail c \<and> utf8_tail d \<and> utf8_valid es))))"

definition from_utf8 :: "string \<Rightarrow> string option" where
  "from_utf8 s = (if utf8_valid (map of_char s) then Some s else None)"

definition list_limit :: "(string \<Rightarrow> string option) \<Rightarrow> u64" where
  "list_limit params =
     min (case Option.bind (params ''limit'') parse_u64 of Some l \<Rightarrow> l | None \<Rightarrow> 20) 100"

definition list_cursor :: "('s, 'r) services \<Rightarrow> (string \<Rightarrow> string option) \<Rightarrow> cursor option" where
  "list_cursor sv params =
     Option.bind (params ''cursor'') (\<lambda>c.
     Option.bind (base64_decode sv c) (\<lambda>decoded.
     Option.bind (from_utf8 decoded) (\<lambda>decoded_str.
     cursor_from_json sv decoded_str)))"

definition encode_cursor :: "('s, 'r) services \<Rightarrow> cursor \<Rightarrow> string run" where
  "encode_cursor sv c =
     (case cursor_to_json sv c of None \<Rightarrow> Panic | Some json \<Rightarrow> Done (base64_encode sv json))"

definition list_links ::
  "('s, 'r) services \<Rightarrow> (string \<Rightarrow> string option) \<Rightarrow> ('s, 'r, list_links_response) handler" where
  "list_links sv params s =
     (let limit = list_limit params;
          cursor = list_cursor sv params;
          (r, s') = on_repo (repo_list (sv_repo sv) limit cursor) s
      in (case r of
            Panic \<Rightarrow> (Panic, s')
          | Done (Inl e) \<Rightarrow> (Done (Inl (app_error_of_repo e)), s')
          | Done (Inr (links, next_cursor)) \<Rightarrow>
              (run_bind
                 (case next_cursor of
                    None \<Rightarrow> Done None
                  | Some c \<Rightarrow> run_bind (encode_cursor sv c) (\<lambda>t. Done (Some t)))
                 (\<lambda>next. Done (Inr \<lparr>ll_links = map link_response_of_link links,
                                  ll_next_cursor = next\<rparr>)), s')))"

text \<open>\<open>now\<close> is the reading the expiry is checked at, \<open>hit\<close> the one the hit is recorded at.\<close>

definition redirect ::
  "('s, 'r) services \<Rightarrow> string \<Rightarrow> system_time \<Rightarrow> system_time \<Rightarrow> ('s, 'r, unit http_response) handler" where
  "redirect sv code now hit =
     h_bind (h_repo (repo_get (sv_repo sv) code)) (\<lambda>l.
     if is_expired l now then h_result (Inl App_NotFound)
     else h_bind (h_repo (repo_record_hit (sv_repo sv) code hit)) (\<lambda>_.
     h_bind (h_invalidate sv (link_key code)) (\<lambda>_.
     h_result (Inr \<lparr>resp_status = 307, resp_headers = [(''location'', link_target_url l)],
                    resp_body = ()\<rparr>))))"

definition delete_link :: "('s, 'r) services \<Rightarrow> string \<Rightarrow> ('s, 'r, nat) handler" where
  "delete_link sv code =
     h_bind (h_repo (repo_remove (sv_repo sv) code)) (\<lambda>_.
     h_bind (h_invalidate sv (link_key code)) (\<lambda>_.
     h_result (Inr 204)))"

definition fallback_404 :: app_error where
  "fallback_404 = App_NotFound"

section \<open>Technical endpoints\<close>

definition healthz :: string where
  "healthz = ''ok''"

text \<open>\<open>pool\<close> is the reply of \<open>SELECT 1\<close> within two seconds, \<open>None\<close> without a database.\<close>

definition readyz :: "bool \<Rightarrow> unit reply option \<Rightarrow> nat" where
  "readyz cancelled pool =
     (if cancelled then 503
      else (case pool of
              Some (Answered _) \<Rightarrow> 200
            | Some Failed \<Rightarrow> 503
            | Some TimedOut \<Rightarrow> 503
            | None \<Rightarrow> 200))"

text \<open>The version of the package, from the workspace.\<close>

definition service_version :: string where
  "service_version = ''0.1.0''"

text \<open>
  The two slow endpoints answer after a thread has slept: one of the blocking pool, or the worker that
  runs the handler, which then runs no other.
\<close>

datatype thread = Worker | Blocking_Pool

definition slow :: "thread \<times> int \<times> string" where
  "slow = (Blocking_Pool, 2 * nanos_per_sec, ''done: spawn_blocking kept workers free\<newline>'')"

definition slow_blocking :: "thread \<times> int \<times> string" where
  "slow_blocking = (Worker, 2 * nanos_per_sec, ''done: but a worker thread was blocked for 2s!\<newline>'')"

section \<open>Running handlers\<close>

lemma h_bind_Inr:
  "h_bind m f s = (Done (Inr v), s') \<longleftrightarrow>
     (\<exists>x s1. m s = (Done (Inr x), s1) \<and> f x s1 = (Done (Inr v), s'))"
  by (auto simp: h_bind_def split: prod.splits run.splits sum.splits)

lemma h_bind_Inl:
  "h_bind m f s = (Done (Inl e), s') \<longleftrightarrow>
     m s = (Done (Inl e), s') \<or> (\<exists>x s1. m s = (Done (Inr x), s1) \<and> f x s1 = (Done (Inl e), s'))"
  by (auto simp: h_bind_def split: prod.splits run.splits sum.splits)

lemma h_bind_Panic:
  "h_bind m f s = (Panic, s') \<longleftrightarrow>
     m s = (Panic, s') \<or> (\<exists>x s1. m s = (Done (Inr x), s1) \<and> f x s1 = (Panic, s'))"
  by (auto simp: h_bind_def split: prod.splits run.splits sum.splits)

lemma h_result_eq: "h_result r s = (Done q, s') \<longleftrightarrow> r = q \<and> s' = s" "h_result r s \<noteq> (Panic, s')"
  by (auto simp: h_result_def)

lemma h_run_eq: "h_run r s = (q, s') \<longleftrightarrow> r = q \<and> s' = s"
  by (auto simp: h_run_def)

lemma on_repo_eq:
  "on_repo f s = (r, s') \<longleftrightarrow> (\<exists>repo. f (as_repo s) = (r, repo) \<and> s' = s\<lparr>as_repo := repo\<rparr>)"
  by (auto simp: on_repo_def split: prod.splits)

lemma h_repo_Inr:
  "h_repo f s = (Done (Inr v), s') \<longleftrightarrow>
     (\<exists>repo. f (as_repo s) = (Inr v, repo) \<and> s' = s\<lparr>as_repo := repo\<rparr>)"
  by (auto simp: h_repo_def on_repo_def repo_result_Inr split: prod.splits)

lemma h_repo_Inl:
  "h_repo f s = (Done (Inl e), s') \<longleftrightarrow>
     (\<exists>repo x. f (as_repo s) = (Inl x, repo) \<and> e = app_error_of_repo x \<and> s' = s\<lparr>as_repo := repo\<rparr>)"
  by (auto simp: h_repo_def on_repo_def repo_result_def split: prod.splits sum.splits)

lemma h_repo_Panic: "h_repo f s \<noteq> (Panic, s')"
  by (auto simp: h_repo_def split: prod.splits)

lemma h_invalidate_Inr:
  "h_invalidate sv key s = (r, s') \<longleftrightarrow>
     r = Done (Inr ()) \<and> s' = s\<lparr>as_cache := cache_invalidate (sv_redis sv) key (as_cache s)\<rparr>"
  by (auto simp: h_invalidate_def)

definition new_link :: "string \<Rightarrow> string \<Rightarrow> system_time option \<Rightarrow> system_time \<Rightarrow> short_link" where
  "new_link code url expires now =
     (case expires of Some at \<Rightarrow> with_expires_at (short_link_new code url now) at
      | None \<Rightarrow> short_link_new code url now)"

lemma new_link_simps [simp]:
  "link_code (new_link code url expires now) = code"
  "link_target_url (new_link code url expires now) = url"
  "link_expires_at (new_link code url expires now) = expires"
  "link_version (new_link code url expires now) = 1"
  "link_created_at (new_link code url expires now) = now"
  by (simp_all add: new_link_def short_link_new_def with_expires_at_def split: option.split)

lemma try_insert_link_eq:
  "try_insert_link sv code url expires now = on_repo (repo_insert (sv_repo sv) (new_link code url expires now))"
  by (simp add: try_insert_link_def new_link_def fun_eq_iff Let_def)

lemma insert_link_eq:
  "insert_link sv code url expires now =
     h_repo (repo_insert (sv_repo sv) (new_link code url expires now))"
  by (simp add: insert_link_def try_insert_link_eq h_repo_def fun_eq_iff Let_def)

lemmas handler_steps =
  h_bind_Inr h_bind_Inl h_bind_Panic h_result_eq h_run_eq h_repo_Inr h_repo_Inl h_repo_Panic
  h_invalidate_Inr

text \<open>A property of the state that a handler keeps whatever it returns.\<close>

definition preserves :: "(('s, 'r) app_state \<Rightarrow> bool) \<Rightarrow> ('s, 'r, 'a) handler \<Rightarrow> bool" where
  "preserves I m \<longleftrightarrow> (\<forall>s. I s \<longrightarrow> I (snd (m s)))"

lemma preserves_bind:
  "preserves I m \<Longrightarrow> (\<And>x. preserves I (f x)) \<Longrightarrow> preserves I (h_bind m f)"
  unfolding preserves_def h_bind_def
  by (auto split: prod.splits run.splits sum.splits)

lemma preserves_result [simp]: "preserves I (h_result r)" "preserves I (h_run r')"
  by (simp_all add: preserves_def h_result_def h_run_def)

lemma preserves_repo:
  "(\<And>s. J s \<Longrightarrow> J (snd (f s))) \<Longrightarrow> preserves (\<lambda>s. J (as_repo s)) (h_repo f)"
  by (simp add: preserves_def h_repo_def on_repo_def Let_def split_beta)

lemma preserves_invalidate [simp]: "preserves (\<lambda>s. J (as_repo s)) (h_invalidate sv key)"
  by (simp add: preserves_def h_invalidate_def)

lemma preservesD: "preserves I m \<Longrightarrow> I s \<Longrightarrow> I (snd (m s))"
  by (simp add: preserves_def)

section \<open>What the handlers do to any repository\<close>

text \<open>What every insertion of the requested link keeps, creating a link keeps.\<close>

lemma generate_preserves:
  assumes "\<And>c t r. J r \<Longrightarrow> J (snd (repo_insert (sv_repo sv) (new_link c url expires t) r))" and "J (as_repo s)"
  shows "J (as_repo (snd (generate_code_from sv url expires codes clock i n s)))"
  using assms(2)
proof (induction n arbitrary: i s)
  case (Suc n)
  obtain r repo where step: "repo_insert (sv_repo sv) (new_link (codes i) url expires (clock i)) (as_repo s) = (r, repo)"
    by fastforce
  have "J repo" using assms(1) [OF Suc.prems, of "codes i" "clock i"] step by simp
  then show ?case
    using Suc.IH [of "s\<lparr>as_repo := repo\<rparr>" "Suc i"]
    by (auto simp: try_insert_link_eq on_repo_def step split: sum.splits repo_error.splits)
qed simp

lemma insert_code_preserves:
  assumes "\<And>c t r. J r \<Longrightarrow> J (snd (repo_insert (sv_repo sv) (new_link c url expires t) r))"
  shows "preserves (\<lambda>s. J (as_repo s)) (insert_code sv custom url expires codes clock)"
proof (cases custom)
  case None
  have "J (as_repo (snd (generate_code_from sv url expires codes clock i n s)))" if "J (as_repo s)" for i n s
    by (rule generate_preserves [where J = J]) (fact assms, fact that)
  then show ?thesis by (simp add: None insert_code_def generate_code_def preserves_def)
next
  case (Some code)
  show ?thesis
    unfolding insert_code_def Some option.case insert_link_eq
    by (intro preserves_bind preserves_result preserves_repo assms)
qed

text \<open>The links of \<open>v\<close> are still there, unchanged, and the invariant holds.\<close>

definition keeps :: "('s \<Rightarrow> bool) \<Rightarrow> ('s \<Rightarrow> link_view) \<Rightarrow> link_view \<Rightarrow> 's \<Rightarrow> bool" where
  "keeps I view v s \<longleftrightarrow> I s \<and> v \<subseteq>\<^sub>m view s"

text \<open>A code is inserted only where there was none, and with a count of zero.\<close>

definition created :: "link_view \<Rightarrow> string \<Rightarrow> string \<Rightarrow> bool \<Rightarrow> link_stats \<Rightarrow> bool" where
  "created v code url expires st \<longleftrightarrow>
     v code = None \<and> stats_hits st = 0 \<and> link_version (stats_link st) = 1 \<and>
     link_target_url (stats_link st) = url \<and> (link_expires_at (stats_link st) \<noteq> None \<longleftrightarrow> expires)"

context repository
begin

lemma keeps_insert: "keeps inv view v s \<Longrightarrow> keeps inv view v (snd (repo_insert R l s))"
  using insert_inv [of s l] insert_ok [of s l] insert_err_view [of s l]
  by (cases "repo_insert R l s"; cases "fst (repo_insert R l s)")
     (auto simp: keeps_def map_le_def dom_def)

lemma keeps_stats: "keeps inv view v s \<Longrightarrow> keeps inv view v (snd (repo_stats R c s))"
  by (simp add: keeps_def stats_inv stats_view)

lemma insert_code_keeps:
  assumes "sv_repo sv = R"
  shows "preserves (\<lambda>s. keeps inv view v (as_repo s)) (insert_code sv custom url expires codes clock)"
  by (rule insert_code_preserves [where J = "keeps inv view v"]) (simp add: assms keeps_insert)

lemma create_link_keeps:
  assumes "sv_repo sv = R"
  shows "preserves (\<lambda>s. keeps inv view v (as_repo s)) (create_link sv req now codes clock)"
  unfolding create_link_def assms
  by (intro preserves_bind preserves_result preserves_repo keeps_stats insert_code_keeps assms)

lemma insert_created:
  "inv s \<Longrightarrow> repo_insert R (new_link code url expires now) s = (Inr u, s') \<Longrightarrow>
   \<exists>st. created (view s) code url (expires \<noteq> None) st \<and> view s' = (view s)(code \<mapsto> st)"
  using insert_ok [of s "new_link code url expires now" s'] by (auto simp: created_def)

lemma generate_created:
  assumes "sv_repo sv = R" and "inv (as_repo s)"
    and "generate_code_from sv url expires codes clock i n s = (Done (Inr code), s')"
  shows "\<exists>st. created (view (as_repo s)) code url (expires \<noteq> None) st \<and>
    view (as_repo s') = (view (as_repo s))(code \<mapsto> st)"
  using assms(2,3)
proof (induction n arbitrary: i s)
  case (Suc n)
  obtain r repo where step: "repo_insert R (new_link (codes i) url expires (clock i)) (as_repo s) = (r, repo)"
    by fastforce
  have repo: "inv repo" using insert_inv [OF Suc.prems(1), of "new_link (codes i) url expires (clock i)"] step by simp
  show ?case
  proof (cases r)
    case (Inr u)
    then show ?thesis
      using Suc.prems insert_created [OF Suc.prems(1) step [unfolded Inr]]
      by (auto simp: try_insert_link_eq assms(1) on_repo_def step)
  next
    case (Inl e)
    then have "view repo = view (as_repo s)" using insert_err [OF Suc.prems(1)] step by simp
    then show ?thesis
      using Suc.prems Suc.IH [of "s\<lparr>as_repo := repo\<rparr>" "Suc i"] repo Inl
      by (auto simp: try_insert_link_eq assms(1) on_repo_def step split: repo_error.splits)
  qed
qed simp

lemma insert_code_created:
  assumes "sv_repo sv = R" and "inv (as_repo s)"
    and "insert_code sv custom url expires codes clock s = (Done (Inr code), s')"
  shows "\<exists>st. created (view (as_repo s)) code url (expires \<noteq> None) st \<and>
    view (as_repo s') = (view (as_repo s))(code \<mapsto> st)"
proof (cases custom)
  case None
  then show ?thesis
    using assms(3) generate_created [OF assms(1,2), of url expires codes clock 0]
    by (simp add: insert_code_def generate_code_def)
next
  case (Some c)
  then obtain repo where "repo_insert R (new_link code url expires (clock 0)) (as_repo s) = (Inr (), repo)"
    and "s' = s\<lparr>as_repo := repo\<rparr>"
    using assms(3) by (auto simp: insert_code_def insert_link_eq handler_steps assms(1))
  then show ?thesis using insert_created [OF assms(2)] by simp
qed

lemma insert_code_custom:
  "insert_code sv (Some code) url expires codes clock s = (Done (Inr c), s') \<Longrightarrow>
   c = code \<and> validate_custom_code code = Inr ()"
  by (auto simp: insert_code_def insert_link_eq handler_steps)

lemma insert_code_inv:
  assumes "sv_repo sv = R" and "inv (as_repo s)"
    and "insert_code sv custom url expires codes clock s = (r, s')"
  shows "inv (as_repo s')"
  using preservesD [OF insert_code_keeps [OF assms(1)], of "Map.empty" s custom url expires codes clock]
    assms(2,3) by (simp add: keeps_def)

lemma create_link_created:
  assumes sv: "sv_repo sv = R" and inv: "inv (as_repo s)"
    and run: "create_link sv req now codes clock s = (Done (Inr resp), s')"
  shows "\<exists>u code st. url_parse sv (cr_target_url req) = Inr u \<and> url_scheme u \<in> {''http'', ''https''} \<and>
    (case cr_custom_code req of None \<Rightarrow> True | Some c \<Rightarrow> code = c \<and> validate_custom_code c = Inr ()) \<and>
    (case cr_ttl_seconds req of None \<Rightarrow> True | Some ttl \<Rightarrow> 60 \<le> ttl) \<and>
    created (view (as_repo s)) code (url_text u) (cr_ttl_seconds req \<noteq> None) st \<and>
    view (as_repo s') = (view (as_repo s))(code \<mapsto> st) \<and>
    resp = \<lparr>resp_status = 201, resp_headers = [(''location'', links_path code)],
            resp_body = link_response_of_stats st\<rparr>"
proof -
  obtain u expires code s1 st repo where
    u: "parse_target_url (url_parse sv) (cr_target_url req) = Inr u" and
    e: "expires_at_from_ttl (cr_ttl_seconds req) now = Done (Inr expires)" and
    c: "insert_code sv (cr_custom_code req) (url_text u) expires codes clock s = (Done (Inr code), s1)" and
    st: "repo_stats R code (as_repo s1) = (Inr st, repo)" and s': "s' = s1\<lparr>as_repo := repo\<rparr>" and
    resp: "resp = \<lparr>resp_status = 201, resp_headers = [(''location'', links_path code)],
                 resp_body = link_response_of_stats st\<rparr>"
    using run sv by (auto simp: create_link_def handler_steps)
  obtain st0 where cr: "created (view (as_repo s)) code (url_text u) (expires \<noteq> None) st0"
    and v1: "view (as_repo s1) = (view (as_repo s))(code \<mapsto> st0)"
    using insert_code_created [OF sv inv c] by blast
  have "view repo = view (as_repo s1)" and "view (as_repo s1) code = Some st"
    using stats_ok [OF insert_code_inv [OF sv inv c] st] by simp_all
  moreover have "cr_ttl_seconds req = None \<longleftrightarrow> expires = None"
    and "case cr_ttl_seconds req of None \<Rightarrow> True | Some ttl \<Rightarrow> 60 \<le> ttl"
    using e expires_at_from_ttl_cases [of "cr_ttl_seconds req" now]
    by (cases expires; auto split: option.split)+
  moreover have "case cr_custom_code req of None \<Rightarrow> True
      | Some x \<Rightarrow> code = x \<and> validate_custom_code x = Inr ()"
    using c by (auto split: option.split dest: insert_code_custom)
  ultimately show ?thesis using u cr v1 resp s' by (auto simp: parse_target_url_Inr)
qed

lemma redirect_ok:
  assumes sv: "sv_repo sv = R" and inv: "inv (as_repo s)"
    and run: "redirect sv code now hit s = (Done (Inr resp), s')"
  shows "\<exists>st. view (as_repo s) code = Some st \<and> \<not> is_expired (stats_link st) now \<and>
    resp = \<lparr>resp_status = 307, resp_headers = [(''location'', link_target_url (stats_link st))],
            resp_body = ()\<rparr> \<and>
    view (as_repo s') = (view (as_repo s))(code \<mapsto> st\<lparr>stats_hits := stats_hits st + 1\<rparr>)"
proof -
  obtain l r1 n r2 where get: "repo_get R code (as_repo s) = (Inr l, r1)"
    and live: "\<not> is_expired l now"
    and hit: "repo_record_hit R code hit r1 = (Inr n, r2)" and s': "as_repo s' = r2"
    and resp: "resp = \<lparr>resp_status = 307, resp_headers = [(''location'', link_target_url l)], resp_body = ()\<rparr>"
    using run by (auto simp: redirect_def handler_steps sv split: if_splits)
  have "inv r1" using get_inv [OF inv, of code] get by simp
  with get_ok [OF inv get] record_hit_ok [OF _ hit] live s' resp show ?thesis by auto
qed

lemma redirect_err:
  assumes sv: "sv_repo sv = R" and inv: "inv (as_repo s)"
    and run: "redirect sv code now hit s = (Done (Inl e), s')"
  shows "view (as_repo s') = view (as_repo s)"
proof -
  have 1: "view r1 = view (as_repo s) \<and> inv r1" if "repo_get R code (as_repo s) = (x, r1)" for x r1
    using that get_view [OF inv, of code] get_inv [OF inv, of code] by simp
  have 2: "view r2 = view r1" if "inv r1" "repo_record_hit R code hit r1 = (Inl x, r2)" for x r1 r2
    using that record_hit_err by blast
  show ?thesis
    using run by (auto simp: redirect_def handler_steps sv dest!: 1 2 split: if_splits)
qed

lemma update_link_ok:
  assumes sv: "sv_repo sv = R" and inv: "inv (as_repo s)"
    and run: "update_link sv code req now s = (Done (Inr resp), s')"
  shows "\<exists>u st t. url_parse sv (ur_target_url req) = Inr u \<and> url_scheme u \<in> {''http'', ''https''} \<and>
    view (as_repo s) code = Some st \<and>
    view (as_repo s') = (view (as_repo s))(code \<mapsto> st\<lparr>stats_link := (stats_link st)
       \<lparr>link_target_url := url_text u, link_updated_at := t, link_version := link_version (stats_link st) + 1\<rparr>\<rparr>) \<and>
    lr_target_url resp = url_text u \<and> lr_version resp = link_version (stats_link st) + 1 \<and>
    lr_code resp = code"
proof -
  obtain u l r1 where u: "parse_target_url (url_parse sv) (ur_target_url req) = Inr u"
    and up: "repo_update R code (url_text u) (ur_version req) now (as_repo s) = (Inr l, r1)"
    and s': "as_repo s' = r1" and resp: "resp = link_response_of_link l"
    using run by (auto simp: update_link_def handler_steps sv)
  obtain st t where st: "view (as_repo s) code = Some st"
    and l: "l = (stats_link st)\<lparr>link_target_url := url_text u, link_updated_at := t,
               link_version := link_version (stats_link st) + 1\<rparr>"
    and v: "view r1 = (view (as_repo s))(code \<mapsto> st\<lparr>stats_link := l\<rparr>)"
    using update_ok [OF inv up] by blast
  show ?thesis
    using u st l v s' resp view_code [OF inv st]
    by (auto simp: parse_target_url_Inr link_response_of_link_def)
qed

lemma update_link_err:
  assumes sv: "sv_repo sv = R" and inv: "inv (as_repo s)"
    and run: "update_link sv code req now s = (Done (Inl e), s')"
  shows "view (as_repo s') = view (as_repo s)"
  using run by (auto simp: update_link_def handler_steps sv dest: update_err [OF inv])

lemma delete_link_ok:
  assumes sv: "sv_repo sv = R" and inv: "inv (as_repo s)"
    and run: "delete_link sv code s = (Done (Inr status), s')"
  shows "status = 204 \<and> view (as_repo s) code \<noteq> None \<and>
    view (as_repo s') = (view (as_repo s))(code := None)"
  using run remove_ok [OF inv] by (auto simp: delete_link_def handler_steps sv)

lemma delete_link_inv:
  assumes sv: "sv_repo sv = R" and inv: "inv (as_repo s)"
  shows "inv (as_repo (snd (delete_link sv code s)))"
proof -
  have "preserves (\<lambda>s. inv (as_repo s)) (delete_link sv code)"
    unfolding delete_link_def sv
    by (intro preserves_bind preserves_result preserves_invalidate preserves_repo remove_inv)
  then show ?thesis using inv by (rule preservesD)
qed

lemma delete_link_err:
  assumes sv: "sv_repo sv = R" and inv: "inv (as_repo s)"
    and run: "delete_link sv code s = (Done (Inl e), s')"
  shows "view (as_repo s') = view (as_repo s)"
  using run by (auto simp: delete_link_def handler_steps sv dest: remove_err [OF inv])

end

lemma redirect_no_panic: "redirect sv code now hit s \<noteq> (Panic, s')"
  by (auto simp: redirect_def handler_steps)

lemma update_link_no_panic: "update_link sv code req now s \<noteq> (Panic, s')"
  by (auto simp: update_link_def handler_steps)

lemma delete_link_no_panic: "delete_link sv code s \<noteq> (Panic, s')"
  by (auto simp: delete_link_def handler_steps)

end
