(* ===== verification/Stats_Api.thy ===== *)
theory Stats_Api
  imports Handlers
begin

text \<open>
  The statistics endpoints, \<open>shorty-server/src/api/stats.rs\<close>. They read \<open>state.stats_storage\<close>, which is
  not the storage the in-memory repository records its hits in. \<open>now\<close> is the reading the expiry is
  checked at, \<open>at\<close> the one the window is read at.
\<close>

record top_query =
  tq_limit :: u64

definition default_limit :: u64 where
  "default_limit = 10"

definition top_query_limit :: "top_query \<Rightarrow> u64" where
  "top_query_limit q = min (tq_limit q) 100"

text \<open>The field's \<open>serde(default)\<close>: the number of the query string, or the default.\<close>

definition top_query_of :: "u64 option \<Rightarrow> top_query" where
  "top_query_of limit = \<lparr>tq_limit = (case limit of Some n \<Rightarrow> n | None \<Rightarrow> default_limit)\<rparr>"

record link_stats_response =
  sr_code :: string
  sr_total_hits :: u64
  sr_hits_last_60s :: u64

record top_link =
  tl_code :: string
  tl_total_hits :: u64

text \<open>The total and the window of a code, zero where it has no statistics.\<close>

definition read_counts :: "string \<Rightarrow> system_time \<Rightarrow> stats_storage \<Rightarrow> u64 \<times> u64" where
  "read_counts code at st =
     (case storage_get code st of
        Some r \<Rightarrow> let guard = arc_read r st in (get_total guard, get_last_60s guard at)
      | None \<Rightarrow> (0, 0))"

definition get_link_stats ::
  "('s, 'r) services \<Rightarrow> string \<Rightarrow> system_time \<Rightarrow> system_time \<Rightarrow> ('s, 'r, link_stats_response) handler" where
  "get_link_stats sv code now at =
     h_bind (h_repo (repo_get (sv_repo sv) code)) (\<lambda>l.
     if is_expired l now then h_result (Inl App_NotFound)
     else (\<lambda>s.
       let (total_hits, hits_last_60s) = read_counts code at (as_stats s)
       in h_result (Inr \<lparr>sr_code = code, sr_total_hits = total_hits, sr_hits_last_60s = hits_last_60s\<rparr>) s))"

definition get_top_stats :: "top_query \<Rightarrow> ('s, 'r) app_state \<Rightarrow> top_link list" where
  "get_top_stats query s =
     (let limit = top_query_limit query;
          top = get_top limit (as_stats s)
      in map (\<lambda>(code, total_hits). \<lparr>tl_code = code, tl_total_hits = total_hits\<rparr>) top)"

lemma read_counts_view:
  "read_counts code at st =
     (case storage_view st code of None \<Rightarrow> (0, 0) | Some w \<Rightarrow> (get_total w, get_last_60s w at))"
  by (auto simp: read_counts_def storage_view_def storage_get_def arc_read_def Let_def split: option.splits)

lemma get_link_stats_Inr:
  "get_link_stats sv code now at s = (Done (Inr resp), s') \<Longrightarrow>
     \<exists>l repo. repo_get (sv_repo sv) code (as_repo s) = (Inr l, repo) \<and> \<not> is_expired l now \<and>
        s' = s\<lparr>as_repo := repo\<rparr> \<and>
        resp = \<lparr>sr_code = code, sr_total_hits = fst (read_counts code at (as_stats s)),
                sr_hits_last_60s = snd (read_counts code at (as_stats s))\<rparr>"
  by (auto simp: get_link_stats_def handler_steps Let_def split_beta split: if_splits)

lemma get_link_stats_no_panic: "get_link_stats sv code now at s \<noteq> (Panic, s')"
  by (auto simp: get_link_stats_def handler_steps Let_def split_beta split: if_splits)

lemma get_link_stats_Inl:
  "get_link_stats sv code now at s = (Done (Inl e), s') \<Longrightarrow>
     \<exists>r repo. repo_get (sv_repo sv) code (as_repo s) = (r, repo) \<and> s' = s\<lparr>as_repo := repo\<rparr>"
  by (auto simp: get_link_stats_def handler_steps Let_def split_beta split: if_splits)

end
