(* ===== verification/Grpc.thy ===== *)
theory Grpc
  imports Auth In_Memory
begin

text \<open>
  The gRPC service, \<open>shorty-server/src/grpc/mod.rs\<close>, over the repository alone. A status is its code and
  its message; the request's metadata is read like the headers of an \<open>http_request\<close>. The text of a
  random UUID is an argument.
\<close>

datatype grpc_code =
    Grpc_Not_Found
  | Grpc_Already_Exists
  | Grpc_Aborted
  | Grpc_Unavailable
  | Grpc_Internal
  | Grpc_Invalid_Argument
  | Grpc_Unauthenticated

type_synonym grpc_status = "grpc_code \<times> string"

type_synonym i32 = "32 word"

record proto_timestamp =
  pt_seconds :: i64
  pt_nanos :: i32

record grpc_link =
  gl_code :: string
  gl_target_url :: string
  gl_created_at :: "proto_timestamp option"
  gl_updated_at :: "proto_timestamp option"
  gl_expires_at :: "proto_timestamp option"
  gl_version :: i64
  gl_hits :: i64

record grpc_create_request =
  gc_target_url :: string
  gc_custom_code :: "string option"
  gc_ttl_seconds :: "i64 option"

record grpc_create_response =
  gk_code :: string
  gk_target_url :: string
  gk_created_at :: "proto_timestamp option"
  gk_expires_at :: "proto_timestamp option"
  gk_version :: i64

record grpc_list_request =
  gq_page_size :: i32
  gq_page_token :: "string option"

record grpc_list_response =
  gr_links :: "grpc_link list"
  gr_next_page_token :: "string option"

section \<open>Errors, timestamps and authentication\<close>

definition map_repo_error :: "repo_error \<Rightarrow> string \<Rightarrow> grpc_status" where
  "map_repo_error err code =
     (case err of
        NotFound _ \<Rightarrow> (Grpc_Not_Found, ''link '' @ code @ '' not found'')
      | CodeTaken _ \<Rightarrow> (Grpc_Already_Exists, ''code '' @ code @ '' already exists'')
      | VersionConflict \<Rightarrow> (Grpc_Aborted, ''version conflict'')
      | Unavailable \<Rightarrow> (Grpc_Unavailable, ''database unavailable'')
      | Internal _ \<Rightarrow> (Grpc_Internal, ''internal error''))"

definition protobuf_timestamp :: "system_time \<Rightarrow> proto_timestamp" where
  "protobuf_timestamp t =
     (let duration = since_epoch t
      in \<lparr>pt_seconds = as_secs duration, pt_nanos = of_nat (subsec_nanos duration)\<rparr>)"

definition authenticate ::
  "('ek, 'dk) crypto \<Rightarrow> auth_config \<Rightarrow> http_request \<Rightarrow> system_time \<Rightarrow> grpc_status + unit" where
  "authenticate C config req now =
     (case Option.bind (header_text req ''authorization'') (\<lambda>v. strip_prefix v ''Bearer '') of
        None \<Rightarrow> Inl (Grpc_Unauthenticated, ''missing or invalid token'')
      | Some token \<Rightarrow>
          (case load_keys C config of
             Inl _ \<Rightarrow> Inl (Grpc_Internal, ''failed to load auth keys'')
           | Inr (_, decoding_key) \<Rightarrow>
               (case validate_token C token decoding_key now of
                  Inl _ \<Rightarrow> Inl (Grpc_Unauthenticated, ''invalid token'')
                | Inr _ \<Rightarrow> Inr ())))"

text \<open>
  A method runs its body only after \<open>authenticate\<close>. \<open>service_new\<close> takes the configuration out of an
  \<open>Option\<close> with \<open>unwrap\<close>.
\<close>

definition service_new :: "auth_config option \<Rightarrow> auth_config run" where
  "service_new cfg = (case cfg of None \<Rightarrow> Panic | Some config \<Rightarrow> Done config)"

text \<open>
  \<open>GrpcServer::serve\<close> before and after it serves: the descriptor set is read and registered for the
  reflection service, the service made, and the end of the transport may be an error. Whether the
  descriptor set is accepted and how the transport ends are arguments.
\<close>

definition grpc_serve :: "string option \<Rightarrow> (string \<Rightarrow> bool) \<Rightarrow> auth_config option \<Rightarrow> bool \<Rightarrow> unit run" where
  "grpc_serve fd_bytes reflects cfg ends_well =
     (case fd_bytes of
        None \<Rightarrow> Panic
      | Some bytes \<Rightarrow>
          if \<not> reflects bytes then Panic
          else run_bind (service_new cfg) (\<lambda>_. if ends_well then Done () else Panic))"

lemma grpc_serve_needs_auth: "grpc_serve fd_bytes reflects None ends_well = Panic"
  by (simp add: grpc_serve_def service_new_def split: option.split)

definition grpc_method ::
  "('ek, 'dk) crypto \<Rightarrow> auth_config \<Rightarrow> http_request \<Rightarrow> system_time \<Rightarrow>
   ('s \<Rightarrow> (grpc_status + 'a) run \<times> 's) \<Rightarrow> 's \<Rightarrow> (grpc_status + 'a) run \<times> 's" where
  "grpc_method C config req now body s =
     (case authenticate C config req now of Inl e \<Rightarrow> (Done (Inl e), s) | Inr _ \<Rightarrow> body s)"

text \<open>The interceptor: the request id of the metadata, or a fresh UUID, goes into the extensions.\<close>

definition request_id_interceptor :: "http_request \<Rightarrow> string \<Rightarrow> string" where
  "request_id_interceptor req uuid =
     (case header_text req ''x-request-id'' of Some request_id \<Rightarrow> request_id | None \<Rightarrow> uuid)"

section \<open>The methods\<close>

definition grpc_link_of_stats :: "link_stats \<Rightarrow> grpc_link" where
  "grpc_link_of_stats stats =
     \<lparr>gl_code = link_code (stats_link stats),
      gl_target_url = link_target_url (stats_link stats),
      gl_created_at = Some (protobuf_timestamp (link_created_at (stats_link stats))),
      gl_updated_at = Some (protobuf_timestamp (link_updated_at (stats_link stats))),
      gl_expires_at = map_option protobuf_timestamp (link_expires_at (stats_link stats)),
      gl_version = link_version (stats_link stats),
      gl_hits = stats_hits stats\<rparr>"

definition grpc_get_link ::
  "'s link_repository \<Rightarrow> string \<Rightarrow> 's \<Rightarrow> (grpc_status + grpc_link) run \<times> 's" where
  "grpc_get_link R code s =
     (case repo_stats R code s of
        (Inl e, s') \<Rightarrow> (Done (Inl (map_repo_error e code)), s')
      | (Inr stats, s') \<Rightarrow> (Done (Inr (grpc_link_of_stats stats)), s'))"

definition grpc_create_link ::
  "'s link_repository \<Rightarrow> grpc_create_request \<Rightarrow> string \<Rightarrow> system_time \<Rightarrow> 's \<Rightarrow>
   (grpc_status + grpc_create_response) run \<times> 's" where
  "grpc_create_link R req uuid now s =
     (let target_url = gc_target_url req
      in if target_url = [] then (Done (Inl (Grpc_Invalid_Argument, ''target_url is required'')), s)
         else
           let custom_code = (case gc_custom_code req of
                                Some code \<Rightarrow> if code \<noteq> [] then Some code else None
                              | None \<Rightarrow> None);
               code = (case custom_code of Some code \<Rightarrow> code | None \<Rightarrow> take 8 uuid)
           in (case repo_insert R (short_link_new code target_url now) s of
                 (Inl e, s') \<Rightarrow> (Done (Inl (map_repo_error e code)), s')
               | (Inr _, s') \<Rightarrow>
                   (case repo_stats R code s' of
                      (Inl e, s'') \<Rightarrow> (Done (Inl (map_repo_error e code)), s'')
                    | (Inr stats, s'') \<Rightarrow>
                        (Done (Inr
                          \<lparr>gk_code = link_code (stats_link stats),
                           gk_target_url = link_target_url (stats_link stats),
                           gk_created_at = Some (protobuf_timestamp (link_created_at (stats_link stats))),
                           gk_expires_at = map_option protobuf_timestamp (link_expires_at (stats_link stats)),
                           gk_version = link_version (stats_link stats)\<rparr>), s''))))"

definition page_size_of :: "i32 \<Rightarrow> u64" where
  "page_size_of n = (if sint n \<le> 0 then 20 else of_int (min (sint n) 100))"

definition token_cursor :: "string \<Rightarrow> cursor option" where
  "token_cursor token =
     (let parts = split_on CHR '':'' token
      in if length parts = 2 then Some (parts ! 0, parts ! 1) else None)"

definition cursor_token :: "cursor \<Rightarrow> string" where
  "cursor_token = (\<lambda>(ts, code). ts @ '':'' @ code)"

definition grpc_list_links ::
  "'s link_repository \<Rightarrow> grpc_list_request \<Rightarrow> 's \<Rightarrow> (grpc_status + grpc_list_response) run \<times> 's" where
  "grpc_list_links R req s =
     (let page_size = page_size_of (gq_page_size req);
          cursor = Option.bind (gq_page_token req) token_cursor
      in (case repo_list R page_size cursor s of
            (Panic, s') \<Rightarrow> (Panic, s')
          | (Done (Inl e), s') \<Rightarrow> (Done (Inl (Grpc_Internal, repo_error_message e)), s')
          | (Done (Inr (links, next_cursor)), s') \<Rightarrow>
              (Done (Inr
                \<lparr>gr_links = map (\<lambda>l. grpc_link_of_stats \<lparr>stats_link = l, stats_hits = 0\<rparr>) links,
                 gr_next_page_token = map_option cursor_token next_cursor\<rparr>), s')))"

text \<open>
  The task behind \<open>StreamLinks\<close>: one event per fixed code whose statistics are found, until a send
  fails. \<open>open i\<close> says whether the receiver takes the \<open>i\<close>-th event, \<open>clock i\<close> reads the clock for it.
\<close>

record link_event =
  ev_event_type :: i32
  ev_link :: grpc_link
  ev_occurred_at :: proto_timestamp

text \<open>\<open>LinkEventType::Created\<close>, as \<open>src/proto/shorty/v1/shorty.proto\<close> numbers it.\<close>

definition link_event_created :: i32 where
  "link_event_created = 1"

fun stream_events ::
  "'s link_repository \<Rightarrow> (nat \<Rightarrow> bool) \<Rightarrow> (nat \<Rightarrow> system_time) \<Rightarrow> nat \<Rightarrow> string list \<Rightarrow> 's \<Rightarrow>
   link_event list \<times> 's" where
  "stream_events R opened clock i [] s = ([], s)"
| "stream_events R opened clock i (code # codes) s =
     (case repo_stats R code s of
        (Inl _, s') \<Rightarrow> stream_events R opened clock (Suc i) codes s'
      | (Inr stats, s') \<Rightarrow>
          if opened i
          then let (evs, s'') = stream_events R opened clock (Suc i) codes s'
               in (\<lparr>ev_event_type = link_event_created, ev_link = grpc_link_of_stats stats,
                    ev_occurred_at = protobuf_timestamp (clock i)\<rparr> # evs, s'')
          else ([], s'))"

definition stream_links ::
  "'s link_repository \<Rightarrow> (nat \<Rightarrow> bool) \<Rightarrow> (nat \<Rightarrow> system_time) \<Rightarrow> 's \<Rightarrow> link_event list \<times> 's" where
  "stream_links R opened clock = stream_events R opened clock 0 [''stream-1'', ''stream-2'']"

text \<open>The capacity of the channel between the task and the response stream; none panics.\<close>

definition stream_capacity :: "i32 \<Rightarrow> nat" where
  "stream_capacity n = (if sint n \<le> 0 then 10 else nat (min (sint n) 100))"

text \<open>
  A call of the service: every method authenticates, then runs its body. What it draws is the UUID of a
  generated code and, for a stream, which of its events the receiver takes and the clock at each.
\<close>

datatype rpc =
    GetLink string
  | CreateLink grpc_create_request
  | ListLinks grpc_list_request
  | StreamLinks i32

datatype rpc_reply =
    Got grpc_link
  | Created_Link grpc_create_response
  | Listed grpc_list_response
  | Events nat "link_event list"

definition reply_map :: "('a \<Rightarrow> 'b) \<Rightarrow> (grpc_status + 'a) run \<times> 's \<Rightarrow> (grpc_status + 'b) run \<times> 's" where
  "reply_map f = (\<lambda>(r, s). (case r of Panic \<Rightarrow> Panic | Done (Inl e) \<Rightarrow> Done (Inl e) | Done (Inr v) \<Rightarrow> Done (Inr (f v)), s))"

definition rpc_body ::
  "'s link_repository \<Rightarrow> string \<Rightarrow> (nat \<Rightarrow> bool) \<Rightarrow> (nat \<Rightarrow> system_time) \<Rightarrow> system_time \<Rightarrow> rpc \<Rightarrow> 's \<Rightarrow>
   (grpc_status + rpc_reply) run \<times> 's" where
  "rpc_body R uuid opened clock now call s =
     (case call of
        GetLink code \<Rightarrow> reply_map Got (grpc_get_link R code s)
      | CreateLink req \<Rightarrow> reply_map Created_Link (grpc_create_link R req uuid now s)
      | ListLinks req \<Rightarrow> reply_map Listed (grpc_list_links R req s)
      | StreamLinks batch_size \<Rightarrow>
          (let (evs, s') = stream_links R opened clock s
           in (Done (Inr (Events (stream_capacity batch_size) evs)), s')))"

definition rpc_serve ::
  "('ek, 'dk) crypto \<Rightarrow> auth_config option \<Rightarrow> 's link_repository \<Rightarrow> string \<Rightarrow> (nat \<Rightarrow> bool) \<Rightarrow>
   (nat \<Rightarrow> system_time) \<Rightarrow> http_request \<Rightarrow> system_time \<Rightarrow> rpc \<Rightarrow> 's \<Rightarrow>
   (grpc_status + rpc_reply) run \<times> 's" where
  "rpc_serve C cfg R uuid opened clock req now call s =
     (case service_new cfg of
        Panic \<Rightarrow> (Panic, s)
      | Done config \<Rightarrow> grpc_method C config req now (rpc_body R uuid opened clock now call) s)"

section \<open>Page tokens and page sizes\<close>

lemma cursor_token_round_trip:
  assumes "CHR '':'' \<notin> set ts" and "CHR '':'' \<notin> set code"
  shows "token_cursor (cursor_token (ts, code)) = Some (ts, code)"
  using split_on_append [OF assms(1), of code] split_on_notin [OF assms(2)]
  by (simp add: token_cursor_def cursor_token_def)

lemma count_list_token: "count_list (s @ t) c = count_list s c + count_list t c"
  by (induction s) auto

lemma cursor_token_colon:
  assumes "CHR '':'' \<in> set ts \<or> CHR '':'' \<in> set code"
  shows "token_cursor (cursor_token (ts, code)) = None"
proof -
  have "count_list ts CHR '':'' \<noteq> 0 \<or> count_list code CHR '':'' \<noteq> 0"
    using assms by (simp add: count_list_0_iff)
  then show ?thesis by (simp add: token_cursor_def cursor_token_def length_split_on Let_def)
qed

lemma page_size_bounds: "1 \<le> unat (page_size_of n) \<and> unat (page_size_of n) \<le> 100"
proof -
  have "1 \<le> unat (of_int k :: u64) \<and> unat (of_int k :: u64) \<le> 100" if "1 \<le> k" "k \<le> 100" for k
    using that by (simp add: unat_eq_nat_uint uint_word_of_int) arith
  then show ?thesis by (simp add: page_size_of_def)
qed

text \<open>A client that follows the tokens of the listing until there is none, or gives up with \<open>Panic\<close>.\<close>

fun walk_grpc ::
  "'s link_repository \<Rightarrow> i32 \<Rightarrow> nat \<Rightarrow> string option \<Rightarrow> 's \<Rightarrow> (grpc_status + grpc_link list) run" where
  "walk_grpc R n 0 token s = Panic"
| "walk_grpc R n (Suc fuel) token s =
     (case grpc_list_links R \<lparr>gq_page_size = n, gq_page_token = token\<rparr> s of
        (Panic, s') \<Rightarrow> Panic
      | (Done (Inl e), s') \<Rightarrow> Done (Inl e)
      | (Done (Inr resp), s') \<Rightarrow>
          (case gr_next_page_token resp of
             None \<Rightarrow> Done (Inr (gr_links resp))
           | Some t \<Rightarrow>
               (case walk_grpc R n fuel (Some t) s' of
                  Panic \<Rightarrow> Panic
                | Done (Inl e) \<Rightarrow> Done (Inl e)
                | Done (Inr rest) \<Rightarrow> Done (Inr (gr_links resp @ rest)))))"

definition listed :: "short_link \<Rightarrow> grpc_link" where
  "listed l = grpc_link_of_stats \<lparr>stats_link = l, stats_hits = 0\<rparr>"

text \<open>A link whose code has no colon has a token that is read back; the time of the cursor is digits.\<close>

lemma memory_token:
  assumes "CHR '':'' \<notin> set (link_code l)"
  shows "token_cursor (cursor_token (created_at_cursor l)) = Some (created_at_cursor l)"
proof -
  have "CHR '':'' \<notin> set (created_secs_text l)"
    unfolding created_secs_text_def by (rule show_nat_notin) (simp add: digit_value_def)
  from cursor_token_round_trip [OF this assms] show ?thesis by (simp add: created_at_cursor_def)
qed

lemma walk_grpc_follows:
  assumes "walk_pages in_memory_ops (page_size_of n) fuel cur s = Done (Inr ls)"
    and "\<forall>l \<in> set ls. CHR '':'' \<notin> set (link_code l)" and "Option.bind token token_cursor = cur"
  shows "walk_grpc in_memory_ops n fuel token s = Done (Inr (map listed ls))"
  using assms
proof (induction fuel arbitrary: cur token ls)
  case (Suc fuel)
  obtain page nxt where run: "list_sync (page_size_of n) cur s = Done (page, nxt)"
    and list: "repo_list in_memory_ops (page_size_of n) cur s = (Done (Inr (page, nxt)), s)"
    using Suc.prems(1) by (cases "list_sync (page_size_of n) cur s") (auto simp: in_memory_ops_def)
  have nxt: "nxt = (if page = [] then None else Some (created_at_cursor (last page)))"
    using list_sync_Done [OF run] by metis
  have reply: "grpc_list_links in_memory_ops \<lparr>gq_page_size = n, gq_page_token = token\<rparr> s =
      (Done (Inr \<lparr>gr_links = map listed page, gr_next_page_token = map_option cursor_token nxt\<rparr>), s)"
    using list Suc.prems(3) by (simp add: grpc_list_links_def Let_def listed_def)
  show ?case
  proof (cases nxt)
    case None
    then show ?thesis using Suc.prems(1) list reply by simp
  next
    case (Some c)
    then obtain rest where rest: "walk_pages in_memory_ops (page_size_of n) fuel (Some c) s = Done (Inr rest)"
      and ls: "ls = page @ rest"
      using Suc.prems(1) list by (auto split: run.splits sum.splits)
    have "c = created_at_cursor (last page)" "last page \<in> set ls" using nxt Some ls by (auto split: if_splits)
    then have "Option.bind (Some (cursor_token c)) token_cursor = Some c"
      using memory_token Suc.prems(2) by simp
    from Suc.IH [OF rest _ this] have "walk_grpc in_memory_ops n fuel (Some (cursor_token c)) s = Done (Inr (map listed rest))"
      using Suc.prems(2) ls by simp
    then show ?thesis using reply Some ls by simp
  qed
qed simp

text \<open>The token of the metadata.\<close>

definition metadata_token :: "http_request \<Rightarrow> string option" where
  "metadata_token req = Option.bind (header_text req ''authorization'') (\<lambda>v. strip_prefix v ''Bearer '')"

lemma authenticate_token:
  "authenticate C config req now =
    (case metadata_token req of
       None \<Rightarrow> Inl (Grpc_Unauthenticated, ''missing or invalid token'')
     | Some token \<Rightarrow>
         (case load_keys C config of
            Inl _ \<Rightarrow> Inl (Grpc_Internal, ''failed to load auth keys'')
          | Inr keys \<Rightarrow>
              if \<exists>claims. validate_token C token (snd keys) now = Inr claims then Inr ()
              else Inl (Grpc_Unauthenticated, ''invalid token'')))"
  by (auto simp: authenticate_def metadata_token_def split: option.split sum.split prod.split)

section \<open>Properties\<close>

text \<open>C38: a client that follows the page tokens of \<open>ListLinks\<close> gets every link of the
  in-memory store exactly once, newest first, with any page size, if no code has a colon. A token with a
  colon in its time or its code is read as none, so that the listing starts again from its first page, on
  every store.\<close>

theorem page_tokens:
  assumes "in_memory_inv m" and "length (im_inner m) < 2 ^ 63"
    and "\<forall>l \<in> set (sorted_links m). CHR '':'' \<notin> set (link_code l)"
  shows "walk_grpc in_memory_ops n (Suc (length (im_inner m))) None m =
      Done (Inr (map (\<lambda>l. grpc_link_of_stats \<lparr>stats_link = l, stats_hits = 0\<rparr>) (sorted_links m))) \<and>
    distinct (map link_code (sorted_links m)) \<and> newest_first (sorted_links m) \<and>
    (\<forall>l. l \<in> set (sorted_links m) \<longleftrightarrow>
       (\<exists>st. in_memory_view m (link_code l) = Some st \<and> stats_link st = l)) \<and>
    (CHR '':'' \<in> set ts \<or> CHR '':'' \<in> set code \<longrightarrow>
       grpc_list_links R (req\<lparr>gq_page_token := Some (cursor_token (ts, code))\<rparr>) s =
       grpc_list_links R (req\<lparr>gq_page_token := None\<rparr>) s)"
proof -
  have size: "1 \<le> unat (page_size_of n)" "unat (page_size_of n) \<le> 100" using page_size_bounds by auto
  then have "unat (page_size_of n) + length (im_inner m) < 2 ^ 64" "page_size_of n \<noteq> 0" using assms(2) by auto
  then have "walk_pages in_memory_ops (page_size_of n) (Suc (length (im_inner m))) None m = Done (Inr (sorted_links m))"
    using paging_memory [OF assms(1)] by simp
  from walk_grpc_follows [OF this assms(3), of None]
  have "walk_grpc in_memory_ops n (Suc (length (im_inner m))) None m = Done (Inr (map listed (sorted_links m)))"
    by (simp del: walk_grpc.simps)
  moreover have "grpc_list_links R (req\<lparr>gq_page_token := Some (cursor_token (ts, code))\<rparr>) s =
      grpc_list_links R (req\<lparr>gq_page_token := None\<rparr>) s"
    if "CHR '':'' \<in> set ts \<or> CHR '':'' \<in> set code"
    using cursor_token_colon [OF that] by (simp add: grpc_list_links_def)
  moreover have "listed = (\<lambda>l. grpc_link_of_stats \<lparr>stats_link = l, stats_hits = 0\<rparr>)"
    by (simp add: listed_def fun_eq_iff)
  ultimately show ?thesis
    using sorted_links_distinct [OF assms(1)] sorted_links_mem [OF assms(1)] sorted_list_key_newest
    by (simp del: walk_grpc.simps)
qed

theorem page_tokens_witness:
  "walk_grpc in_memory_ops 1 2 None (snd (insert_sync (short_link_new ''abcd'' ''x'' 5) in_memory_new)) =
     Done (Inr [grpc_link_of_stats \<lparr>stats_link = short_link_new ''abcd'' ''x'' 5, stats_hits = 0\<rparr>]) \<and>
   grpc_list_links in_memory_ops \<lparr>gq_page_size = 5, gq_page_token = Some (cursor_token (''10:00'', ''abcd''))\<rparr>
       in_memory_new =
     grpc_list_links in_memory_ops \<lparr>gq_page_size = 5, gq_page_token = None\<rparr> in_memory_new"
proof -
  let ?l = "short_link_new ''abcd'' ''x'' 5"
  let ?m = "snd (insert_sync ?l in_memory_new)"
  have inner: "im_inner ?m = [(''abcd'', link_entry_new ?l)]"
    by (simp add: insert_sync_def in_memory_new_def short_link_new_def)
  have inv: "in_memory_inv ?m" by (intro insert_sync_inv in_memory_inv_new)
  have len: "length (im_inner ?m) = 1" by (simp only: inner) simp
  have sorted: "sorted_links ?m = [?l]" unfolding sorted_links_def inner by (simp add: link_entry_new_def)
  have code: "link_code ?l = ''abcd''" by (simp add: short_link_new_def)
  have "length (im_inner ?m) < 2 ^ 63" by (simp only: len) simp
  moreover have "\<forall>l \<in> set (sorted_links ?m). CHR '':'' \<notin> set (link_code l)" by (simp add: sorted code)
  moreover have "CHR '':'' \<in> set ''10:00''" by simp
  ultimately have "walk_grpc in_memory_ops 1 (Suc (length (im_inner ?m))) None ?m =
      Done (Inr (map (\<lambda>l. grpc_link_of_stats \<lparr>stats_link = l, stats_hits = 0\<rparr>) (sorted_links ?m)))"
    and "grpc_list_links in_memory_ops (\<lparr>gq_page_size = 5, gq_page_token = None\<rparr>
        \<lparr>gq_page_token := Some (cursor_token (''10:00'', ''abcd''))\<rparr>) in_memory_new =
      grpc_list_links in_memory_ops (\<lparr>gq_page_size = 5, gq_page_token = None\<rparr>\<lparr>gq_page_token := None\<rparr>)
        in_memory_new"
    using page_tokens [OF inv, of 1 "''10:00''" "''abcd''" in_memory_ops
        "\<lparr>gq_page_size = 5, gq_page_token = None\<rparr>" in_memory_new] by blast+
  then show ?thesis by (simp add: len sorted numeral_2_eq_2 del: walk_grpc.simps)
qed

text \<open>C37: every gRPC method authenticates before it touches the repository. Without authentication
  configured the service does not start. A call without a bearer token, or with one that is not valid, is
  refused as unauthenticated, and one for which the keys cannot be read as internal; all of these leave the
  state as it was. In particular the token of a login opens every method until 30 seconds after its expiry,
  if issuer and audience are the defaults, and none after that or otherwise.\<close>

theorem grpc_needs_token:
  "case cfg of
     None \<Rightarrow> rpc_serve C cfg R uuid opened clock req now call s = (Panic, s)
   | Some config \<Rightarrow>
       rpc_serve C cfg R uuid opened clock req now call s =
         (case metadata_token req of
            None \<Rightarrow> (Done (Inl (Grpc_Unauthenticated, ''missing or invalid token'')), s)
          | Some token \<Rightarrow>
              (case load_keys C config of
                 Inl e \<Rightarrow> (Done (Inl (Grpc_Internal, ''failed to load auth keys'')), s)
               | Inr keys \<Rightarrow>
                   if \<exists>claims. validate_token C token (snd keys) now = Inr claims
                   then rpc_body R uuid opened clock now call s
                   else (Done (Inl (Grpc_Unauthenticated, ''invalid token'')), s))) \<and>
       (\<forall>ek dk lq t0 resp. jwt_signs C ek dk \<longrightarrow> load_keys C config = Inr (ek, dk) \<longrightarrow>
          login_handler C (Some config) lq t0 = Done (Inr resp) \<longrightarrow>
          metadata_token req = Some (ls_access_token resp) \<longrightarrow>
          (\<exists>c. claims_new C (lq_username lq) ''admin'' (ac_issuer config) (ac_audience config)
                 (ac_access_token_ttl_secs config) t0 = Done c \<and>
             rpc_serve C cfg R uuid opened clock req now call s =
               (if timestamp now - 30 \<le> int (unat (cl_exp c)) \<and>
                   ac_issuer config = ''shorty-service'' \<and> ac_audience config = ''shorty-api''
                then rpc_body R uuid opened clock now call s
                else (Done (Inl (Grpc_Unauthenticated, ''invalid token'')), s))))"
proof (cases cfg)
  case (Some config)
  have serve: "rpc_serve C cfg R uuid opened clock req now call s =
      (case metadata_token req of
         None \<Rightarrow> (Done (Inl (Grpc_Unauthenticated, ''missing or invalid token'')), s)
       | Some token \<Rightarrow>
           (case load_keys C config of
              Inl e \<Rightarrow> (Done (Inl (Grpc_Internal, ''failed to load auth keys'')), s)
            | Inr keys \<Rightarrow>
                if \<exists>claims. validate_token C token (snd keys) now = Inr claims
                then rpc_body R uuid opened clock now call s
                else (Done (Inl (Grpc_Unauthenticated, ''invalid token'')), s)))"
    using Some by (simp add: rpc_serve_def service_new_def grpc_method_def authenticate_token
        split: option.split sum.split)
  have "\<exists>c. claims_new C (lq_username lq) ''admin'' (ac_issuer config) (ac_audience config)
        (ac_access_token_ttl_secs config) t0 = Done c \<and>
      rpc_serve C cfg R uuid opened clock req now call s =
        (if timestamp now - 30 \<le> int (unat (cl_exp c)) \<and>
            ac_issuer config = ''shorty-service'' \<and> ac_audience config = ''shorty-api''
         then rpc_body R uuid opened clock now call s
         else (Done (Inl (Grpc_Unauthenticated, ''invalid token'')), s))"
    if signs: "jwt_signs C ek dk" and keys: "load_keys C config = Inr (ek, dk)"
      and login: "login_handler C (Some config) lq t0 = Done (Inr resp)"
      and token: "metadata_token req = Some (ls_access_token resp)" for ek dk lq t0 resp
  proof -
    obtain c where c: "claims_new C (lq_username lq) ''admin'' (ac_issuer config) (ac_audience config)
        (ac_access_token_ttl_secs config) t0 = Done c"
      and made: "create_token C c ek = Inr (ls_access_token resp)"
      using login keys by (auto simp: login_handler_Inr)
    show ?thesis
      using c claims_new_Done [OF c] validate_created_token [OF signs made, of now] serve keys token
      by (auto simp: not_less)
  qed
  then show ?thesis using Some serve by simp
qed (simp add: rpc_serve_def service_new_def)

theorem grpc_needs_token_witness:
  "rpc_serve (sample_crypto ''shorty-service'') (Some (auth_config_default (sample_crypto ''shorty-service'')))
     in_memory_ops ''uuid'' (\<lambda>_. True) (\<lambda>_. 0)
     \<lparr>rq_method = ''POST'', rq_path = ''/'', rq_header = (\<lambda>_. Some (Some ''Bearer token'')), rq_remote = None\<rparr>
     1930000000000 (GetLink ''abcd'') in_memory_new =
   (Done (Inl (Grpc_Not_Found, ''link abcd not found'')), in_memory_new)"
proof -
  let ?C = "sample_crypto ''shorty-service''"
  let ?req = "\<lparr>rq_method = ''POST'', rq_path = ''/'', rq_header = (\<lambda>_. Some (Some ''Bearer token'')), rq_remote = None\<rparr>"
  note sample = sample_login [OF refl refl]
  have "metadata_token ?req = Some ''token''"
    by (simp add: metadata_token_def header_text_def strip_prefix_def starts_with_def)
  moreover have "rpc_body in_memory_ops ''uuid'' (\<lambda>_. True) (\<lambda>_. 0) 1930000000000 (GetLink ''abcd'') in_memory_new =
      (Done (Inl (Grpc_Not_Found, ''link abcd not found'')), in_memory_new)"
    by (simp add: rpc_body_def reply_map_def grpc_get_link_def in_memory_ops_def stats_sync_def in_memory_new_def
        map_repo_error_def)
  ultimately show ?thesis
    using grpc_needs_token [of ?C "Some (auth_config_default ?C)" in_memory_ops "''uuid''" "\<lambda>_. True" "\<lambda>_. 0" ?req
        1930000000000 "GetLink ''abcd''" in_memory_new, unfolded option.case, THEN conjunct2, rule_format,
        OF sample_crypto_signs sample(1,6)] sample(2)
    by (simp add: sample(3-5) sample_claims_def timestamp_def)
qed

end
