(* ===== verification/Unit_Tests.thy ===== *)
theory Unit_Tests
  imports Rate_Limit_Api Cleanup Stats_Api Grpc
begin

text \<open>
  The unit tests of the repository, run on the model: one function per \<open>#[test]\<close>, true where all its
  assertions hold, and a lemma that it is true. A test that reads the clock has its readings as
  arguments, and the lemma says under which readings it passes; most pass under all.
\<close>

section \<open>Windows and statistics, \<open>crates/domain/src/stats.rs\<close>\<close>

definition test_sliding_window :: "system_time \<Rightarrow> system_time \<Rightarrow> system_time \<Rightarrow> system_time \<Rightarrow> bool" where
  "test_sliding_window now0 read1 now1 read2 =
     (let base = now0 - 30 * nanos_per_sec;
          stats = window_record_hit window_new (base + 10 * nanos_per_sec);
          stats = window_record_hit stats (base + 20 * nanos_per_sec);
          stats = window_record_hit stats (base + 30 * nanos_per_sec);
          stats' = window_record_hit stats now1
      in get_last_60s stats read1 = 3 \<and> get_total stats = 3 \<and>
         get_last_60s stats' read2 = 4 \<and> get_total stats' = 4)"

lemma epoch_sec_within:
  assumes "s \<le> t" and "t \<le> s + int k * 1000000000"
  shows "epoch_sec t \<le> epoch_sec s + k"
proof -
  have "nat t \<le> nat s + k * 1000000000" using assms(2) by linarith
  then have "nat t div 1000000000 \<le> (nat s + k * 1000000000) div 1000000000" by (rule div_le_mono)
  then show ?thesis by (cases "s < 0") (auto simp: epoch_sec_def since_epoch_def)
qed

lemma representable_between: "representable a \<Longrightarrow> representable b \<Longrightarrow> a \<le> t \<Longrightarrow> t \<le> b \<Longrightarrow> representable t"
  using zdiv_mono1 [of a t nanos_per_sec] zdiv_mono1 [of t b nanos_per_sec]
  by (auto simp: representable_def)

lemma record_hit_total: "get_total (window_record_hit w t) = get_total w + 1"
proof -
  have "total_hits (clear_cell w s) = total_hits w" for w s by (simp add: clear_cell_def Let_def)
  then have "total_hits (foldl clear_cell w secs) = total_hits w" for secs
    by (induction secs arbitrary: w) simp_all
  then have "total_hits (advance w n) = total_hits w" for n by (simp add: advance_def)
  then show ?thesis by (simp add: get_total_def window_record_hit_def Let_def)
qed

lemma new_total: "get_total window_new = 0"
  by (simp add: get_total_def window_new_def)

text \<open>It passes if the two parts are run within 39 seconds of each other.\<close>

lemma test_sliding_window_passes:
  assumes "now0 \<le> read1" and "read1 \<le> now1" and "now1 \<le> read2" and "read2 \<le> now0 + 39 * nanos_per_sec"
    and "representable (now0 - 30 * nanos_per_sec)" and "representable read2"
  shows "test_sliding_window now0 read1 now1 read2"
proof -
  let ?b = "now0 - 30 * nanos_per_sec"
  let ?ts = "[?b + 10 * nanos_per_sec, ?b + 20 * nanos_per_sec, ?b + 30 * nanos_per_sec]"
  have rep: "representable t" if "?b \<le> t" "t \<le> read2" for t
    using representable_between [OF assms(5,6) that] .
  have close: "epoch_sec u < epoch_sec t + 60" if "?b + 10 * nanos_per_sec \<le> t" "t \<le> u" "u \<le> read2" for t u
    using epoch_sec_within [OF that(2), of 59] that assms(4) by simp
  have far: "\<not> epoch_sec t + 60 \<le> epoch_sec u" if "?b + 10 * nanos_per_sec \<le> t" "t \<le> u" "u \<le> read2" for t u
    using close [OF that] by simp
  have "get_last_60s (foldl window_record_hit window_new ?ts) read1 = 3"
    using last_60s_count [of ?ts read1] rep assms(1-3) close [of _ now0] far [of now0 read1] by simp
  moreover have "get_last_60s (foldl window_record_hit window_new (?ts @ [now1])) read2 = 4"
    using last_60s_count [of "?ts @ [now1]" read2] rep assms(1-3) close [of _ now1] far [of now1 read2] by simp
  ultimately show ?thesis
    by (simp add: test_sliding_window_def record_hit_total new_total)
qed

text \<open>The hit is two minutes old, the ring is not cleared until the next one; the total stays.\<close>

definition test_sliding_window_expires :: "system_time \<Rightarrow> system_time \<Rightarrow> bool" where
  "test_sliding_window_expires now0 read1 =
     (let base = now0 - 120 * nanos_per_sec;
          stats = window_record_hit window_new base
      in get_last_60s stats read1 = 0 \<and> get_total stats = 1)"

lemma epoch_sec_apart:
  assumes "0 \<le> s" and "s + int k * 1000000000 \<le> t"
  shows "epoch_sec s + k \<le> epoch_sec t"
proof -
  have "nat s + k * 1000000000 \<le> nat t" using assms by linarith
  then have "(nat s + k * 1000000000) div 1000000000 \<le> nat t div 1000000000" by (rule div_le_mono)
  then show ?thesis using assms by (simp add: epoch_sec_def since_epoch_def)
qed

lemma test_sliding_window_expires_passes:
  assumes "now0 \<le> read1" and "0 \<le> now0 - 120 * nanos_per_sec" and "representable read1"
  shows "test_sliding_window_expires now0 read1"
proof -
  let ?b = "now0 - 120 * nanos_per_sec"
  have "representable ?b"
    by (rule representable_between [of 0 read1]) (use assms in \<open>auto simp: representable_def\<close>)
  moreover have "epoch_sec ?b + 60 \<le> epoch_sec read1" using epoch_sec_apart [of ?b 60 read1] assms by simp
  ultimately show ?thesis
    using last_60s_count [of "[?b]" read1] assms by (simp add: test_sliding_window_expires_def record_hit_total new_total)
qed

section \<open>The token bucket, \<open>crates/domain/src/rate_limit.rs\<close>\<close>

definition f64_lt :: "f64 \<Rightarrow> f64 \<Rightarrow> bool" where
  "f64_lt a b \<longleftrightarrow> f64_ge b a \<and> \<not> f64_ge a b"

text \<open>Consuming in a loop, where each request must be allowed without a wait.\<close>

fun consume_all :: "rate_limit_config \<Rightarrow> rate_limit_state \<Rightarrow> instant list \<Rightarrow> rate_limit_state option" where
  "consume_all config st [] = Some st"
| "consume_all config st (t # ts) =
     (case try_consume st config t of (allowed, new_state, retry_after) \<Rightarrow>
        if allowed \<and> retry_after = 0 then consume_all config new_state ts else None)"

definition test_rate_limit_consumption :: "instant \<Rightarrow> (nat \<Rightarrow> instant) \<Rightarrow> bool" where
  "test_rate_limit_consumption fresh now =
     (let config = rate_limit_config_new 10 60
      in (case consume_all config (new_full 10 fresh) (map now [0..<10]) of
            None \<Rightarrow> False
          | Some state \<Rightarrow>
              (case try_consume state config (now 10) of (allowed, _, retry_after) \<Rightarrow> \<not> allowed \<and> 0 < retry_after)))"

lemma consume_all_whole:
  assumes "0 < period_secs config" and "unat (capacity config) \<le> 2 ^ 53" and "n \<le> k" and "k \<le> unat (capacity config)"
    and "now \<le> u" and "0 < n"
  shows "consume_all config \<lparr>tokens = Fin (of_nat k), last_update = u\<rparr> (replicate n now) =
    Some \<lparr>tokens = Fin (of_nat (k - n)), last_update = now\<rparr>"
  using assms(3-6)
proof (induction n arbitrary: k u)
  case (Suc n)
  obtain retry where "try_consume \<lparr>tokens = Fin (of_nat k), last_update = u\<rparr> config now =
      (0 < k, \<lparr>tokens = Fin (of_nat (k - 1)), last_update = now\<rparr>, retry)" "retry = 0 \<longleftrightarrow> 0 < k"
    using try_consume_whole_retry [OF assms(1,2) Suc.prems(2,3)] by blast
  then show ?case using Suc.IH [of "k - 1" now] Suc.prems by (cases n) auto
qed simp

text \<open>It passes where the clock does not advance between its readings.\<close>

lemma test_rate_limit_consumption_passes:
  assumes "now \<le> fresh"
  shows "test_rate_limit_consumption fresh (\<lambda>_. now)"
proof -
  let ?config = "rate_limit_config_new 10 60"
  have config: "0 < period_secs ?config" "unat (capacity ?config) = 10"
    by (simp_all add: rate_limit_config_new_def word_less_nat_alt)
  have full: "new_full 10 fresh = \<lparr>tokens = Fin (of_nat 10), last_update = fresh\<rparr>"
    using f64_of_nat_exact [of 10] by (simp add: new_full_def f64_of_u64_def)
  have "consume_all ?config (new_full 10 fresh) (replicate 10 now) = Some \<lparr>tokens = Fin (of_nat 0), last_update = now\<rparr>"
    using consume_all_whole [OF config(1), of 10 10 now fresh] config(2) assms unfolding full by simp
  moreover obtain retry where "try_consume \<lparr>tokens = Fin (of_nat 0), last_update = now\<rparr> ?config now =
      (False, \<lparr>tokens = Fin (of_nat 0), last_update = now\<rparr>, retry)" "retry \<noteq> 0"
    using try_consume_whole_retry [OF config(1), of 0 now now] config(2) by auto
  ultimately show ?thesis
    unfolding test_rate_limit_consumption_def map_replicate_const by (simp add: Let_def word_gt_0)
qed

text \<open>Six seconds refill one token of ten a minute, and the product of the roundings is exactly 1.\<close>

definition test_rate_limit_refill :: "instant \<Rightarrow> bool" where
  "test_rate_limit_refill now =
     (let config = rate_limit_config_new 10 60;
          state = \<lparr>tokens = Fin 0, last_update = now\<rparr>;
          later = now + 6 * nanos_per_sec;
          (allowed1, state1, _) = try_consume state config later;
          later2 = later + 6 * nanos_per_sec;
          (allowed2, state2, _) = try_consume state1 config later2
      in allowed1 \<and> f64_lt (tokens state1) (f64_round (1 / 10)) \<and>
         allowed2 \<and> f64_lt (tokens state2) (f64_round (2 / 10)))"

lemma rate_ten_a_minute: "refill_rate (rate_limit_config_new 10 60) = Fin (6004799503160661 / 2 ^ 55)"
proof -
  have "f64_round (1 / 6) = Fin (6004799503160661 / 2 ^ 55)"
    by (rule f64_round_eq [where k = "- 3" and m = 6004799503160661]) (simp_all add: power_int_minus abs_if)
  moreover have "f64_of_u64 10 = Fin 10" "f64_of_u64 60 = Fin 60"
    using f64_of_nat_exact [of 10] f64_of_nat_exact [of 60] by (simp_all add: f64_of_u64_def)
  ultimately show ?thesis by (simp add: refill_rate_def rate_limit_config_new_def)
qed

text \<open>The one rounding of a tie.\<close>

lemma round_almost_one: "f64_round (6 * (6004799503160661 / 2 ^ 55)) = Fin 1"
proof -
  let ?x = "36028797018963966 / 36028797018963968 :: rat"
  have "floor_log2 ?x = - 1" by (rule floor_log2_eq) (simp_all add: power_int_minus)
  then have u: "ulp_exp ?x = - 53" by (simp add: ulp_exp_def)
  have "?x / pow2 (- 53) = 9007199254740991 + 1 / 2" by (simp add: power_int_minus)
  moreover have "\<lfloor>9007199254740991 + 1 / 2 :: rat\<rfloor> = 9007199254740991" by linarith
  ultimately have "round_half_even (?x / pow2 (- 53)) = 9007199254740992"
    by (simp add: round_half_even_def Let_def)
  then have "round_pos ?x = 1" unfolding round_pos_def u by (simp add: power_int_minus)
  moreover have "\<not> f64_limit \<le> 1" using power_strict_increasing [of 0 1024 "2 :: rat"] by (simp add: f64_limit_def)
  ultimately have "f64_round ?x = Fin 1" by (simp add: f64_round_def)
  then show ?thesis by simp
qed

lemma round_tenth: "f64_round (1 / 10) = Fin (7205759403792794 / 2 ^ 56)"
  by (rule f64_round_eq [of "- 4" _ 7205759403792794]) (simp_all add: power_int_minus abs_if)

lemma round_fifth: "f64_round (1 / 5) = Fin (7205759403792794 / 2 ^ 55)"
  by (rule f64_round_eq [of "- 3" _ 7205759403792794]) (simp_all add: power_int_minus abs_if)

lemma test_rate_limit_refill_passes: "test_rate_limit_refill now"
proof -
  let ?config = "rate_limit_config_new 10 60"
  have six: "try_consume \<lparr>tokens = Fin 0, last_update = t\<rparr> ?config (t + 6 * nanos_per_sec) =
      (True, \<lparr>tokens = Fin 0, last_update = t + 6 * nanos_per_sec\<rparr>, 0)" for t
    using refill_one_token [OF rate_ten_a_minute, of 6 t] round_almost_one
    by (simp add: rate_limit_config_new_def)
  show ?thesis
    unfolding test_rate_limit_refill_def Let_def six prod.case
    using round_tenth round_fifth by (simp add: f64_lt_def)
qed

text \<open>An empty bucket of one request in five seconds asks for five seconds.\<close>

definition test_retry_after_calculation :: "instant \<Rightarrow> instant \<Rightarrow> bool" where
  "test_retry_after_calculation now fresh =
     (let config = rate_limit_config_new 1 5;
          state = new_full 1 fresh;
          (_, state, _) = try_consume state config now;
          (_, _, retry_after) = try_consume state config now
      in 5 \<le> retry_after \<and> retry_after \<le> 6)"

lemma rate_fifth: "refill_rate (rate_limit_config_new 1 5) = Fin (7205759403792794 / 2 ^ 55)"
proof -
  have "f64_of_u64 1 = Fin 1" "f64_of_u64 5 = Fin 5"
    using f64_of_nat_exact [of 1] f64_of_nat_exact [of 5] by (simp_all add: f64_of_u64_def)
  then show ?thesis by (simp add: refill_rate_def rate_limit_config_new_def round_fifth)
qed

lemma wait_of_fifth: "f64_div (Fin 1) (Fin (7205759403792794 / 2 ^ 55)) = Fin 5"
proof -
  have "f64_round (2 ^ 55 / 7205759403792794) = Fin 5"
    by (rule f64_round_eq [of 2 _ "5 * 2 ^ 50"]) (simp_all add: power_int_minus abs_if)
  then show ?thesis by simp
qed

lemma test_retry_after_calculation_passes:
  assumes "now \<le> fresh"
  shows "test_retry_after_calculation now fresh"
proof -
  let ?config = "rate_limit_config_new 1 5"
  have config: "0 < period_secs ?config" "unat (capacity ?config) = 1"
    by (simp_all add: rate_limit_config_new_def word_less_nat_alt)
  have full: "new_full 1 fresh = \<lparr>tokens = Fin (of_nat 1), last_update = fresh\<rparr>"
    using f64_of_nat_exact [of 1] by (simp add: new_full_def f64_of_u64_def)
  obtain retry where first: "try_consume (new_full 1 fresh) ?config now =
      (True, \<lparr>tokens = Fin 0, last_update = now\<rparr>, retry)"
    using try_consume_whole_retry [OF config(1), of 1 now fresh] config(2) assms unfolding full by auto
  have "bucket_ok ?config \<lparr>tokens = Fin 0, last_update = now\<rparr>"
    using try_consume_ok [OF _ first] bucket_ok_new [of ?config fresh] by (simp add: rate_limit_config_new_def)
  then have "refilled \<lparr>tokens = Fin 0, last_update = now\<rparr> ?config now = Fin 0"
    using refilled_same_instant [OF config(1), of "\<lparr>tokens = Fin 0, last_update = now\<rparr>"] by simp
  moreover have "f64_sub (Fin 1) (Fin 0) = Fin 1"
    using f64_round_repr [OF f64_repr_of_nat [of 1]] by (simp add: f64_sub_def)
  ultimately have "snd (snd (try_consume \<lparr>tokens = Fin 0, last_update = now\<rparr> ?config now)) = 5"
    unfolding try_consume_def rate_fifth Let_def
    using wait_of_fifth by (simp del: f64_div.simps add: f64_gt_zero_def)
  then show ?thesis
    by (simp add: test_retry_after_calculation_def first split_beta)
qed

section \<open>The storage of buckets, \<open>crates/storage/src/rate_limit_storage.rs\<close>\<close>

text \<open>Calls in a loop, one for each reading that a new bucket would take.\<close>

fun checks ::
  "string \<Rightarrow> instant \<Rightarrow> instant list \<Rightarrow> rate_limit_storage \<Rightarrow> (bool \<times> u64) run list \<times> rate_limit_storage" where
  "checks client now [] s = ([], s)"
| "checks client now (fresh # fs) s =
     (case check_and_consume client now fresh s of (r, s') \<Rightarrow>
        (case checks client now fs s' of (rs, s'') \<Rightarrow> (r # rs, s'')))"

fun passes :: "(bool \<times> u64) run \<Rightarrow> bool" where
  "passes (Done (allowed, retry_after)) \<longleftrightarrow> allowed \<and> retry_after = 0"
| "passes Panic \<longleftrightarrow> False"

fun is_rejected :: "(bool \<times> u64) run \<Rightarrow> bool" where
  "is_rejected (Done (allowed, retry_after)) \<longleftrightarrow> \<not> allowed \<and> 0 < retry_after"
| "is_rejected Panic \<longleftrightarrow> False"

definition test_rate_limit_storage :: "instant \<Rightarrow> instant \<Rightarrow> bool" where
  "test_rate_limit_storage now fresh =
     (let storage = rate_limit_storage_new (rate_limit_config_new 3 60) (120 * 1000000000);
          (rs, storage) = checks ''test-client'' now (replicate 3 fresh) storage;
          (r, storage) = check_and_consume ''test-client'' now fresh storage
      in list_all passes rs \<and> is_rejected r \<and> storage_len storage = 1)"

definition test_rate_limit_recovery :: "instant \<Rightarrow> instant \<Rightarrow> bool" where
  "test_rate_limit_recovery now fresh =
     (let storage = rate_limit_storage_new (rate_limit_config_new 3 60) (120 * 1000000000);
          (_, storage) = checks ''test-client'' now (replicate 3 fresh) storage;
          later = now + 20 * nanos_per_sec;
          (r1, storage) = check_and_consume ''test-client'' later fresh storage;
          (_, storage) = checks ''test-client'' later (replicate 3 fresh) storage;
          (r2, storage) = check_and_consume ''test-client'' later fresh storage
      in passes r1 \<and> is_rejected r2)"

definition test_stale_cleanup :: "instant \<Rightarrow> instant \<Rightarrow> instant \<Rightarrow> bool" where
  "test_stale_cleanup now fresh1 fresh2 =
     (let storage = rate_limit_storage_new (rate_limit_config_new 10 60) (10 * 1000000000);
          (_, storage1) = check_and_consume ''client1'' now fresh1 storage;
          later = now + 15 * nanos_per_sec;
          (_, storage2) = check_and_consume ''client2'' later fresh2 storage1
      in storage_len storage1 = 1 \<and> storage_len storage2 = 1)"

text \<open>One call on a storage where nothing is stale and the client has \<open>k\<close> whole tokens.\<close>

lemma check_whole:
  assumes "0 < period_secs (rl_config s)" and "unat (capacity (rl_config s)) \<le> 2 ^ 53"
    and "k \<le> unat (capacity (rl_config s))" and "representable (now - int (rl_ttl s))"
    and fresh: "\<forall>st \<in> snd ` set (rl_inner s). now - int (rl_ttl s) \<le> last_update st"
    and u: "bucket_for s c fresh = \<lparr>tokens = Fin (of_nat k), last_update = u\<rparr>" "now \<le> u"
  obtains retry where "check_and_consume c now fresh s =
      (Done (0 < k, retry), s\<lparr>rl_inner := hm_insert c \<lparr>tokens = Fin (of_nat (k - 1)), last_update = now\<rparr> (rl_inner s)\<rparr>)"
    and "retry = 0 \<longleftrightarrow> 0 < k"
proof -
  obtain retry where run: "try_consume \<lparr>tokens = Fin (of_nat k), last_update = u\<rparr> (rl_config s) now =
      (0 < k, \<lparr>tokens = Fin (of_nat (k - 1)), last_update = now\<rparr>, retry)" "retry = 0 \<longleftrightarrow> 0 < k"
    using try_consume_whole_retry [OF assms(1-3) u(2)] by blast
  have "cleanup_stale now s = Done s"
    using assms(4) fresh by (auto simp: cleanup_stale_def hm_retain_def Let_def filter_True split_beta)
  then show thesis
    using that run u(1) by (auto simp: check_and_consume_def bucket_for_def word_gt_0 split: option.splits)
qed

text \<open>The storage of one client, with \<open>k\<close> tokens at \<open>now\<close>.\<close>

definition one_client :: "rate_limit_storage \<Rightarrow> string \<Rightarrow> nat \<Rightarrow> instant \<Rightarrow> rate_limit_storage" where
  "one_client s c k now = s\<lparr>rl_inner := [(c, \<lparr>tokens = Fin (of_nat k), last_update = now\<rparr>)]\<rparr>"

lemma check_one:
  assumes "0 < period_secs (rl_config s)" and "unat (capacity (rl_config s)) \<le> 2 ^ 53"
    and "k \<le> unat (capacity (rl_config s))" and "representable (now - int (rl_ttl s))"
  obtains retry where "check_and_consume c now fresh (one_client s c k now) =
      (Done (0 < k, retry), one_client s c (k - 1) now)" and "retry = 0 \<longleftrightarrow> 0 < k"
  by (rule check_whole [of "one_client s c k now" k now c fresh now])
     (use assms in \<open>simp_all add: one_client_def bucket_for_def\<close>)

lemma check_new:
  assumes "0 < period_secs (rl_config s)" and "unat (capacity (rl_config s)) \<le> 2 ^ 53"
    and "0 < unat (capacity (rl_config s))" and "representable (now - int (rl_ttl s))" and "rl_inner s = []"
    and "now \<le> fresh"
  shows "check_and_consume c now fresh s = (Done (True, 0), one_client s c (unat (capacity (rl_config s)) - 1) now)"
  by (rule check_whole [of s "unat (capacity (rl_config s))" now c fresh fresh])
     (use assms in \<open>simp_all add: one_client_def bucket_for_def new_full_def f64_of_u64_def f64_of_nat_exact\<close>)

lemma checks_one:
  assumes "0 < period_secs (rl_config s)" and "unat (capacity (rl_config s)) \<le> 2 ^ 53"
    and "k \<le> unat (capacity (rl_config s))" and "representable (now - int (rl_ttl s))"
  shows "\<exists>rs. checks c now fs (one_client s c k now) = (rs, one_client s c (k - length fs) now) \<and>
    (length fs \<le> k \<longrightarrow> list_all passes rs)"
  using assms(3)
proof (induction fs arbitrary: k)
  case (Cons f fs)
  obtain retry where step: "check_and_consume c now f (one_client s c k now) =
      (Done (0 < k, retry), one_client s c (k - 1) now)" "retry = 0 \<longleftrightarrow> 0 < k"
    using check_one [OF assms(1,2) Cons.prems assms(4)] by blast
  have "k - 1 \<le> unat (capacity (rl_config s))" using Cons.prems by simp
  from Cons.IH [OF this] obtain rs where
    "checks c now fs (one_client s c (k - 1) now) = (rs, one_client s c (k - 1 - length fs) now)"
    "length fs \<le> k - 1 \<longrightarrow> list_all passes rs" by blast
  then show ?case using step by auto
qed simp

lemma checks_new:
  assumes "0 < period_secs (rl_config s)" and "unat (capacity (rl_config s)) \<le> 2 ^ 53"
    and "n < unat (capacity (rl_config s))" and "representable (now - int (rl_ttl s))" and "rl_inner s = []"
    and "now \<le> fresh"
  shows "\<exists>rs. checks c now (replicate (Suc n) fresh) s =
      (rs, one_client s c (unat (capacity (rl_config s)) - Suc n) now) \<and> list_all passes rs"
  using check_new [OF assms(1,2) _ assms(4-6), of c] assms(3)
    checks_one [OF assms(1,2) _ assms(4), of "unat (capacity (rl_config s)) - 1" c "replicate n fresh"]
  by auto

abbreviation storage_of_3 :: rate_limit_storage where
  "storage_of_3 \<equiv> rate_limit_storage_new (rate_limit_config_new 3 60) (120 * 1000000000)"

lemma storage_of_3_simps:
  "0 < period_secs (rl_config storage_of_3)" "unat (capacity (rl_config storage_of_3)) = 3"
  "rl_ttl storage_of_3 = 120000000000" "rl_inner storage_of_3 = []"
  by (simp_all add: rate_limit_storage_new_def rate_limit_config_new_def word_less_nat_alt)

lemma three_checks:
  assumes "representable (now - 120 * nanos_per_sec)" and "now \<le> fresh"
  obtains rs where "checks c now (replicate 3 fresh) storage_of_3 = (rs, one_client storage_of_3 c 0 now)"
    and "list_all passes rs"
proof -
  have "Suc 2 = 3" by simp
  from checks_new [of storage_of_3 2 now fresh c, unfolded this] show thesis
    using that storage_of_3_simps assms by (simp del: checks.simps) blast
qed

lemma rejected_at_zero:
  assumes "representable (now - 120 * nanos_per_sec)"
  obtains retry where "check_and_consume c now fresh (one_client storage_of_3 c 0 now) =
      (Done (False, retry), one_client storage_of_3 c 0 now)" and "0 < retry"
  using check_one [of storage_of_3 0 now c fresh] storage_of_3_simps assms by (auto simp: word_gt_0)

lemma test_rate_limit_storage_passes:
  assumes "representable (now - 120 * nanos_per_sec)" and "now \<le> fresh"
  shows "test_rate_limit_storage now fresh"
proof -
  obtain rs where rs: "checks ''test-client'' now (replicate 3 fresh) storage_of_3 =
      (rs, one_client storage_of_3 ''test-client'' 0 now)" "list_all passes rs"
    using three_checks [OF assms] by blast
  obtain retry where "check_and_consume ''test-client'' now fresh (one_client storage_of_3 ''test-client'' 0 now) =
      (Done (False, retry), one_client storage_of_3 ''test-client'' 0 now)" "0 < retry"
    using rejected_at_zero [OF assms(1)] by blast
  then show ?thesis
    unfolding test_rate_limit_storage_def Let_def rs(1) prod.case
    using rs(2) by (simp add: storage_len_def one_client_def)
qed

text \<open>Twenty seconds refill one of three tokens a minute.\<close>

lemma rate_three_a_minute: "refill_rate (rate_limit_config_new 3 60) = Fin (7205759403792794 / 2 ^ 57)"
proof -
  have "f64_of_u64 3 = Fin 3" "f64_of_u64 60 = Fin 60"
    using f64_of_nat_exact [of 3] f64_of_nat_exact [of 60] by (simp_all add: f64_of_u64_def)
  moreover have "f64_round (1 / 20) = Fin (7205759403792794 / 2 ^ 57)"
    by (rule f64_round_eq [of "- 5" _ 7205759403792794]) (simp_all add: power_int_minus abs_if)
  ultimately show ?thesis by (simp add: refill_rate_def rate_limit_config_new_def)
qed

lemma refilled_after_20:
  assumes "representable (now - 100 * nanos_per_sec)"
  shows "check_and_consume c (now + 20 * nanos_per_sec) fresh (one_client storage_of_3 c 0 now) =
    (Done (True, 0), one_client storage_of_3 c 0 (now + 20 * nanos_per_sec))"
proof -
  have "f64_round (of_nat 20 * (7205759403792794 / 2 ^ 57)) = Fin 1"
    by (rule f64_round_eq [of 0 _ "2 ^ 52"]) (simp_all add: power_int_minus abs_if)
  then have "try_consume \<lparr>tokens = Fin 0, last_update = now\<rparr> (rate_limit_config_new 3 60) (now + 20 * nanos_per_sec) =
      (True, \<lparr>tokens = Fin 0, last_update = now + 20 * nanos_per_sec\<rparr>, 0)"
    using refill_one_token [OF rate_three_a_minute, of 20 now] by (simp add: rate_limit_config_new_def)
  then show ?thesis
    using assms
    by (simp add: check_and_consume_def cleanup_stale_def hm_retain_def one_client_def rate_limit_storage_new_def)
qed

lemma test_rate_limit_recovery_passes:
  assumes "representable (now - 120 * nanos_per_sec)" and "representable (now + 20 * nanos_per_sec)" and "now \<le> fresh"
  shows "test_rate_limit_recovery now fresh"
proof -
  let ?c = "''test-client''" and ?later = "now + 20 * nanos_per_sec"
  have rep: "representable (now - 100 * nanos_per_sec)"
    using assms(1,2) zdiv_mono1 [of "now - 120 * nanos_per_sec" "now - 100 * nanos_per_sec" nanos_per_sec]
      zdiv_mono1 [of "now - 100 * nanos_per_sec" ?later nanos_per_sec]
    by (simp add: representable_def)
  then have late: "representable (?later - 120 * nanos_per_sec)" by (simp add: algebra_simps)
  obtain rs where rs: "checks ?c now (replicate 3 fresh) storage_of_3 = (rs, one_client storage_of_3 ?c 0 now)"
    using three_checks [OF assms(1,3)] by blast
  obtain rs' where rs': "checks ?c ?later (replicate 3 fresh) (one_client storage_of_3 ?c 0 ?later) =
      (rs', one_client storage_of_3 ?c 0 ?later)"
    using checks_one [of storage_of_3 0 ?later ?c "replicate 3 fresh"] storage_of_3_simps late by auto
  obtain retry where r2: "check_and_consume ?c ?later fresh (one_client storage_of_3 ?c 0 ?later) =
      (Done (False, retry), one_client storage_of_3 ?c 0 ?later)" "0 < retry"
    using rejected_at_zero [OF late] by blast
  show ?thesis
    unfolding test_rate_limit_recovery_def Let_def rs refilled_after_20 [OF rep] rs' r2(1) prod.case
    using r2(2) by simp
qed

text \<open>The first client is stale after fifteen seconds with a time to live of ten.\<close>

lemma test_stale_cleanup_passes:
  assumes "representable (now - 10 * nanos_per_sec)" and "representable (now + 5 * nanos_per_sec)" and "now \<le> fresh1"
  shows "test_stale_cleanup now fresh1 fresh2"
proof -
  let ?s = "rate_limit_storage_new (rate_limit_config_new 10 60) (10 * 1000000000)"
  have first: "check_and_consume ''client1'' now fresh1 ?s =
      (Done (True, 0), one_client ?s ''client1'' (unat (capacity (rl_config ?s)) - 1) now)"
    by (rule check_new)
       (use assms in \<open>simp_all add: rate_limit_storage_new_def rate_limit_config_new_def word_less_nat_alt\<close>)
  show ?thesis
    unfolding test_stale_cleanup_def Let_def first prod.case
    using assms(2)
    by (simp add: check_and_consume_def cleanup_stale_def hm_retain_def one_client_def rate_limit_storage_new_def
        storage_len_def algebra_simps) (auto simp: Let_def split: prod.splits)
qed

section \<open>The statistics storage, \<open>crates/domain/src/stats.rs\<close>\<close>

text \<open>Three links with two, one and three hits at the readings \<open>at\<close>; the top two are the third and the first.\<close>

definition test_stats_storage_top :: "(nat \<Rightarrow> system_time) \<Rightarrow> bool" where
  "test_stats_storage_top t =
     (let storage = stats_storage_new;
          (stats1, storage) = get_or_create ''a'' storage;
          storage = arc_record_hit stats1 (t 1) (arc_record_hit stats1 (t 0) storage);
          (stats2, storage) = get_or_create ''b'' storage;
          storage = arc_record_hit stats2 (t 2) storage;
          (stats3, storage) = get_or_create ''c'' storage;
          storage = arc_record_hit stats3 (t 5) (arc_record_hit stats3 (t 4) (arc_record_hit stats3 (t 3) storage));
          top = get_top 2 storage
      in length top = 2 \<and> top ! 0 = (''c'', 3) \<and> top ! 1 = (''a'', 2))"

lemma test_stats_storage_top_passes: "test_stats_storage_top t"
  by (simp add: test_stats_storage_top_def Let_def get_or_create_def stats_storage_new_def arc_record_hit_def
      get_top_def record_hit_total new_total word_le_nat_alt)

section \<open>The cache, \<open>crates/storage/src/cache.rs\<close>\<close>

definition test_link_key_format :: bool where
  "test_link_key_format \<longleftrightarrow> link_key ''abc123'' = ''shorty:v1:link:abc123''"

lemma test_link_key_format_passes: test_link_key_format
  by (simp add: test_link_key_format_def link_key_def)

text \<open>For the hundred offsets that are drawn.\<close>

definition test_jittered_ttl_stays_in_bounds :: "i64 list \<Rightarrow> bool" where
  "test_jittered_ttl_stays_in_bounds offsets =
     list_all (\<lambda>offset. case jittered_ttl (cache_cfg (cache_disabled :: unit cache)) offset of
        Panic \<Rightarrow> False | Done ttl \<Rightarrow> 50 \<le> ttl \<and> ttl \<le> 70) offsets"

lemma test_jittered_ttl_passes:
  assumes "\<forall>offset \<in> set offsets. - 10 \<le> sint offset \<and> sint offset \<le> 10"
  shows "test_jittered_ttl_stays_in_bounds offsets"
  unfolding test_jittered_ttl_stays_in_bounds_def list_all_iff
proof
  fix offset assume "offset \<in> set offsets"
  then have o: "- 10 \<le> sint offset" "sint offset \<le> 10" using assms by auto
  obtain ttl where "jittered_ttl cache_config_default offset = Done ttl" "int (unat ttl) = max (60 + sint offset) 1"
    using jittered_ttl_bounds [of cache_config_default offset] o by (auto simp: cache_config_default_def)
  moreover from this(2) have "50 \<le> unat ttl \<and> unat ttl \<le> 70" using o by linarith
  ultimately show "case jittered_ttl (cache_cfg (cache_disabled :: unit cache)) offset of Panic \<Rightarrow> False | Done ttl \<Rightarrow> 50 \<le> ttl \<and> ttl \<le> 70"
    by (simp add: cache_disabled_def word_le_nat_alt)
qed

section \<open>The cleaner, \<open>shorty-server/src/cleanup.rs\<close>\<close>

text \<open>
  The ticks at once and after thirty seconds, with the wall clock's readings at the purges; then the
  token is cancelled and the task exits.
\<close>

definition cleaner_purges_expired_links :: "system_time \<Rightarrow> system_time \<Rightarrow> system_time \<Rightarrow> system_time \<Rightarrow> bool" where
  "cleaner_purges_expired_links made now0 wall1 wall2 =
     (let old = with_expires_at (short_link_new ''old'' ''https://example.com/old'' made) (now0 - 3600 * nanos_per_sec);
          (r1, repo) = insert_sync old in_memory_new;
          (r2, repo) = insert_sync (short_link_new ''fresh'' ''https://example.com/fresh'' made) repo;
          period = 30 * nanos_per_sec;
          c = cleaner_tick in_memory_ops period period wall2
                (cleaner_tick in_memory_ops period 0 wall1 (spawn_cleaner repo 0))
      in r1 = Inr () \<and> r2 = Inr () \<and>
         (case get_sync ''old'' (cl_repo c) of Inl _ \<Rightarrow> True | Inr _ \<Rightarrow> False) \<and>
         (case get_sync ''fresh'' (cl_repo c) of Inl _ \<Rightarrow> False | Inr _ \<Rightarrow> True))"

lemma tick_purges:
  "cl_repo (cleaner_tick in_memory_ops period t wall c) = snd (purge_expired_sync wall (cl_repo c))"
  by (simp add: cleaner_tick_def in_memory_ops_simps split_beta Let_def)

lemma get_after_purges:
  assumes "in_memory_inv s" and "in_memory_view s = v"
  shows "get_sync c (snd (purge_expired_sync wall2 (snd (purge_expired_sync wall1 s)))) =
    (case live_view wall2 (live_view wall1 v) c of None \<Rightarrow> Inl (NotFound c) | Some st \<Rightarrow> Inr (stats_link st))"
  using purge_sync_view [OF purge_sync_inv [OF assms(1)], of wall2 wall1] purge_sync_view [OF assms(1), of wall1] assms(2)
  by (simp add: get_sync_view)

lemma cleaner_purges_expired_links_passes:
  assumes "now0 \<le> wall1"
  shows "cleaner_purges_expired_links made now0 wall1 wall2"
proof -
  let ?old = "with_expires_at (short_link_new ''old'' ''https://example.com/old'' made) (now0 - 3600 * nanos_per_sec)"
  let ?fresh = "short_link_new ''fresh'' ''https://example.com/fresh'' made"
  obtain s1 s2 where ins: "insert_sync ?old in_memory_new = (Inr (), s1)" "insert_sync ?fresh s1 = (Inr (), s2)"
    by (simp add: insert_sync_def in_memory_new_def short_link_new_def with_expires_at_def)
  have s: "s1 = snd (insert_sync ?old in_memory_new)" "s2 = snd (insert_sync ?fresh s1)" using ins by simp_all
  have inv: "in_memory_inv s2" unfolding s by (intro insert_sync_inv in_memory_inv_new)
  have view: "in_memory_view s2 = [''old'' \<mapsto> \<lparr>stats_link = ?old, stats_hits = 0\<rparr>, ''fresh'' \<mapsto> \<lparr>stats_link = ?fresh, stats_hits = 0\<rparr>]"
    unfolding s by (simp add: insert_sync_view short_link_new_def with_expires_at_def)
  let ?repo = "snd (purge_expired_sync wall2 (snd (purge_expired_sync wall1 s2)))"
  have "get_sync ''old'' ?repo = Inl (NotFound ''old'')" "get_sync ''fresh'' ?repo = Inr ?fresh"
    using assms
    unfolding get_after_purges [OF inv view]
    by (simp_all add: live_view_def short_link_new_def with_expires_at_def is_expired_def)
  then show ?thesis
    unfolding cleaner_purges_expired_links_def Let_def ins prod.case tick_purges
    by (simp add: spawn_cleaner_def)
qed

text \<open>The exit is a step once the token is cancelled, and nothing else ends the task.\<close>

lemma cleaner_exits_after_cancel:
  "cl_running c \<Longrightarrow> \<exists>c'. cleaner_runs in_memory_ops period c [Cancel, Exit] c' \<and> \<not> cl_running c'"
  by (simp add: cleaner_runs_simps cleaner_step_simps)

section \<open>The middleware, \<open>shorty-server/src/api/rate_limit.rs\<close>\<close>

definition test_request :: "string \<Rightarrow> http_request" where
  "test_request key =
     \<lparr>rq_method = ''GET'', rq_path = ''/test'', rq_header = [''x-api-key'' \<mapsto> Some key], rq_remote = None\<rparr>"

fun status_of :: "(app_error + nat) run \<Rightarrow> nat option" where
  "status_of Panic = None"
| "status_of (Done (Inl e)) = Some (resp_status (into_response None e))"
| "status_of (Done (Inr status)) = Some status"

definition test_rate_limit_middleware :: "instant \<Rightarrow> instant \<Rightarrow> bool" where
  "test_rate_limit_middleware now fresh =
     (let ok = (\<lambda>req s. (200, s));
          call = (\<lambda>key s. rate_limit_middleware ok (test_request key) now fresh s);
          (r1, s) = call ''test-client'' (rate_limit_state_new 3 60 120, ());
          (r2, s) = call ''test-client'' s;
          (r3, s) = call ''test-client'' s;
          (r4, s) = call ''test-client'' s;
          (r5, s) = call ''other-client'' s
      in list_all (\<lambda>r. status_of r = Some 200) [r1, r2, r3] \<and> status_of r4 = Some 429 \<and> status_of r5 = Some 200)"

lemma middleware_step:
  assumes "check_and_consume (''api-key:'' @ key) now fresh st = (Done (allowed, retry), st')"
  shows "rate_limit_middleware (\<lambda>req s. (200 :: nat, s)) (test_request key) now fresh (st, s) =
    (Done (if allowed then Inr 200 else Inl (App_RateLimitExceeded retry)), st', s)"
  using assms by (simp add: rate_limit_middleware_def check_limit_def client_id_api_key test_request_def)

lemma test_rate_limit_middleware_passes:
  assumes "representable (now - 120 * nanos_per_sec)" and "now \<le> fresh"
  shows "test_rate_limit_middleware now fresh"
proof -
  let ?c = "''api-key:'' @ ''test-client''" and ?d = "''api-key:'' @ ''other-client''"
  have st: "rate_limit_state_new 3 60 120 = storage_of_3"
    by (simp add: rate_limit_state_new_def)
  have cap: "unat (capacity (rl_config storage_of_3)) \<le> 2 ^ 53" using storage_of_3_simps(2) by simp
  have rep: "representable (now - int (rl_ttl storage_of_3))" using assms(1) storage_of_3_simps(3) by simp
  have c1: "check_and_consume ?c now fresh storage_of_3 = (Done (True, 0), one_client storage_of_3 ?c 2 now)"
    using check_new [OF storage_of_3_simps(1) cap _ rep storage_of_3_simps(4) assms(2), of ?c] storage_of_3_simps(2) by simp
  have step: "check_and_consume ?c now fresh (one_client storage_of_3 ?c k now) =
      (Done (True, 0), one_client storage_of_3 ?c (k - 1) now)" if "0 < k" "k \<le> 3" for k
    using check_one [OF storage_of_3_simps(1) cap _ rep, of k ?c fresh] storage_of_3_simps(2) that by auto
  have c2: "check_and_consume ?c now fresh (one_client storage_of_3 ?c 2 now) =
      (Done (True, 0), one_client storage_of_3 ?c 1 now)" using step [of 2] by simp
  have c3: "check_and_consume ?c now fresh (one_client storage_of_3 ?c 1 now) =
      (Done (True, 0), one_client storage_of_3 ?c 0 now)" using step [of 1] by simp
  obtain retry where c4: "check_and_consume ?c now fresh (one_client storage_of_3 ?c 0 now) =
      (Done (False, retry), one_client storage_of_3 ?c 0 now)" "0 < retry"
    using rejected_at_zero [OF assms(1)] by blast
  obtain r st' where c5: "check_and_consume ?d now fresh (one_client storage_of_3 ?c 0 now) = (Done (True, r), st')"
    by (rule check_whole [of "one_client storage_of_3 ?c 0 now" 3 now ?d fresh fresh])
       (use assms storage_of_3_simps f64_of_nat_exact [of 3] in
         \<open>auto simp: one_client_def bucket_for_def new_full_def f64_of_u64_def\<close>)
  note steps = middleware_step [OF c1] middleware_step [OF c2] middleware_step [OF c3]
    middleware_step [OF c4(1)] middleware_step [OF c5]
  show ?thesis
    unfolding test_rate_limit_middleware_def Let_def st steps prod.case
    by (simp add: into_response_def Let_def)
qed

section \<open>The statistics endpoints, \<open>shorty-server/src/api/stats.rs\<close>\<close>

text \<open>
  Two hits on a link, recorded in the storage of the application state, as the endpoints report them.
  The readings are those of the link, of the two hits, of the expiry check and of the window.
\<close>

definition test_stats_endpoints ::
  "(in_memory_repo, 'r) services \<Rightarrow> system_time \<Rightarrow> system_time \<Rightarrow> system_time \<Rightarrow> system_time \<Rightarrow> system_time \<Rightarrow> bool" where
  "test_stats_endpoints sv made hit1 hit2 now at_read =
     (case insert_sync (short_link_new ''test'' ''https://example.com'' made) in_memory_new of
        (Inl _, _) \<Rightarrow> False
      | (Inr _, repo) \<Rightarrow>
          let (stats, storage) = get_or_create ''test'' stats_storage_new;
              storage = arc_record_hit stats hit2 (arc_record_hit stats hit1 storage);
              state = \<lparr>as_repo = repo, as_stats = storage, as_cache = cache_disabled\<rparr>;
              top = get_top_stats \<lparr>tq_limit = 10\<rparr> state
          in (case get_link_stats sv ''test'' now at_read state of
                (Done (Inr response), _) \<Rightarrow>
                  response = \<lparr>sr_code = ''test'', sr_total_hits = 2, sr_hits_last_60s = 2\<rparr>
              | _ \<Rightarrow> False) \<and>
             top = [\<lparr>tl_code = ''test'', tl_total_hits = 2\<rparr>])"

lemma test_stats_endpoints_passes:
  assumes "sv_repo sv = in_memory_ops" and "hit1 \<le> hit2" and "hit2 \<le> at_read" and "at_read \<le> hit1 + 59 * nanos_per_sec"
    and "0 \<le> hit1" and "representable at_read"
  shows "test_stats_endpoints sv made hit1 hit2 now at_read"
proof -
  let ?w = "foldl window_record_hit window_new [hit1, hit2]"
  have rep: "representable t" if "0 \<le> t" "t \<le> at_read" for t
    by (rule representable_between [OF _ assms(6) that]) (simp add: representable_def)
  have "epoch_sec at_read \<le> epoch_sec hit1 + 59" using epoch_sec_within [of hit1 at_read 59] assms by simp
  then have "epoch_sec hit2 < epoch_sec hit1 + 60" "\<not> epoch_sec hit2 + 60 \<le> epoch_sec at_read"
    using epoch_sec_mono [of hit2 at_read] epoch_sec_mono [of hit1 hit2] assms rep by auto
  then have "get_last_60s ?w at_read = 2"
    using last_60s_count [of "[hit1, hit2]" at_read] rep assms by simp
  then show ?thesis
    using assms(1)
    by (simp add: test_stats_endpoints_def Let_def insert_sync_def in_memory_new_def short_link_new_def
        get_or_create_def stats_storage_new_def arc_record_hit_def get_link_stats_def h_bind_def h_repo_def h_result_def on_repo_def
        repo_result_def in_memory_ops_simps
        get_sync_def link_entry_new_def is_expired_def read_counts_def storage_get_def arc_read_def get_top_stats_def
        get_top_def top_query_limit_def record_hit_total new_total word_le_nat_alt min_def)
qed

section \<open>Authentication and gRPC\<close>

text \<open>A hash that the library makes is valid, and matches its own password only.\<close>

definition hash_then_verify :: "('ek, 'dk) crypto \<Rightarrow> string \<Rightarrow> string \<Rightarrow> bool" where
  "hash_then_verify C password other \<longleftrightarrow>
     password_hash_valid C (hash_password C password) \<and> password_matches C password (hash_password C password) \<and>
     \<not> password_matches C other (hash_password C password)"

definition test_argon2_hash_and_verify :: "('ek, 'dk) crypto \<Rightarrow> bool" where
  "test_argon2_hash_and_verify C =
     (let hash = hash_password C ''test_password''
      in (case verify_password C ''test_password'' hash of Inl _ \<Rightarrow> False | Inr _ \<Rightarrow> True) \<and>
         (case verify_password C ''wrong_password'' hash of Inl _ \<Rightarrow> True | Inr _ \<Rightarrow> False))"

lemma test_argon2_passes:
  "hash_then_verify C ''test_password'' ''wrong_password'' \<Longrightarrow> test_argon2_hash_and_verify C"
  by (simp add: test_argon2_hash_and_verify_def hash_then_verify_def verify_password_def)

definition test_claims_creation :: "('ek, 'dk) crypto \<Rightarrow> system_time \<Rightarrow> bool" where
  "test_claims_creation C now =
     (case claims_new C ''user123'' ''user'' ''issuer'' ''audience'' 300 now of
        Panic \<Rightarrow> False
      | Done claims \<Rightarrow> cl_sub claims = ''user123'' \<and> cl_role claims = ''user'')"

lemma test_claims_creation_passes: "test_claims_creation C now \<longleftrightarrow> utc_add_seconds C now 300 \<noteq> Panic"
  by (simp add: test_claims_creation_def claims_new_def split: run.split)

definition test_protobuf_timestamp_roundtrip :: "system_time \<Rightarrow> bool" where
  "test_protobuf_timestamp_roundtrip now = (0 <s pt_seconds (protobuf_timestamp now))"

lemma test_protobuf_timestamp_passes:
  assumes "representable now" and "nanos_per_sec \<le> now"
  shows "test_protobuf_timestamp_roundtrip now"
proof -
  have "0 < now div 1000000000 \<and> now div 1000000000 < 2 ^ 63"
    using assms zdiv_mono1 [of 1000000000 now 1000000000] by (simp add: representable_def)
  then show ?thesis
    using assms
    by (simp add: test_protobuf_timestamp_roundtrip_def protobuf_timestamp_def Let_def as_secs_def since_epoch_def
        word_sless_alt signed_of_nat zdiv_int signed_take_bit_int_eq_self)
qed

end
