(* ===== verification/Rate_Bound.thy ===== *)
theory Rate_Bound
  imports Rate_Limit_Storage
begin

text \<open>
  How many requests a token bucket grants over time, \<open>crates/domain/src/rate_limit.rs\<close>: with all its
  roundings never more than the capacity, what the rate refills in between, and one.
\<close>

section \<open>Errors of rounding\<close>

definition rel_err :: rat where
  "rel_err = 1 / 2 ^ 53"

definition abs_err :: rat where
  "abs_err = 1 / 2 ^ 200"

lemma err_pos: "0 < rel_err" "0 < abs_err" "0 \<le> rel_err" "0 \<le> abs_err"
  by (simp_all add: rel_err_def abs_err_def)

lemma round_half_even_close: "of_int (round_half_even x) \<le> x + 1 / 2"
proof -
  have "of_int \<lfloor>x\<rfloor> \<le> x" by simp
  moreover have "x - of_int \<lfloor>x\<rfloor> < 1 / 2 \<Longrightarrow> round_half_even x = \<lfloor>x\<rfloor>"
    "round_half_even x = \<lfloor>x\<rfloor> \<or> round_half_even x = \<lfloor>x\<rfloor> + 1"
    by (simp_all add: round_half_even_def Let_def)
  ultimately show ?thesis by (cases "x - of_int \<lfloor>x\<rfloor> < 1 / 2") (auto simp del: of_int_floor_le)
qed

lemma round_pos_close:
  assumes "0 < x"
  shows "round_pos x \<le> x + pow2 (ulp_exp x) / 2"
proof -
  let ?u = "pow2 (ulp_exp x)"
  have "of_int (round_half_even (x / ?u)) * ?u \<le> (x / ?u + 1 / 2) * ?u"
    by (rule mult_right_mono [OF round_half_even_close]) (simp add: less_imp_le)
  also have "\<dots> = x + ?u / 2" using pow2_pos [of "ulp_exp x"] by (simp add: algebra_simps)
  finally show ?thesis by (simp add: round_pos_def)
qed

lemma half_ulp:
  assumes "0 < x"
  shows "pow2 (ulp_exp x) / 2 \<le> x * rel_err + abs_err"
proof -
  have "pow2 (floor_log2 x - 52) = pow2 (floor_log2 x) * pow2 (- 52)"
    using pow2_add [of "floor_log2 x" "- 52"] by simp
  also have "\<dots> \<le> x * pow2 (- 52)"
    by (rule mult_right_mono [OF floor_log2_bounds(1) [OF assms]]) (simp add: less_imp_le)
  also have "\<dots> = x * rel_err * 2" by (simp add: rel_err_def power_int_minus)
  finally have 1: "pow2 (floor_log2 x - 52) \<le> x * rel_err * 2" .
  have "pow2 (- 1074) \<le> pow2 (- 199)" by (rule pow2_mono) simp
  also have "\<dots> = abs_err * 2" by (simp add: abs_err_def power_int_minus)
  finally have 2: "pow2 (- 1074) \<le> abs_err * 2" .
  have "0 \<le> x * rel_err" using assms err_pos by simp
  then show ?thesis using 1 2 err_pos by (auto simp: ulp_exp_def max_def)
qed

lemma f64_round_up:
  assumes "0 \<le> x" and "f64_round x = Fin y"
  shows "y \<le> x + x * rel_err + abs_err"
  using assms round_pos_close [of x] half_ulp [of x] err_pos
  by (auto simp: f64_round_def Let_def split: if_splits)

text \<open>Small numbers stay finite, and taking one token off is exact.\<close>

lemma f64_round_finite:
  assumes "0 \<le> x" and "x \<le> 2 ^ 53"
  obtains y where "f64_round x = Fin y" and "0 \<le> y" and "y \<le> x + x * rel_err + abs_err"
proof -
  have "f64_round (2 ^ 53) = Fin (2 ^ 53)"
    using f64_round_repr [OF f64_repr_of_nat [of "2 ^ 53"]] by simp
  then obtain y where "f64_round x = Fin y" "0 \<le> y" using f64_round_bounded [OF assms] by blast
  then show thesis using that f64_round_up [OF assms(1)] by blast
qed

lemma f64_repr_minus_one:
  assumes "f64_repr q" and "1 \<le> q" and "q \<le> 2 ^ 53"
  shows "f64_repr (q - 1)"
proof -
  obtain m e where q: "q = of_int m * pow2 e" and e: "- 1074 \<le> e" and m: "\<bar>m\<bar> \<le> 2 ^ 53"
    and lim: "\<bar>q\<bar> < f64_limit"
    using assms(1) by (auto simp: f64_repr_def)
  have lim': "\<bar>q - 1\<bar> < f64_limit" using lim assms(2) by linarith
  show ?thesis
  proof (cases "0 \<le> e")
    case True
    let ?k = "m * 2 ^ nat e - 1"
    have k: "q - 1 = of_int ?k * pow2 0" using q True by (simp add: power_int_nonneg_exp)
    then have "0 \<le> (of_int ?k :: rat)" "of_int ?k \<le> (of_int (2 ^ 53) :: rat)" using assms(2,3) by simp_all
    then have "\<bar>?k\<bar> \<le> 2 ^ 53" by (simp only: of_int_le_iff of_int_0_le_iff abs_of_nonneg)
    then show ?thesis unfolding f64_repr_def using k lim' by (intro conjI exI [of _ ?k] exI [of _ 0]) auto
  next
    case False
    let ?k = "m - 2 ^ nat (- e)"
    have one: "1 = of_int (2 ^ nat (- e)) * pow2 e" using pow2_multiple [of e 0] False by simp
    have k: "q - 1 = of_int ?k * pow2 e" using q one by (simp add: algebra_simps)
    have "0 \<le> of_int ?k * pow2 e" using k assms(2) by simp
    then have "0 \<le> (of_int ?k :: rat)" using mult_neg_pos [OF _ pow2_pos [of e], of "of_int ?k"] by (meson not_le)
    then have "0 \<le> ?k" by (simp only: of_int_0_le_iff)
    moreover have "?k \<le> m" by simp
    ultimately have "\<bar>?k\<bar> \<le> 2 ^ 53" using m by linarith
    then show ?thesis unfolding f64_repr_def using k e lim' by (intro conjI exI [of _ ?k] exI [of _ e]) auto
  qed
qed

lemma f64_take_one: "f64_repr q \<Longrightarrow> 1 \<le> q \<Longrightarrow> q \<le> 2 ^ 53 \<Longrightarrow> f64_sub (Fin q) (Fin 1) = Fin (q - 1)"
  using f64_round_repr [OF f64_repr_minus_one] by (simp add: f64_sub_def)

section \<open>The errors of one request\<close>

text \<open>The seconds that pass, and the rate without its rounding.\<close>

definition secs_of :: "nat \<Rightarrow> rat" where
  "secs_of d = of_nat d / 1000000000"

definition exact_rate :: "rate_limit_config \<Rightarrow> rat" where
  "exact_rate config = of_nat (unat (capacity config)) / of_nat (unat (period_secs config))"

lemma secs_of_parts: "secs_of d = of_nat (d div 1000000000) + of_nat (subsec_nanos d) / 1000000000"
proof -
  have "(of_nat d :: rat) = of_nat (d div 1000000000 * 1000000000 + subsec_nanos d)"
    unfolding subsec_nanos_def by (simp only: div_mult_mod_eq)
  then show ?thesis by (simp add: secs_of_def add_divide_distrib)
qed

lemma rel_err_small: "0 \<le> x \<Longrightarrow> x * rel_err * rel_err \<le> x * rel_err"
  by (simp add: rel_err_def)

lemma as_secs_up:
  assumes "secs_of d \<le> 2 ^ 52"
  obtains e where "as_secs_f64 d = Fin e" and "0 \<le> e" and "e \<le> secs_of d + 3 * (secs_of d * rel_err) + 3 * abs_err"
proof -
  let ?s = "of_nat (d div 1000000000) :: rat" and ?n = "of_nat (subsec_nanos d) / 1000000000 :: rat"
  have n0: "0 \<le> ?n" and s0: "0 \<le> ?s" by simp_all
  have D: "secs_of d = ?s + ?n" by (rule secs_of_parts)
  have "?s \<le> of_nat (2 ^ 52)" using assms D n0 by simp
  then have "d div 1000000000 \<le> 2 ^ 52" by (simp only: of_nat_le_iff)
  then have "d div 1000000000 \<le> 2 ^ 53" by simp
  from as_secs_f64_parts [OF this] obtain x where x: "f64_round ?n = Fin x" "0 \<le> x" "x \<le> 1"
    and e: "as_secs_f64 d = f64_round (?s + x)" by blast
  have x_up: "x \<le> ?n + ?n * rel_err + abs_err" by (rule f64_round_up [OF n0 x(1)])
  have "0 \<le> ?s + x" "?s + x \<le> 2 ^ 53" using assms D n0 s0 x(2,3) by simp_all
  then obtain y where y: "f64_round (?s + x) = Fin y" "0 \<le> y" "y \<le> ?s + x + (?s + x) * rel_err + abs_err"
    using f64_round_finite by blast
  let ?D = "secs_of d"
  have "?n * rel_err \<le> ?D * rel_err" using D s0 err_pos by (intro mult_right_mono) auto
  then have sx: "?s + x \<le> ?D + ?D * rel_err + abs_err" using x_up D by simp
  have "(?s + x) * rel_err \<le> (?D + ?D * rel_err + abs_err) * rel_err" using sx err_pos by (intro mult_right_mono) auto
  also have "\<dots> = ?D * rel_err + ?D * rel_err * rel_err + abs_err * rel_err" by (simp add: algebra_simps)
  also have "\<dots> \<le> ?D * rel_err + ?D * rel_err + abs_err"
    using rel_err_small [of ?D] D n0 s0 by (intro add_mono) (auto simp: abs_err_def rel_err_def)
  finally have "y \<le> ?D + 3 * (?D * rel_err) + 3 * abs_err" using y(3) sx by linarith
  then show thesis using that e y by simp
qed

lemma ratio_bounds:
  assumes "0 < p" and "c \<le> 2 ^ 53"
  shows "0 \<le> (of_nat c / of_nat p :: rat)" and "(of_nat c / of_nat p :: rat) \<le> 2 ^ 53"
proof -
  have p: "(1 :: rat) \<le> of_nat p" using assms(1) by (metis One_nat_def Suc_leI of_nat_1 of_nat_mono)
  have "(of_nat c :: rat) \<le> of_nat (2 ^ 53)" using assms(2) by (simp only: of_nat_le_iff)
  moreover have "(of_nat c / of_nat p :: rat) \<le> of_nat c"
    using p mult_left_mono [OF p, of "of_nat c"] by (simp add: pos_divide_le_eq)
  ultimately show "(of_nat c / of_nat p :: rat) \<le> 2 ^ 53" by simp
qed simp

lemma exact_rate_nat:
  assumes "c = unat (capacity config)" and "p = unat (period_secs config)"
  shows "exact_rate config = of_nat c / of_nat p"
  by (simp only: exact_rate_def assms)

lemma exact_rate_bounds:
  assumes "0 < period_secs config" and "unat (capacity config) \<le> 2 ^ 53"
  shows "0 \<le> exact_rate config" and "exact_rate config \<le> 2 ^ 53"
  using ratio_bounds [OF _ assms(2)] assms(1)
  by (simp_all only: exact_rate_nat [OF refl refl] word_less_nat_alt unat_0)

lemma rate_up:
  assumes "0 < period_secs config" and "unat (capacity config) \<le> 2 ^ 53" and "unat (period_secs config) \<le> 2 ^ 53"
  obtains r where "refill_rate config = Fin r" and "0 \<le> r"
    and "r \<le> exact_rate config + exact_rate config * rel_err + abs_err"
proof -
  obtain c p where n: "c = unat (capacity config)" "p = unat (period_secs config)" by simp
  have p: "0 < p" using assms(1) by (simp only: n word_less_nat_alt unat_0)
  have f: "f64_of_u64 (capacity config) = Fin (of_nat c)" "f64_of_u64 (period_secs config) = Fin (of_nat p)"
    using assms(2,3) by (simp_all only: n f64_of_u64_def f64_of_nat_exact)
  obtain r where r: "f64_round (of_nat c / of_nat p) = Fin r" "0 \<le> r"
    "r \<le> exact_rate config + exact_rate config * rel_err + abs_err"
    using f64_round_finite [OF exact_rate_bounds [OF assms(1,2)]] unfolding exact_rate_nat [OF n] by blast
  have "refill_rate config = Fin r" using f p r(1) by (simp add: refill_rate_def)
  with that r(2,3) show thesis by blast
qed

text \<open>What is refilled between two requests.\<close>

lemma product_up:
  fixes D \<rho> e r :: rat
  assumes D: "0 \<le> D" "D \<le> 2 ^ 52" and \<rho>: "0 \<le> \<rho>" "\<rho> \<le> 2 ^ 53"
    and e: "0 \<le> e" "e \<le> D + 3 * (D * rel_err) + 3 * abs_err"
    and r: "0 \<le> r" "r \<le> \<rho> + \<rho> * rel_err + abs_err"
  shows "e * r \<le> D * \<rho> + 5 * (D * \<rho> * rel_err) + 1 / 2 ^ 140"
proof -
  let ?\<delta> = rel_err and ?\<eta> = abs_err
  have "e * r \<le> (D + 3 * (D * ?\<delta>) + 3 * ?\<eta>) * (\<rho> + \<rho> * ?\<delta> + ?\<eta>)"
    using e r by (intro mult_mono) auto
  also have "\<dots> = D * \<rho> * ((1 + 3 * ?\<delta>) * (1 + ?\<delta>)) + D * (1 + 3 * ?\<delta>) * ?\<eta> + 3 * ?\<eta> * (\<rho> * (1 + ?\<delta>)) + 3 * ?\<eta> * ?\<eta>"
    by (simp add: algebra_simps)
  also have "\<dots> \<le> D * \<rho> * (1 + 5 * ?\<delta>) + 2 ^ 52 * 2 * ?\<eta> + 3 * ?\<eta> * (2 ^ 53 * 2) + 3 * ?\<eta> * 1"
    using D \<rho> by (intro add_mono mult_mono) (auto simp: rel_err_def abs_err_def)
  also have "\<dots> \<le> D * \<rho> * (1 + 5 * ?\<delta>) + 1 / 2 ^ 140" by (simp add: abs_err_def)
  finally show ?thesis by (simp add: algebra_simps)
qed

lemma refill_up:
  assumes config: "0 < period_secs config" "unat (capacity config) \<le> 2 ^ 53" "unat (period_secs config) \<le> 2 ^ 53"
    and D: "secs_of d \<le> 2 ^ 52" "secs_of d * exact_rate config \<le> 2 ^ 50"
  obtains f where "f64_mul (as_secs_f64 d) (refill_rate config) = Fin f" and "0 \<le> f"
    and "f \<le> secs_of d * exact_rate config + 7 * (secs_of d * exact_rate config * rel_err) + 1 / 2 ^ 130"
proof -
  let ?X = "secs_of d * exact_rate config"
  obtain e where e: "as_secs_f64 d = Fin e" "0 \<le> e" "e \<le> secs_of d + 3 * (secs_of d * rel_err) + 3 * abs_err"
    using as_secs_up [OF D(1)] by blast
  obtain r where r: "refill_rate config = Fin r" "0 \<le> r" "r \<le> exact_rate config + exact_rate config * rel_err + abs_err"
    using rate_up [OF config] by blast
  have d0: "0 \<le> secs_of d" by (simp add: secs_of_def)
  then have X0: "0 \<le> ?X" using exact_rate_bounds(1) [OF config(1,2)] by simp
  have er: "e * r \<le> ?X + 5 * (?X * rel_err) + 1 / 2 ^ 140"
    by (rule product_up [OF d0 D(1) exact_rate_bounds [OF config(1,2)] e(2,3) r(2,3)])
  have "X + 5 * (X * rel_err) + 1 / 2 ^ 140 \<le> 2 ^ 53" if "X \<le> 2 ^ 50" for X
    using that by (simp add: rel_err_def)
  from this [OF D(2)] have "?X + 5 * (?X * rel_err) + 1 / 2 ^ 140 \<le> 2 ^ 53" .
  then have "e * r \<le> 2 ^ 53" using er by linarith
  then obtain f where f: "f64_round (e * r) = Fin f" "0 \<le> f" "f \<le> e * r + e * r * rel_err + abs_err"
    using f64_round_finite [of "e * r"] e(2) r(2) by auto
  have up: "e * r * rel_err \<le> (?X + 5 * (?X * rel_err) + 1 / 2 ^ 140) * rel_err"
    using er err_pos by (intro mult_right_mono) auto
  have "(X + 5 * (X * rel_err) + 1 / 2 ^ 140) * rel_err \<le> 2 * (X * rel_err) + 1 / 2 ^ 140" if "0 \<le> X" for X
    using that by (simp add: rel_err_def)
  from this [OF X0] have "f \<le> ?X + 7 * (?X * rel_err) + 1 / 2 ^ 130" using up er f(3) by (simp add: abs_err_def)
  then show thesis using that e(1) r(1) f by simp
qed

text \<open>One request takes off a token at most what was refilled, and an error that the capacity bounds.\<close>

definition step_err :: "rate_limit_config \<Rightarrow> rat" where
  "step_err config = of_nat (unat (capacity config)) * rel_err + 1 / 2 ^ 120"

lemma request_up:
  assumes config: "0 < period_secs config" "unat (capacity config) \<le> 2 ^ 53" "unat (period_secs config) \<le> 2 ^ 53"
    and ok: "bucket_ok config st" "tokens st = Fin q"
    and d: "d = duration_since now (last_update st)"
    and D: "secs_of d \<le> 2 ^ 52" "secs_of d * exact_rate config \<le> 2 ^ 50"
    and run: "try_consume st config now = (g, st', retry)"
  obtains q' where "tokens st' = Fin q'" and "0 \<le> q'"
    and "q' + (if g then 1 else 0) \<le>
      q + secs_of d * exact_rate config + 7 * (secs_of d * exact_rate config * rel_err) + step_err config"
proof -
  let ?X = "secs_of d * exact_rate config"
  obtain n where n: "n = unat (capacity config)" by simp
  have cap: "f64_of_u64 (capacity config) = Fin (of_nat n)"
    using config(2) by (simp only: n f64_of_u64_def f64_of_nat_exact)
  have "(of_nat n :: rat) \<le> of_nat (2 ^ 53)" using config(2) by (simp only: n of_nat_le_iff)
  then have c53: "(of_nat n :: rat) \<le> 2 ^ 53" by simp
  have q: "0 \<le> q" "q \<le> of_nat n" using ok cap by (auto simp: bucket_ok_def)
  obtain f where f: "f64_mul (as_secs_f64 d) (refill_rate config) = Fin f" "0 \<le> f"
    "f \<le> ?X + 7 * (?X * rel_err) + 1 / 2 ^ 130"
    using refill_up [OF config D] by blast
  have ref: "refilled st config now = f64_min (f64_round (q + f)) (Fin (of_nat n))"
    using f(1) ok(2) cap by (simp add: refilled_def flip: d)
  obtain v where v: "refilled st config now = Fin v" "0 \<le> v" "v \<le> of_nat n" "f64_repr v"
    using refilled_bounds [OF ok(1), of now] cap by auto
  have v_up: "v \<le> q + f + of_nat n * rel_err + abs_err"
  proof (cases "of_nat n \<le> q + f")
    case True
    then show ?thesis using v(3) err_pos by (simp add: add_increasing2)
  next
    case False
    then obtain y where y: "f64_round (q + f) = Fin y" "y \<le> q + f + (q + f) * rel_err + abs_err"
      using f64_round_finite [of "q + f"] q(1) f(2) c53 by auto
    have "(q + f) * rel_err \<le> of_nat n * rel_err" using False err_pos by (intro mult_right_mono) auto
    moreover have "v \<le> y" using ref v(1) y(1) by simp
    ultimately show ?thesis using y(2) by linarith
  qed
  have err: "q + f + of_nat n * rel_err + abs_err \<le> q + ?X + 7 * (?X * rel_err) + step_err config"
    using f(3) by (simp add: step_err_def abs_err_def flip: n)
  show thesis
  proof (cases "1 \<le> v")
    case True
    have "f64_sub (Fin v) (Fin 1) = Fin (v - 1)" using f64_take_one [OF v(4) True] v(3) c53 by linarith
    then have "tokens st' = Fin (v - 1)" "g" using run v(1) True by (auto simp: try_consume_def)
    then show thesis using that [of "v - 1"] True v_up err by simp
  next
    case False
    then have "tokens st' = Fin v" "\<not> g" using run v(1) by (auto simp: try_consume_def Let_def)
    then show thesis using that [of v] v(2) v_up err by simp
  qed
qed

section \<open>The errors of all requests\<close>

lemma secs_of_add: "secs_of (a + b) = secs_of a + secs_of b"
  by (simp add: secs_of_def add_divide_distrib)

lemma secs_of_nonneg: "0 \<le> secs_of d"
  by (simp add: secs_of_def)

lemma grants_up:
  assumes config: "0 < period_secs config" "unat (capacity config) \<le> 2 ^ 53" "unat (period_secs config) \<le> 2 ^ 53"
    and "bucket_ok config st" and "tokens st = Fin q" and "sorted (last_update st # nows)"
    and "d = duration_since (last (last_update st # nows)) (last_update st)"
    and "secs_of d \<le> 2 ^ 52" and "secs_of d * exact_rate config \<le> 2 ^ 50"
  shows "of_nat (length (filter (\<lambda>g. g) (grants config st nows))) \<le>
    q + secs_of d * exact_rate config + 7 * (secs_of d * exact_rate config * rel_err) + of_nat (length nows) * step_err config"
  using assms(4-)
proof (induction nows arbitrary: st q d)
  case Nil
  then show ?case by (auto simp: bucket_ok_def duration_since_def secs_of_def)
next
  case (Cons now nows)
  let ?R = "exact_rate config"
  obtain g st' retry where run: "try_consume st config now = (g, st', retry)" by (metis prod_cases3)
  have st': "bucket_ok config st'" "last_update st' = now"
    using try_consume_ok [OF Cons.prems(1) run] try_consume_last_update [of st config now] run by simp_all
  define d1 where "d1 = duration_since now (last_update st)"
  define d2 where "d2 = duration_since (last (now # nows)) now"
  have le: "last_update st \<le> now" "now \<le> last (now # nows)" using Cons.prems(3) by auto
  then have d: "d = d1 + d2"
    using Cons.prems(4) by (simp add: d1_def d2_def duration_since_def nat_add_distrib [symmetric])
  have R: "0 \<le> ?R" using exact_rate_bounds(1) [OF config(1,2)] .
  have s: "secs_of d = secs_of d1 + secs_of d2" by (simp add: d secs_of_add)
  have s12: "secs_of d1 \<le> secs_of d" "secs_of d2 \<le> secs_of d" using s secs_of_nonneg [of d1] secs_of_nonneg [of d2] by simp_all
  then have sr: "secs_of d1 * ?R \<le> 2 ^ 50" "secs_of d2 * ?R \<le> 2 ^ 50"
    using mult_right_mono [OF s12(1) R] mult_right_mono [OF s12(2) R] Cons.prems(6) by simp_all
  obtain q' where q': "tokens st' = Fin q'" "0 \<le> q'" "q' + (if g then 1 else 0) \<le>
      q + secs_of d1 * ?R + 7 * (secs_of d1 * ?R * rel_err) + step_err config"
    using request_up [OF config Cons.prems(1,2) d1_def _ sr(1) run] s12(1) Cons.prems(5) by auto
  have "of_nat (length (filter (\<lambda>g. g) (grants config st' nows))) \<le>
      q' + secs_of d2 * ?R + 7 * (secs_of d2 * ?R * rel_err) + of_nat (length nows) * step_err config"
  proof (rule Cons.IH [OF st'(1) q'(1)])
    show "sorted (last_update st' # nows)" using Cons.prems(3) st'(2) by simp
    show "d2 = duration_since (last (last_update st' # nows)) (last_update st')" unfolding st'(2) by (rule d2_def)
  qed (use Cons.prems(5) s12(2) sr(2) in auto)
  then show ?case
    using q'(3) run by (cases g) (simp_all add: s algebra_simps)
qed

text \<open>Together they are less than one token.\<close>

lemma errors_below_one:
  assumes "X \<le> 2 ^ 49" and "n * Suc (unat (capacity config)) \<le> 2 ^ 50"
  shows "7 * (X * rel_err) + of_nat n * step_err config < 1"
proof -
  obtain c where c: "c = unat (capacity config)" by simp
  have "(of_nat (n * Suc c) :: rat) \<le> of_nat (2 ^ 50)" using assms(2) by (simp only: c of_nat_le_iff)
  then have "of_nat n * (of_nat c + 1) \<le> (2 ^ 50 :: rat)" by (simp add: algebra_simps)
  moreover have "step_err config \<le> (of_nat c + 1) * rel_err"
    by (simp add: step_err_def rel_err_def algebra_simps flip: c)
  then have "of_nat n * step_err config \<le> of_nat n * ((of_nat c + 1) * rel_err)" by (rule mult_left_mono) simp
  ultimately have "of_nat n * step_err config \<le> 2 ^ 50 * rel_err"
    using mult_right_mono [of "of_nat n * (of_nat c + 1)" "2 ^ 50" rel_err] err_pos by (simp add: algebra_simps)
  then show ?thesis using assms(1) by (simp add: rel_err_def)
qed

text \<open>After one request a bucket holds no more than the capacity, less what it took.\<close>

lemma first_request:
  assumes "unat (capacity config) \<le> 2 ^ 53" and "bucket_ok config st" and "try_consume st config now = (g, st', retry)"
  obtains q where "tokens st' = Fin q" and "0 \<le> q" and "q + (if g then 1 else 0) \<le> of_nat (unat (capacity config))"
proof -
  obtain n where n: "n = unat (capacity config)" by simp
  have cap: "f64_of_u64 (capacity config) = Fin (of_nat n)"
    using assms(1) by (simp only: n f64_of_u64_def f64_of_nat_exact)
  have "(of_nat n :: rat) \<le> of_nat (2 ^ 53)" using assms(1) by (simp only: n of_nat_le_iff)
  then have c53: "(of_nat n :: rat) \<le> 2 ^ 53" by simp
  obtain v where v: "refilled st config now = Fin v" "0 \<le> v" "v \<le> of_nat n" "f64_repr v"
    using refilled_bounds [OF assms(2), of now] cap by auto
  have "f64_sub (Fin v) (Fin 1) = Fin (v - 1)" if "1 \<le> v" using f64_take_one [OF v(4) that] v(3) c53 by linarith
  then show thesis
    using that [of "if 1 \<le> v then v - 1 else v"] assms(3) v
    by (cases "1 \<le> v") (auto simp: try_consume_def Let_def simp flip: n)
qed

section \<open>One client of the storage\<close>

fun granted :: "string \<times> (bool \<times> u64) run \<Rightarrow> bool" where
  "granted (c, Done (allowed, retry)) \<longleftrightarrow> allowed"
| "granted (c, Panic) \<longleftrightarrow> False"

text \<open>While a client is not idle for longer than the time to live, it is served from one bucket.\<close>

lemma decisions_are_grants:
  assumes "buckets_ok s" and "hm_get (rl_inner s) c = Some st"
    and "sorted (last_update st # map req_now rs)"
    and "successively (\<lambda>t u. u \<le> t + int (rl_ttl s)) (last_update st # map req_now rs)"
    and "\<forall>r \<in> set rs. req_client r = c \<and> representable (req_now r - int (rl_ttl s))"
  shows "map granted (decisions s rs) = grants (rl_config s) st (map req_now rs)"
  using assms
proof (induction rs arbitrary: s st)
  case (Cons r rs)
  let ?now = "req_now r"
  obtain s1 where s1: "cleanup_stale ?now s = Done s1"
    using Cons.prems(5) by (simp add: cleanup_stale_def Let_def)
  have b: "bucket_for s1 c (req_fresh r) = st"
    using cleanup_stale_get [OF Cons.prems(1) s1, of c] Cons.prems(2,4) by (simp add: bucket_for_def)
  obtain g st' retry where run: "try_consume st (rl_config s) ?now = (g, st', retry)" by (metis prod_cases3)
  let ?s' = "s1\<lparr>rl_inner := hm_insert c st' (rl_inner s1)\<rparr>"
  have step: "check_and_consume c ?now (req_fresh r) s = (Done (g, retry), ?s')"
    using check_and_consume_step [OF Cons.prems(1) s1, of c "req_fresh r"] b run by simp
  have frame: "rl_config ?s' = rl_config s" "rl_ttl ?s' = rl_ttl s" using cleanup_stale_frame [OF s1] by simp_all
  have now: "last_update st' = ?now" using try_consume_last_update [of st "rl_config s" ?now] run by simp
  have "map granted (decisions ?s' rs) = grants (rl_config ?s') st' (map req_now rs)"
  proof (rule Cons.IH)
    show "buckets_ok ?s'" using buckets_ok_check [OF Cons.prems(1), of c ?now "req_fresh r"] step by simp
    show "sorted (last_update st' # map req_now rs)" using Cons.prems(3) now by simp
    show "successively (\<lambda>t u. u \<le> t + int (rl_ttl ?s')) (last_update st' # map req_now rs)"
      using Cons.prems(4) unfolding now frame by simp
    show "\<forall>r \<in> set rs. req_client r = c \<and> representable (req_now r - int (rl_ttl ?s'))"
      using Cons.prems(5) unfolding frame by simp
  qed simp
  then have "map granted (decisions ?s' rs) = grants (rl_config s) st' (map req_now rs)" unfolding frame .
  then show ?case using step run Cons.prems(5) by simp
qed simp

section \<open>Errors to the other side\<close>

lemma round_half_even_close_below: "x - 1 / 2 \<le> of_int (round_half_even x)"
proof -
  have "x < of_int \<lfloor>x\<rfloor> + 1" by linarith
  moreover have "\<not> 1 / 2 < x - of_int \<lfloor>x\<rfloor> \<Longrightarrow> x - of_int \<lfloor>x\<rfloor> \<le> 1 / 2" by linarith
  moreover have "1 / 2 < x - of_int \<lfloor>x\<rfloor> \<Longrightarrow> round_half_even x = \<lfloor>x\<rfloor> + 1"
    "round_half_even x = \<lfloor>x\<rfloor> \<or> round_half_even x = \<lfloor>x\<rfloor> + 1"
    by (simp_all add: round_half_even_def Let_def)
  ultimately show ?thesis by (cases "1 / 2 < x - of_int \<lfloor>x\<rfloor>") auto
qed

lemma f64_round_down:
  assumes "0 \<le> x" and "f64_round x = Fin y"
  shows "x - x * rel_err - abs_err \<le> y"
proof (cases "x = 0")
  case True
  then show ?thesis using assms err_pos by (simp add: f64_round_def)
next
  case False
  then have x: "0 < x" using assms(1) by simp
  let ?u = "pow2 (ulp_exp x)"
  have "x - ?u / 2 = (x / ?u - 1 / 2) * ?u" using pow2_pos [of "ulp_exp x"] by (simp add: algebra_simps)
  also have "\<dots> \<le> of_int (round_half_even (x / ?u)) * ?u"
    by (rule mult_right_mono [OF round_half_even_close_below]) (simp add: less_imp_le)
  finally have "x - ?u / 2 \<le> y"
    using assms(2) x by (auto simp: f64_round_def round_pos_def Let_def split: if_splits)
  then show ?thesis using half_ulp [OF x] by linarith
qed

lemma rate_down:
  assumes "0 < period_secs config" and "unat (period_secs config) \<le> 2 ^ 49"
    and "1 \<le> unat (capacity config)" and "unat (capacity config) \<le> 2 ^ 53"
  obtains r where "refill_rate config = Fin r" and "1 / 2 ^ 50 \<le> r" and "r \<le> 2 ^ 54"
proof -
  obtain c p where n: "c = unat (capacity config)" "p = unat (period_secs config)" by simp
  have p: "0 < p" using assms(1) by (simp only: n word_less_nat_alt unat_0)
  have p49: "p \<le> 2 ^ 49" "unat (period_secs config) \<le> 2 ^ 53" using assms(2) n by simp_all
  have f: "f64_of_u64 (capacity config) = Fin (of_nat c)" "f64_of_u64 (period_secs config) = Fin (of_nat p)"
    using assms(4) p49(2) by (simp_all only: n f64_of_u64_def f64_of_nat_exact)
  note b = exact_rate_bounds [OF assms(1,4), unfolded exact_rate_nat [OF n]]
  obtain r where r: "f64_round (of_nat c / of_nat p) = Fin r"
    "r \<le> of_nat c / of_nat p + of_nat c / of_nat p * rel_err + abs_err"
    using f64_round_finite [OF b] by blast
  have "refill_rate config = Fin r" using f p r(1) by (simp add: refill_rate_def)
  moreover have "1 / 2 ^ 49 \<le> (of_nat c / of_nat p :: rat)"
  proof -
    have "(of_nat p :: rat) \<le> of_nat (2 ^ 49)" using p49(1) by (simp only: of_nat_le_iff)
    moreover have "(of_nat 1 :: rat) \<le> of_nat c" using assms(3) n by (simp only: of_nat_le_iff)
    ultimately show ?thesis using p by (simp add: field_simps)
  qed
  then have "1 / 2 ^ 50 \<le> r" using f64_round_down [OF b(1) r(1)] by (simp add: rel_err_def abs_err_def)
  moreover have "r \<le> 2 ^ 54" using r(2) b by (simp add: rel_err_def abs_err_def)
  ultimately show thesis using that by blast
qed

text \<open>What a wait of \<open>k\<close> seconds refills, where \<open>k\<close> is a second more than the quotient of \<open>Retry-After\<close>.\<close>

lemma wait_refills:
  fixes v r h w k f :: rat
  assumes v: "0 \<le> v" "v < 1" and r: "1 / 2 ^ 50 \<le> r" "r \<le> 2 ^ 54"
    and h: "1 - v - (1 - v) * rel_err - abs_err \<le> h" "0 \<le> h" "h \<le> 2"
    and w: "h / r - h / r * rel_err - abs_err \<le> w" and k: "w + 1 \<le> k"
    and f: "k * r - k * r * rel_err - abs_err \<le> f"
  shows "1 \<le> v + f"
proof -
  have r0: "0 < r" using r(1) by (rule less_le_trans [rotated]) simp
  have "(h / r - h / r * rel_err - abs_err + 1) * r \<le> k * r" using w k r0 by (intro mult_right_mono) auto
  moreover have "(h / r - h / r * rel_err - abs_err + 1) * r = h - h * rel_err - abs_err * r + r"
    using r0 by (simp add: algebra_simps)
  moreover have "h * rel_err \<le> 2 * rel_err" "abs_err * r \<le> abs_err * 2 ^ 54"
    using h(3) r(2) err_pos by (auto intro: mult_right_mono mult_left_mono)
  ultimately have kr: "h + r - 2 * rel_err - abs_err * 2 ^ 54 \<le> k * r" by linarith
  have "(h + r - 2 * rel_err - abs_err * 2 ^ 54) * (1 - rel_err) \<le> k * r * (1 - rel_err)"
    by (rule mult_right_mono [OF kr]) (simp add: rel_err_def)
  then have "(h + r - 2 * rel_err - abs_err * 2 ^ 54) * (1 - rel_err) - abs_err \<le> f" using f by (simp add: algebra_simps)
  moreover have "(1 - v) * rel_err \<le> rel_err" using v err_pos by (simp add: mult_left_le_one_le)
  then have "1 - v - rel_err - abs_err \<le> h" using h(1) by linarith
  ultimately show ?thesis using r(1) h(2,3) by (simp add: rel_err_def abs_err_def algebra_simps)
qed

text \<open>What a denial leaves behind, and the number of seconds it asks for.\<close>

lemma denied_state:
  assumes "bucket_ok config st" and "try_consume st config now = (False, st', retry)"
    and r: "refill_rate config = Fin r" "1 / 2 ^ 50 \<le> r"
  obtains v h w where "tokens st' = Fin v" and "last_update st' = now" and "0 \<le> v" and "v < 1"
    and "1 - v - (1 - v) * rel_err - abs_err \<le> h" and "0 \<le> h" and "h \<le> 2"
    and "h / r - h / r * rel_err - abs_err \<le> w" and "w \<le> of_nat (unat retry)" and "unat retry \<le> 2 ^ 52"
proof -
  obtain v where v: "refilled st config now = Fin v" "0 \<le> v" using refilled_bounds [OF assms(1), of now] by metis
  have v1: "v < 1" using try_consume_allowed [of st config now] assms(2) v by simp
  then have st': "tokens st' = Fin v" "last_update st' = now"
    using assms(2) v by (auto simp: try_consume_def Let_def)
  have one: "0 \<le> 1 - v" "1 - v \<le> 2 ^ 53" using v v1 by simp_all
  obtain h where h: "f64_round (1 - v) = Fin h" "0 \<le> h" "h \<le> 1 - v + (1 - v) * rel_err + abs_err"
    using f64_round_finite [OF one] by blast
  have "(1 - v) * rel_err \<le> rel_err" using v v1 err_pos by (simp add: mult_left_le_one_le)
  then have "h \<le> 1 + rel_err + abs_err" using h(3) v(2) by linarith
  then have h2: "h \<le> 2" by (simp add: rel_err_def abs_err_def)
  have r0: "0 < r" using r(2) by (rule less_le_trans [rotated]) simp
  have "h / r \<le> 2 / r" using h2 r0 by (simp add: divide_right_mono)
  also have "\<dots> \<le> 2 ^ 51" using r r0 by (simp add: field_simps)
  finally have hr: "0 \<le> h / r" "h / r \<le> 2 ^ 51" using h(2) r0 by simp_all
  then obtain w where w: "f64_round (h / r) = Fin w" "0 \<le> w" "w \<le> h / r + h / r * rel_err + abs_err"
    using f64_round_finite [of "h / r"] by auto
  have w52: "w \<le> 2 ^ 52" using w(3) hr by (simp add: rel_err_def abs_err_def)
  let ?k = "\<lceil>w\<rceil>"
  have k: "0 \<le> ?k" "?k \<le> 2 ^ 52" using w(2) w52 by (simp_all add: ceiling_le_iff)
  have "retry = (if of_int ?k = (0 :: u64) \<and> f64_gt_zero (Fin h) then 1 else of_int ?k)"
    using assms(2) v v1 h(1) w(1) r(1) r0 k
    by (auto simp: try_consume_def Let_def f64_sub_def)
  moreover have k52: "nat ?k \<le> 2 ^ 52" using k(2) by (simp add: nat_le_iff)
  then have "nat ?k < 2 ^ 64" by simp
  then have "unat (of_nat (nat ?k) :: u64) = nat ?k" by (simp add: unat_of_nat take_bit_eq_mod)
  then have "unat (of_int ?k :: u64) = nat ?k" using k(1) by (simp only: of_nat_nat)
  ultimately have "unat retry = nat ?k \<or> (nat ?k = 0 \<and> unat retry = 1)" by (auto simp: unat_eq_zero split: if_splits)
  then have "nat ?k \<le> unat retry" "unat retry \<le> 2 ^ 52" using k52 by auto
  moreover have "w \<le> of_nat (nat ?k)" using w(2) by simp
  ultimately have "w \<le> of_nat (unat retry)" by (meson le_trans of_nat_mono order_trans)
  then show thesis
    using that st' v(2) v1 h(2) h2 f64_round_down [OF one(1) h(1)] f64_round_down [OF hr(1) w(1)] \<open>unat retry \<le> 2 ^ 52\<close>
    by blast
qed

lemma f64_round_not_NaN: "f64_round x \<noteq> NaN"
  by (simp add: f64_round_def Let_def)

lemma own_requests_bound:
  assumes config: "0 < period_secs (rl_config s)" "unat (capacity (rl_config s)) \<le> 2 ^ 53"
      "unat (period_secs (rl_config s)) \<le> 2 ^ 53"
    and ok: "buckets_ok s" and sorted: "sorted (map req_now (r0 # mine))"
    and gaps: "successively (\<lambda>t u. u \<le> t + int (rl_ttl s)) (map req_now (r0 # mine))"
    and mine: "\<forall>r \<in> set (r0 # mine). req_client r = c \<and> representable (req_now r - int (rl_ttl s))"
    and d: "d = duration_since (last (map req_now (r0 # mine))) (req_now r0)" "secs_of d \<le> 2 ^ 52"
      "secs_of d * exact_rate (rl_config s) \<le> 2 ^ 50"
  shows "of_nat (length (filter granted (decisions s (r0 # mine)))) \<le>
    of_nat (unat (capacity (rl_config s))) + secs_of d * exact_rate (rl_config s) +
      (7 * (secs_of d * exact_rate (rl_config s) * rel_err) + of_nat (length mine) * step_err (rl_config s))"
proof -
  let ?config = "rl_config s" and ?now = "req_now r0"
  obtain n where n: "n = unat (capacity ?config)" by simp
  obtain s1 where s1: "cleanup_stale ?now s = Done s1" using mine by (auto simp: cleanup_stale_def Let_def)
  let ?st = "bucket_for s1 c (req_fresh r0)"
  obtain g st' retry where run: "try_consume ?st ?config ?now = (g, st', retry)" by (metis prod_cases3)
  let ?s' = "s1\<lparr>rl_inner := hm_insert c st' (rl_inner s1)\<rparr>"
  have step: "check_and_consume c ?now (req_fresh r0) s = (Done (g, retry), ?s')"
    using check_and_consume_step [OF ok s1, of c "req_fresh r0"] run by simp
  have frame: "rl_config ?s' = ?config" "rl_ttl ?s' = rl_ttl s" "rl_config s1 = ?config"
    using cleanup_stale_frame [OF s1] by simp_all
  have bucket: "bucket_ok ?config ?st"
    using bucket_for_ok [OF buckets_ok_cleanup [OF ok s1], of c "req_fresh r0"] frame by simp
  have now: "last_update st' = ?now" using try_consume_last_update [of ?st ?config ?now] run by simp
  obtain q where q: "tokens st' = Fin q" "q + (if g then 1 else 0) \<le> of_nat n"
    using first_request [OF config(2) bucket run] unfolding n by blast
  have "map granted (decisions ?s' mine) = grants (rl_config ?s') st' (map req_now mine)"
    by (rule decisions_are_grants)
       (use buckets_ok_check [OF ok, of c ?now "req_fresh r0"] step sorted now gaps mine frame in auto)
  then have "length (filter granted (decisions ?s' mine)) = length (filter (\<lambda>g. g) (grants ?config st' (map req_now mine)))"
    unfolding frame by (metis (mono_tags, lifting) filter_cong filter_map comp_apply length_map)
  moreover have "of_nat (length (filter (\<lambda>g. g) (grants ?config st' (map req_now mine)))) \<le>
      q + secs_of d * exact_rate ?config + 7 * (secs_of d * exact_rate ?config * rel_err) +
        of_nat (length (map req_now mine)) * step_err ?config"
    by (rule grants_up [OF config try_consume_ok [OF bucket run] q(1)]) (use sorted now d in auto)
  moreover have "length (filter granted (decisions s (r0 # mine))) =
      (if g then 1 else 0) + length (filter granted (decisions ?s' mine))"
    using step mine by simp
  ultimately show ?thesis using q(2) unfolding n [symmetric] by (cases g) simp_all
qed

section \<open>Readings out of order\<close>

text \<open>
  A request that read the clock before another one and reaches the bucket after it sets \<open>last_update\<close>
  back, and the time between the two is refilled twice: one request a second, and three are granted of
  which two read the same second.
\<close>

lemma late_reading_refills_twice:
  "grants (rate_limit_config_new 1 1) (new_full 1 0) [0, 1 * nanos_per_sec, 0, 1 * nanos_per_sec] = [True, True, False, True]"
  "grants (rate_limit_config_new 1 1) (new_full 1 0) [0, 0, 1 * nanos_per_sec, 1 * nanos_per_sec] = [True, False, True, False]"
proof -
  let ?config = "rate_limit_config_new 1 1" and ?st = "\<lambda>t. \<lparr>tokens = Fin 0, last_update = t\<rparr>"
  have config: "0 < period_secs ?config" "unat (capacity ?config) = 1"
    by (simp_all add: rate_limit_config_new_def word_less_nat_alt)
  have one: "f64_of_u64 1 = Fin 1" using f64_of_nat_exact [of 1] by (simp add: f64_of_u64_def)
  have round: "f64_round 1 = Fin 1" using f64_round_repr [OF f64_repr_of_nat [of 1]] by simp
  have full: "new_full 1 0 = \<lparr>tokens = Fin (of_nat 1), last_update = 0\<rparr>" using one by (simp add: new_full_def)
  have first: "\<exists>r. try_consume (new_full 1 0) ?config 0 = (True, ?st 0, r)"
    using try_consume_whole_retry [OF config(1), of 1 0 0] config(2) unfolding full by auto
  have empty: "\<exists>r. try_consume (?st u) ?config t = (False, ?st t, r)" if "t \<le> u" for t u
    using try_consume_whole_retry [OF config(1), of 0 t u] config(2) that by auto
  have "refill_rate ?config = Fin 1" using one round by (simp add: refill_rate_def rate_limit_config_new_def)
  then have later: "try_consume (?st 0) ?config (1 * nanos_per_sec) = (True, ?st (1 * nanos_per_sec), 0)"
    using refill_one_token [of ?config 1 1 0] round config(2) by simp
  show "grants ?config (new_full 1 0) [0, 1 * nanos_per_sec, 0, 1 * nanos_per_sec] = [True, True, False, True]"
    "grants ?config (new_full 1 0) [0, 0, 1 * nanos_per_sec, 1 * nanos_per_sec] = [True, False, True, False]"
    using first empty [of 0 "1 * nanos_per_sec"] empty [of 0 0] empty [of "1 * nanos_per_sec" "1 * nanos_per_sec"] later
    by (auto simp del: mult_1)
qed

section \<open>Properties\<close>

text \<open>C12: the limiter limits the rate: of the requests of one client, whatever the others do, fewer
  are granted than the capacity, what the configured rate refills from its first to its last request, and
  one more, in spite of all roundings; on a clock that does not run backwards, and while the client is not
  idle for longer than the time to live, after which its bucket is dropped and the next one is full.\<close>

theorem client_rate_is_limited:
  assumes "0 < period_secs (rl_config s)" and "unat (capacity (rl_config s)) \<le> 2 ^ 53"
    and "unat (period_secs (rl_config s)) \<le> 2 ^ 53" and "buckets_ok s"
    and "sorted (map req_now rs)" and "\<forall>r \<in> set rs. representable (req_now r - int (rl_ttl s))"
    and "filter (\<lambda>r. req_client r = c) rs = r0 # mine"
    and "successively (\<lambda>t u. u \<le> t + int (rl_ttl s)) (map req_now (r0 # mine))"
    and "d = duration_since (last (map req_now (r0 # mine))) (req_now r0)" and "secs_of d \<le> 2 ^ 52"
    and "secs_of d * exact_rate (rl_config s) \<le> 2 ^ 49"
    and "length mine * Suc (unat (capacity (rl_config s))) \<le> 2 ^ 50"
  shows "of_nat (length (filter (\<lambda>d. fst d = c \<and> granted d) (decisions s rs))) <
    of_nat (unat (capacity (rl_config s))) + secs_of d * exact_rate (rl_config s) + 1"
proof -
  have mine: "\<forall>r \<in> set (r0 # mine). req_client r = c \<and> representable (req_now r - int (rl_ttl s))"
    using assms(6) unfolding assms(7) [symmetric] by simp
  have sorted: "sorted (map req_now (r0 # mine))"
    unfolding assms(7) [symmetric] using assms(5) by (rule sorted_filter)
  obtain r rs' where rs: "rs = r # rs'" using assms(7) by (cases rs) auto
  have "filter (\<lambda>d. fst d = c) (decisions s rs) = decisions s (r0 # mine)"
    unfolding assms(7) [symmetric]
    by (rule decisions_agree [where t = "req_now r"]) (use assms(4-6) rs in \<open>auto simp: agree_def\<close>)
  then have count: "filter (\<lambda>d. fst d = c \<and> granted d) (decisions s rs) = filter granted (decisions s (r0 # mine))"
    by (metis filter_filter)
  have "secs_of d * exact_rate (rl_config s) \<le> 2 ^ 50" using assms(11) by simp
  from own_requests_bound [OF assms(1-4) sorted assms(8) mine assms(9,10) this] errors_below_one [OF assms(11,12)]
  show ?thesis unfolding count by linarith
qed

theorem client_rate_is_limited_witness:
  "of_nat (length (filter (\<lambda>d. fst d = ''a'' \<and> granted d)
     (decisions (rate_limit_storage_new (rate_limit_config_new 3 60) (120 * 1000000000))
        [\<lparr>req_client = ''a'', req_now = 0, req_fresh = 0\<rparr>, \<lparr>req_client = ''b'', req_now = 5, req_fresh = 5\<rparr>,
         \<lparr>req_client = ''a'', req_now = 40000000000, req_fresh = 0\<rparr>]))) < (3 :: rat) + 40 * (3 / 60) + 1"
proof -
  let ?s = "rate_limit_storage_new (rate_limit_config_new 3 60) (120 * 1000000000)"
  have "secs_of (duration_since 40000000000 0) = 40" by (simp add: secs_of_def duration_since_def)
  moreover have "exact_rate (rl_config ?s) = 3 / 60"
    by (simp add: exact_rate_def rate_limit_storage_new_def rate_limit_config_new_def)
  ultimately show ?thesis
    using client_rate_is_limited [of ?s "[\<lparr>req_client = ''a'', req_now = 0, req_fresh = 0\<rparr>,
        \<lparr>req_client = ''b'', req_now = 5, req_fresh = 5\<rparr>, \<lparr>req_client = ''a'', req_now = 40000000000, req_fresh = 0\<rparr>]"
        "''a''" "\<lparr>req_client = ''a'', req_now = 0, req_fresh = 0\<rparr>"
        "[\<lparr>req_client = ''a'', req_now = 40000000000, req_fresh = 0\<rparr>]" "duration_since 40000000000 0",
        OF _ _ _ buckets_ok_new]
    by (simp add: rate_limit_storage_new_def rate_limit_config_new_def representable_def word_less_nat_alt)
qed

text \<open>C19: a client that is denied and waits one second longer than \<open>Retry-After\<close> says,
  or longer still, is granted, if no other request of it comes in between: the extra second makes up for
  every rounding. The period is at most half a quadrillion seconds and the capacity not zero.\<close>

theorem waiting_a_second_longer_suffices:
  assumes "0 < period_secs config" and "unat (period_secs config) \<le> 2 ^ 49"
    and "1 \<le> unat (capacity config)" and "unat (capacity config) \<le> 2 ^ 53"
    and "bucket_ok config st" and "try_consume st config now = (False, st', retry)"
    and "now + int (unat retry + 1) * nanos_per_sec \<le> now'"
    and "duration_since now' now div 1000000000 < 2 ^ 53"
  shows "fst (try_consume st' config now')"
proof -
  obtain r where r: "refill_rate config = Fin r" "1 / 2 ^ 50 \<le> r" "r \<le> 2 ^ 54" using rate_down [OF assms(1-4)] by blast
  obtain v h w where v: "tokens st' = Fin v" "last_update st' = now" "0 \<le> v" "v < 1"
    and h: "1 - v - (1 - v) * rel_err - abs_err \<le> h" "0 \<le> h" "h \<le> 2"
    and w: "h / r - h / r * rel_err - abs_err \<le> w" "w \<le> of_nat (unat retry)" "unat retry \<le> 2 ^ 52"
    using denied_state [OF assms(5,6) r(1,2)] by blast
  obtain k where k: "k = unat retry + 1" by simp
  let ?then = "now + int k * nanos_per_sec"
  have secs: "as_secs_f64 (duration_since ?then now) = Fin (of_nat k)"
  proof -
    have "k \<le> 2 ^ 53" using w(3) k by simp
    then show ?thesis using as_secs_f64_whole [of k] by (simp add: duration_since_def nat_mult_distrib)
  qed
  have ok: "bucket_ok config st'" by (rule try_consume_ok [OF assms(5,6)])
  obtain c where c: "c = unat (capacity config)" by simp
  have cap: "f64_of_u64 (capacity config) = Fin (of_nat c)"
    using assms(4) by (simp only: c f64_of_u64_def f64_of_nat_exact)
  have c1: "(1 :: rat) \<le> of_nat c" using assms(3) unfolding c by (metis of_nat_1 of_nat_le_iff)
  have kr: "0 \<le> of_nat k * r" using r(2) order_trans [of 0 "1 / 2 ^ 50" r] by simp
  have one: "f64_round 1 = Fin 1" using f64_round_repr [OF f64_repr_of_nat [of 1]] by simp
  have ref: "refilled st' config ?then = f64_min (f64_add (Fin v) (f64_round (of_nat k * r))) (Fin (of_nat c))"
    using v(1,2) secs r(1) cap by (simp add: refilled_def)
  have "f64_ge (refilled st' config ?then) (Fin 1)"
  proof (cases "f64_round (of_nat k * r)")
    case (Fin f)
    have "w + 1 \<le> of_nat k" using w(2) unfolding k by simp
    from wait_refills [OF v(3,4) r(2,3) h w(1) this f64_round_down [OF kr Fin]] have "1 \<le> v + f" .
    then have "f64_le (Fin 1) (f64_round (v + f))" using f64_round_le [of 1 "v + f"] one by simp
    then show ?thesis using c1 unfolding ref Fin by (cases "f64_round (v + f)") auto
  next
    case PosInf
    then show ?thesis using c1 ref by simp
  qed (use f64_nonneg_round [OF kr] f64_round_not_NaN in \<open>auto simp: f64_nonneg_def\<close>)
  then have "fst (try_consume st' config ?then)" by (simp only: try_consume_allowed)
  then show ?thesis
    by (rule allowed_later [OF ok assms(1), rotated 2]) (use assms(7,8) v(2) k in auto)
qed

theorem waiting_a_second_longer_suffices_witness:
  "fst (try_consume \<lparr>tokens = Fin 0, last_update = 0\<rparr> config_161 (162 * nanos_per_sec))"
proof -
  have "bucket_ok config_161 \<lparr>tokens = Fin 0, last_update = 0\<rparr>"
    using f64_of_u64_finite [of 1] by (auto simp: bucket_ok_def rate_limit_config_new_def)
  from waiting_a_second_longer_suffices [OF _ _ _ _ this retry_161, of "162 * nanos_per_sec"] show ?thesis
    by (simp add: rate_limit_config_new_def word_less_nat_alt duration_since_def)
qed

end
