(* ===== verification/Router.thy ===== *)
theory Router
  imports Stats_Api Rate_Limit_Api
begin

text \<open>
  The application, \<open>build_router\<close> of \<open>shorty-server/src/lib.rs\<close>: the route table, the handler behind each
  route, the authentication layer around the routes under \<open>/api/v1\<close>, and the path templates of the
  HTTP metrics. A path is matched segment by segment, a literal segment before a parameter, as the
  router's documentation says; a parameter does not match an empty segment, and its value is the segment
  percent-decoded. The documentation UI is a library: what it answers is an input, its paths are the ones
  \<open>build_router\<close> gives it.
\<close>

section \<open>Routes\<close>

datatype endpoint =
    E_Healthz
  | E_Readyz
  | E_Version
  | E_Login
  | E_Redirect string
  | E_Swagger
  | E_Create
  | E_List
  | E_Get string
  | E_Update string
  | E_Delete string
  | E_Link_Stats string
  | E_Top
  | E_Slow
  | E_Slow_Blocking
  | E_Metrics
  | E_Method_Not_Allowed
  | E_Bad_Path
  | E_Fallback

text \<open>A \<open>GET\<close> route serves \<open>HEAD\<close> too.\<close>

definition by_method :: "string \<Rightarrow> (string \<times> endpoint) list \<Rightarrow> endpoint" where
  "by_method m es =
     (case map_of es (if m = ''HEAD'' then ''GET'' else m) of Some e \<Rightarrow> e | None \<Rightarrow> E_Method_Not_Allowed)"

text \<open>
  The value of a path parameter: percent-decoded bytes, which have to be UTF-8. \<open>E_Bad_Path\<close> is the
  extractor's rejection. A percent sign that no two hexadecimal digits follow stands for itself.
\<close>

definition hex_digit :: "char \<Rightarrow> nat option" where
  "hex_digit c =
     (let n = of_char c
      in if 48 \<le> n \<and> n \<le> 57 then Some (n - 48)
         else if 65 \<le> n \<and> n \<le> 70 then Some (n - 55)
         else if 97 \<le> n \<and> n \<le> 102 then Some (n - 87)
         else None)"

fun percent_decode :: "string \<Rightarrow> string" where
  "percent_decode (c # h # l # cs) =
     (if c = CHR ''%''
      then (case (hex_digit h, hex_digit l) of
              (Some a, Some b) \<Rightarrow> char_of (16 * a + b) # percent_decode cs
            | _ \<Rightarrow> c # percent_decode (h # l # cs))
      else c # percent_decode (h # l # cs))"
| "percent_decode cs = cs"

definition path_code :: "(string \<Rightarrow> endpoint) \<Rightarrow> string \<Rightarrow> endpoint" where
  "path_code ep segment =
     (case from_utf8 (percent_decode segment) of Some code \<Rightarrow> ep code | None \<Rightarrow> E_Bad_Path)"

lemma percent_decode_plain: "CHR ''%'' \<notin> set cs \<Longrightarrow> percent_decode cs = cs"
  by (induction cs rule: percent_decode.induct) auto

lemma utf8_ascii: "\<forall>b \<in> set bs. b < 128 \<Longrightarrow> utf8_valid bs"
  by (induction bs) auto

lemma code_char_ascii: "code_char c \<Longrightarrow> (of_char c :: nat) < 128 \<and> c \<noteq> CHR ''%''"
  by (auto simp: code_char_def is_ascii_alphanumeric_def Let_def)

lemma path_code_valid [simp]:
  assumes "list_all code_char code"
  shows "path_code ep code = ep code"
proof -
  have ascii: "(of_char c :: nat) < 128 \<and> c \<noteq> CHR ''%''" if "c \<in> set code" for c
    using assms that code_char_ascii by (simp add: list_all_iff)
  have "percent_decode code = code" by (rule percent_decode_plain) (use ascii in blast)
  moreover have "utf8_valid (map of_char code)" by (rule utf8_ascii) (use ascii in auto)
  ultimately show ?thesis by (simp add: path_code_def from_utf8_def)
qed

lemma path_code_cases: "path_code ep segment = E_Bad_Path \<or> (\<exists>code. path_code ep segment = ep code)"
  by (auto simp: path_code_def split: option.split)

text \<open>The routes nested under \<open>/api/v1\<close>, behind the authentication layer.\<close>

definition protected_route :: "string \<Rightarrow> string list \<Rightarrow> endpoint option" where
  "protected_route m segs =
     (if segs = [''links''] then Some (by_method m [(''POST'', E_Create), (''GET'', E_List)])
      else if segs = [''stats'', ''top''] then Some (by_method m [(''GET'', E_Top)])
      else (case segs of
              [l, code] \<Rightarrow>
                if l = ''links'' \<and> code \<noteq> []
                then Some (by_method m [(''GET'', path_code E_Get code), (''PUT'', path_code E_Update code),
                       (''DELETE'', path_code E_Delete code)])
                else None
            | [l, code, st] \<Rightarrow>
                if l = ''links'' \<and> code \<noteq> [] \<and> st = ''stats''
                then Some (by_method m [(''GET'', path_code E_Link_Stats code)]) else None
            | _ \<Rightarrow> None))"

definition public_route :: "string \<Rightarrow> string list \<Rightarrow> endpoint option" where
  "public_route m segs =
     (if segs = [''healthz''] then Some (by_method m [(''GET'', E_Healthz)])
      else if segs = [''readyz''] then Some (by_method m [(''GET'', E_Readyz)])
      else if segs = [''version''] then Some (by_method m [(''GET'', E_Version)])
      else if segs = [''auth'', ''login''] then Some (by_method m [(''POST'', E_Login)])
      else if segs = [''slow''] then Some (by_method m [(''GET'', E_Slow)])
      else if segs = [''slow-blocking''] then Some (by_method m [(''GET'', E_Slow_Blocking)])
      else if segs = [''metrics''] then Some (by_method m [(''GET'', E_Metrics)])
      else (case segs of
              [code] \<Rightarrow> if code \<noteq> [] then Some (by_method m [(''GET'', path_code E_Redirect code)]) else None
            | _ \<Rightarrow> None))"

text \<open>\<open>SwaggerUi::new("/swagger-ui").url("/api-docs/openapi.json", ..)\<close>: the two paths and what is below the first.\<close>

definition swagger_path :: "string \<Rightarrow> bool" where
  "swagger_path path \<longleftrightarrow>
     path = ''/swagger-ui'' \<or> starts_with path ''/swagger-ui/'' \<or> path = ''/api-docs/openapi.json''"

text \<open>The endpoint of a request, and whether it is behind the authentication layer.\<close>

definition route :: "string \<Rightarrow> string \<Rightarrow> bool \<times> endpoint" where
  "route m path =
     (case split_on CHR ''/'' path of
        [] # segs \<Rightarrow>
          if swagger_path path then (False, by_method m [(''GET'', E_Swagger)])
          else if take 2 segs = [''api'', ''v1''] \<and> protected_route m (drop 2 segs) \<noteq> None
          then (True, the (protected_route m (drop 2 segs)))
          else (case public_route m segs of Some e \<Rightarrow> (False, e) | None \<Rightarrow> (False, E_Fallback))
      | _ \<Rightarrow> (False, E_Fallback))"

section \<open>Serving a request\<close>

datatype payload =
    P_Error error_body
  | P_Auth auth_error_body
  | P_Link link_response
  | P_Links list_links_response
  | P_Stats link_stats_response
  | P_Top "top_link list"
  | P_Login login_response
  | P_Text string
  | P_Empty

text \<open>
  What a request brings beside its headers: the bodies as the JSON extractor sees them, the query, and
  the clock readings and random values its handler draws.
\<close>

record inputs =
  in_create :: "(nat \<times> string) + create_link_request"
  in_update :: "(nat \<times> string) + update_link_request"
  in_login :: "(nat \<times> string) + login_request"
  in_params :: "string \<Rightarrow> string option"
  in_limit :: "(nat \<times> string) + u64 option"
  in_now :: system_time
  in_hit :: system_time
  in_codes :: "nat \<Rightarrow> string"
  in_clock :: "nat \<Rightarrow> system_time"
  in_offset :: i64
  in_pool :: "unit reply option"
  in_metrics :: string
  in_swagger :: nat

type_synonym ('s, 'r) outcome = "payload http_response run \<times> ('s, 'r) app_state"

definition plain :: "nat \<Rightarrow> payload \<Rightarrow> payload http_response" where
  "plain status body = \<lparr>resp_status = status, resp_headers = [], resp_body = body\<rparr>"

definition error_response :: "id_scope \<Rightarrow> app_error \<Rightarrow> payload http_response" where
  "error_response scope e =
     (let r = into_response scope e
      in \<lparr>resp_status = resp_status r, resp_headers = resp_headers r, resp_body = P_Error (resp_body r)\<rparr>)"

definition auth_response :: "id_scope \<Rightarrow> auth_error \<Rightarrow> payload http_response" where
  "auth_response scope e =
     (let r = auth_into_response scope e
      in \<lparr>resp_status = resp_status r, resp_headers = resp_headers r, resp_body = P_Auth (resp_body r)\<rparr>)"

text \<open>Turning a handler's result into the response.\<close>

definition respond ::
  "id_scope \<Rightarrow> ('a \<Rightarrow> payload http_response) \<Rightarrow> ('s, 'r, 'a) handler \<Rightarrow>
   ('s, 'r) app_state \<Rightarrow> ('s, 'r) outcome" where
  "respond scope ok m s =
     (case m s of
        (Panic, s') \<Rightarrow> (Panic, s')
      | (Done (Inl e), s') \<Rightarrow> (Done (error_response scope e), s')
      | (Done (Inr v), s') \<Rightarrow> (Done (ok v), s'))"

text \<open>\<open>AppJson\<close> before a handler.\<close>

definition with_json :: "(nat \<times> string) + 'a \<Rightarrow> ('a \<Rightarrow> ('s, 'r, 'b) handler) \<Rightarrow> ('s, 'r, 'b) handler" where
  "with_json extracted f = h_bind (h_result (app_json extracted)) f"

definition handle ::
  "('s, 'r) services \<Rightarrow> ('ek, 'dk) crypto \<Rightarrow> bool \<Rightarrow> id_scope \<Rightarrow> inputs \<Rightarrow> endpoint \<Rightarrow>
   ('s, 'r) app_state \<Rightarrow> ('s, 'r) outcome" where
  "handle sv C cancelled scope i ep =
     (case ep of
        E_Healthz \<Rightarrow> (\<lambda>s. (Done (plain 200 (P_Text healthz)), s))
      | E_Readyz \<Rightarrow> (\<lambda>s. (Done (plain (readyz cancelled (in_pool i)) P_Empty), s))
      | E_Version \<Rightarrow> (\<lambda>s. (Done (plain 200 (P_Text service_version)), s))
      | E_Swagger \<Rightarrow> (\<lambda>s. (Done (plain (in_swagger i) P_Empty), s))
      | E_Slow \<Rightarrow> (\<lambda>s. (Done (plain 200 (P_Text (snd (snd slow)))), s))
      | E_Slow_Blocking \<Rightarrow> (\<lambda>s. (Done (plain 200 (P_Text (snd (snd slow_blocking)))), s))
      | E_Metrics \<Rightarrow> (\<lambda>s. (Done (plain 200 (P_Text (in_metrics i))), s))
      | E_Method_Not_Allowed \<Rightarrow> (\<lambda>s. (Done (plain 405 P_Empty), s))
      | E_Bad_Path \<Rightarrow> (\<lambda>s. (Done (plain 400 P_Empty), s))
      | E_Fallback \<Rightarrow> (\<lambda>s. (Done (error_response scope fallback_404), s))
      | E_Login \<Rightarrow> (\<lambda>s. (case in_login i of
            Inl (status, _) \<Rightarrow> (Done (plain status P_Empty), s)
          | Inr req \<Rightarrow>
              (case login_handler C (cfg_auth (sv_config sv)) req (in_now i) of
                 Panic \<Rightarrow> (Panic, s)
               | Done (Inl e) \<Rightarrow> (Done (auth_response scope e), s)
               | Done (Inr r) \<Rightarrow> (Done (plain 200 (P_Login r)), s))))
      | E_Redirect code \<Rightarrow>
          respond scope (\<lambda>r. \<lparr>resp_status = resp_status r, resp_headers = resp_headers r, resp_body = P_Empty\<rparr>)
            (redirect sv code (in_now i) (in_hit i))
      | E_Create \<Rightarrow>
          respond scope (\<lambda>r. \<lparr>resp_status = resp_status r, resp_headers = resp_headers r,
                            resp_body = P_Link (resp_body r)\<rparr>)
            (with_json (in_create i) (\<lambda>req. create_link sv req (in_now i) (in_codes i) (in_clock i)))
      | E_List \<Rightarrow> respond scope (\<lambda>r. plain 200 (P_Links r)) (list_links sv (in_params i))
      | E_Get code \<Rightarrow> respond scope (\<lambda>r. plain 200 (P_Link r)) (get_link sv code (in_offset i))
      | E_Update code \<Rightarrow>
          respond scope (\<lambda>r. plain 200 (P_Link r))
            (with_json (in_update i) (\<lambda>req. update_link sv code req (in_now i)))
      | E_Delete code \<Rightarrow> respond scope (\<lambda>status. plain status P_Empty) (delete_link sv code)
      | E_Link_Stats code \<Rightarrow>
          respond scope (\<lambda>r. plain 200 (P_Stats r)) (get_link_stats sv code (in_now i) (in_hit i))
      | E_Top \<Rightarrow> (\<lambda>s. (case in_limit i of
            Inl (status, _) \<Rightarrow> (Done (plain status P_Empty), s)
          | Inr limit \<Rightarrow> (Done (plain 200 (P_Top (get_top_stats (top_query_of limit) s))), s))))"

text \<open>The whole request: the request-id scope, the route, the authentication layer, the handler.\<close>

definition serve_in_scope ::
  "('s, 'r) services \<Rightarrow> ('ek, 'dk) crypto \<Rightarrow> bool \<Rightarrow> inputs \<Rightarrow>
   id_scope \<Rightarrow> http_request \<Rightarrow> ('s, 'r) app_state \<Rightarrow> ('s, 'r) outcome" where
  "serve_in_scope sv C cancelled i scope req s =
     (let (protected, ep) = route (rq_method req) (rq_path req)
      in if protected
         then (case auth_middleware C (cfg_auth (sv_config sv))
                      (\<lambda>_ _. handle sv C cancelled scope i ep) req (in_now i) s of
                 (Inl e, s') \<Rightarrow> (Done (auth_response scope e), s')
               | (Inr r, s') \<Rightarrow> (r, s'))
         else handle sv C cancelled scope i ep s)"

definition serve ::
  "('s, 'r) services \<Rightarrow> ('ek, 'dk) crypto \<Rightarrow> bool \<Rightarrow> inputs \<Rightarrow>
   http_request \<Rightarrow> ('s, 'r) app_state \<Rightarrow> ('s, 'r) outcome" where
  "serve sv C cancelled i req =
     request_id_scope req (serve_in_scope sv C cancelled i)"

section \<open>Templates of paths\<close>

definition route_template :: "string \<Rightarrow> string" where
  "route_template path =
     (if starts_with path ''/api/v1/links/'' \<and> 14 < length path \<and> count_list path CHR ''/'' = 3
      then ''/api/v1/links/{code}''
      else if starts_with path ''/api/v1/links/'' \<and> 14 < length path \<and>
              (path = ''/api/v1/links'' \<or> path = ''/api/v1/links/'')
      then ''/api/v1/links''
      else if path = ''/healthz'' then ''/healthz''
      else if path = ''/version'' then ''/version''
      else if path = ''/slow'' then ''/slow''
      else if path = ''/slow-blocking'' then ''/slow-blocking''
      else if path = ''/stats/top'' then ''/stats/top''
      else if path = ''/metrics'' then ''/metrics''
      else if starts_with path ''/api/v1/links/'' \<and> ends_with path ''/stats''
      then ''/api/v1/links/{code}/stats''
      else if 1 < length path \<and> \<not> starts_with path ''/'' then ''/{code}''
      else if 1 < length path \<and> list_all code_char path then ''/{code}''
      else path)"

text \<open>The template of a link is never reached: its prefix alone has four slashes.\<close>

lemma starts_links_slashes:
  assumes "starts_with path ''/api/v1/links/''"
  shows "4 \<le> count_list path CHR ''/''"
proof -
  obtain r where "path = ''/api/v1/links/'' @ r" using assms starts_with_iff by blast
  then show ?thesis by simp
qed

section \<open>The layers around the routes\<close>

text \<open>
  \<open>SetRequestIdLayer\<close> gives a request without \<open>x-request-id\<close> a fresh UUID, \<open>PropagateRequestIdLayer\<close>
  copies the header to a response without it, as the library documents. The copy of a header value that
  is not text is not represented.
\<close>

definition set_request_id :: "string \<Rightarrow> http_request \<Rightarrow> http_request" where
  "set_request_id uuid req =
     (case rq_header req ''x-request-id'' of
        Some _ \<Rightarrow> req
      | None \<Rightarrow> req\<lparr>rq_header := (rq_header req)(''x-request-id'' \<mapsto> Some uuid)\<rparr>)"

definition propagate_request_id :: "http_request \<Rightarrow> 'b http_response \<Rightarrow> 'b http_response" where
  "propagate_request_id req resp =
     (case header_text req ''x-request-id'' of
        None \<Rightarrow> resp
      | Some v \<Rightarrow>
          if ''x-request-id'' \<in> fst ` set (resp_headers resp) then resp
          else resp\<lparr>resp_headers := resp_headers resp @ [(''x-request-id'', v)]\<rparr>)"

text \<open>
  The counter \<open>http_requests_total\<close>, as the list of its increments with their labels: method, route and
  status. A panic in a handler unwinds past the increment.
\<close>

type_synonym labels = "string \<times> string \<times> string"

definition http_metrics_middleware ::
  "(http_request \<Rightarrow> 's \<Rightarrow> 'b http_response run \<times> 's) \<Rightarrow> http_request \<Rightarrow>
   's \<times> labels list \<Rightarrow> 'b http_response run \<times> 's \<times> labels list" where
  "http_metrics_middleware run_next req = (\<lambda>(s, counter).
     (let mtd = rq_method req;
          rt = route_template (rq_path req)
      in (case run_next req s of
            (Panic, s') \<Rightarrow> (Panic, s', counter)
          | (Done response, s') \<Rightarrow>
              (Done response, s', counter @ [(mtd, rt, show_nat (resp_status response))]))))"

definition app ::
  "('s, 'r) services \<Rightarrow> ('ek, 'dk) crypto \<Rightarrow> bool \<Rightarrow> inputs \<Rightarrow> string \<Rightarrow>
   http_request \<Rightarrow> ('s, 'r) app_state \<times> labels list \<Rightarrow>
   payload http_response run \<times> ('s, 'r) app_state \<times> labels list" where
  "app sv C cancelled i uuid req =
     request_id_scope (set_request_id uuid req) (\<lambda>scope.
       http_metrics_middleware (\<lambda>req s.
         (case serve_in_scope sv C cancelled i scope req s of
            (Panic, s') \<Rightarrow> (Panic, s')
          | (Done response, s') \<Rightarrow> (Done (propagate_request_id req response), s'))))"

section \<open>Request ids and metrics\<close>

text \<open>The error bodies of a response carry the id of its scope.\<close>

definition ids_ok :: "string option \<Rightarrow> payload \<Rightarrow> bool" where
  "ids_ok rid p = (case p of
     P_Error b \<Rightarrow> eb_request_id b = rid | P_Auth b \<Rightarrow> ab_request_id b = rid | _ \<Rightarrow> True)"

lemma ids_ok_simps [simp]:
  "ids_ok (current_request_id scope) (resp_body (error_response scope e))"
  "ids_ok (current_request_id scope) (resp_body (auth_response scope e'))"
  "resp_body (plain status p) = p"
  "resp_status (plain status p) = status"
  by (simp_all add: ids_ok_def error_response_def auth_response_def auth_into_response_def into_response_body
      plain_def Let_def)

lemma respond_ids:
  "(\<And>v. ids_ok (current_request_id scope) (resp_body (ok v))) \<Longrightarrow>
   respond scope ok m s = (Done resp, s') \<Longrightarrow> ids_ok (current_request_id scope) (resp_body resp)"
  by (auto simp: respond_def split: prod.splits run.splits sum.splits)

lemma ids_ok_other [simp]:
  "ids_ok rid P_Empty" "ids_ok rid (P_Text t)" "ids_ok rid (P_Link l)" "ids_ok rid (P_Links ls)"
  "ids_ok rid (P_Stats st)" "ids_ok rid (P_Top ts)" "ids_ok rid (P_Login lg)"
  by (simp_all add: ids_ok_def)

lemma handle_ids:
  assumes "handle sv C cancelled scope i ep s = (Done resp, s')"
  shows "ids_ok (current_request_id scope) (resp_body resp)"
  using assms
  by (cases ep) (auto simp: handle_def split: sum.splits run.splits elim!: respond_ids [rotated])

lemma serve_in_scope_ids:
  assumes "serve_in_scope sv C cancelled i scope req s = (Done resp, s')"
  shows "ids_ok (current_request_id scope) (resp_body resp)"
  using assms
  by (auto simp: serve_in_scope_def auth_middleware_def Let_def dest: handle_ids
      split: prod.splits option.splits sum.splits if_splits)

lemma header_text_set:
  "header_text (set_request_id uuid req) ''x-request-id'' =
     (case rq_header req ''x-request-id'' of None \<Rightarrow> Some uuid | Some v \<Rightarrow> v)"
  by (auto simp: set_request_id_def header_text_def split: option.splits)

lemma propagate_simps [simp]:
  "resp_body (propagate_request_id req resp) = resp_body resp"
  "resp_status (propagate_request_id req resp) = resp_status resp"
  by (simp_all add: propagate_request_id_def split: option.split)

text \<open>No handler sets \<open>x-request-id\<close> itself.\<close>

definition sets_id :: "'b http_response \<Rightarrow> bool" where
  "sets_id resp \<longleftrightarrow> ''x-request-id'' \<in> fst ` set (resp_headers resp)"

lemma sets_id_simps [simp]:
  "\<not> sets_id (plain status p)" "\<not> sets_id (auth_response scope e')" "\<not> sets_id (error_response scope e)"
  "resp_headers resp = [(''location'', l)] \<Longrightarrow> \<not> sets_id resp"
  by (cases e; simp add: sets_id_def plain_def auth_response_def auth_into_response_def error_response_def
      into_response_def Let_def)+

lemma handler_headers:
  "create_link sv req now codes clock s = (Done (Inr r), s') \<Longrightarrow> \<exists>l. resp_headers r = [(''location'', l)]"
  "redirect sv code now hit s = (Done (Inr u), s') \<Longrightarrow> \<exists>l. resp_headers u = [(''location'', l)]"
  by (auto simp: create_link_def redirect_def h_bind_Inr h_result_eq split: if_splits)

lemma respond_sets_id:
  assumes "respond scope ok m s = (Done resp, s')" and "\<And>v. m s = (Done (Inr v), s') \<Longrightarrow> \<not> sets_id (ok v)"
  shows "\<not> sets_id resp"
  using assms by (auto simp: respond_def split: prod.splits run.splits sum.splits)

lemma with_json_result: "with_json extracted f s = (Done (Inr v), s') \<Longrightarrow> \<exists>x. f x s = (Done (Inr v), s')"
  by (auto simp: with_json_def h_bind_Inr h_result_eq)

lemma handle_sets_id:
  assumes "handle sv C cancelled scope i ep s = (Done resp, s')"
  shows "\<not> sets_id resp"
proof (cases ep)
  case (E_Redirect code)
  then show ?thesis
    using assms by (auto simp: handle_def dest!: handler_headers(2) elim!: respond_sets_id)
next
  case E_Create
  then show ?thesis
    using assms by (auto simp: handle_def dest!: handler_headers(1) with_json_result elim!: respond_sets_id)
qed (use assms in \<open>auto simp: handle_def split: sum.splits run.splits elim!: respond_sets_id\<close>)

lemma serve_in_scope_sets_id:
  assumes "serve_in_scope sv C cancelled i scope req s = (Done resp, s')"
  shows "\<not> sets_id resp"
  using assms
  by (auto simp: serve_in_scope_def auth_middleware_def Let_def dest: handle_sets_id
      split: prod.splits option.splits sum.splits if_splits)

lemma propagate_adds:
  "header_text req ''x-request-id'' = Some v \<Longrightarrow> \<not> sets_id resp \<Longrightarrow>
   map_of (resp_headers (propagate_request_id req resp)) ''x-request-id'' = Some v"
  by (auto simp: propagate_request_id_def sets_id_def map_add_def split: option.split dest!: map_of_SomeD)
     (metis fst_conv image_eqI)

text \<open>The layers leave the effect on the state to \<open>serve\<close>.\<close>

lemma app_state_is_serve:
  "fst (snd (app sv C cancelled i uuid req (s, counter))) =
   snd (serve sv C cancelled i (set_request_id uuid req) s)"
  by (auto simp: app_def serve_def request_id_scope_def http_metrics_middleware_def Let_def
      split: prod.splits run.splits)

text \<open>
  The path of a link is its own metric label, as the template for it is out of reach; only a link with
  the code \<open>stats\<close> gets a template, that of the statistics.
\<close>

lemma link_path_ends_with_stats:
  assumes "CHR ''/'' \<notin> set code" and "code \<noteq> ''stats''"
  shows "\<not> ends_with (''/api/v1/links/'' @ code) ''/stats''"
proof (cases "length code < 6")
  case False
  have "drop (length code + 8) (''/api/v1/links/'' @ code) = drop (length code - 6) code"
    using False drop_append [of "length code + 8" "''/api/v1/links/''" code]
    by (simp del: append_Cons append_Nil drop_append)
  moreover have "CHR ''/'' \<notin> set (drop (length code - 6) code)"
    using assms(1) in_set_dropD by metis
  moreover have "length (''/api/v1/links/'' @ code) - length ''/stats'' = length code + 8"
    by simp
  ultimately show ?thesis unfolding ends_with_def by (metis list.set_intros(1))
next
  case True
  then have "length code = 0 \<or> length code = 1 \<or> length code = 2 \<or> length code = 3 \<or>
      length code = 4 \<or> length code = 5" by arith
  then show ?thesis
    using assms by (elim disjE) (auto simp: ends_with_def length_Suc_conv numeral_eq_Suc)
qed

lemma link_paths_are_not_templated:
  assumes "code \<noteq> []" and "CHR ''/'' \<notin> set code" and "code \<noteq> ''stats''"
  shows "route_template (''/api/v1/links/'' @ code) = ''/api/v1/links/'' @ code"
proof -
  have "count_list (''/api/v1/links/'' @ code) CHR ''/'' = 4" using assms(2) by (simp add: count_list_0_iff)
  then show ?thesis
    using link_path_ends_with_stats [OF assms(2,3)] assms(1)
    by (simp add: route_template_def code_char_def is_ascii_alphanumeric_def starts_with_def)
qed

end
