(* ===== verification/Coherence.thy ===== *)
theory Coherence
  imports Router
begin

text \<open>
  The cache against the repository: an entry of the cache is what the repository would answer. Every
  handler keeps this, over any repository, if Redis answers its deletions and JSON is read back as it
  was written. The lemmas are proved once in the locale \<open>repository\<close>.
\<close>

definition json_round_trip :: "('s, 'r) services \<Rightarrow> bool" where
  "json_round_trip sv \<longleftrightarrow>
     (\<forall>x raw. response_to_json sv x = Some raw \<longrightarrow> response_from_json sv raw = Some x)"

definition cache_coherent ::
  "('s, 'r) services \<Rightarrow> ('r \<Rightarrow> string \<rightharpoonup> string) \<Rightarrow> link_view \<Rightarrow> 'r cache \<Rightarrow> bool" where
  "cache_coherent sv contents v c \<longleftrightarrow>
     (\<forall>code raw resp. cached contents c (link_key code) = Some raw \<longrightarrow>
        response_from_json sv raw = Some resp \<longrightarrow>
        (\<exists>st. v code = Some st \<and> resp = link_response_of_stats st))"

lemma cache_coherent_disabled: "cache_coherent sv contents v cache_disabled"
  by (simp add: cache_coherent_def cached_def cache_disabled_def)

lemma cache_coherentD:
  "cache_coherent sv contents v c \<Longrightarrow> cached contents c (link_key code) = Some raw \<Longrightarrow>
   response_from_json sv raw = Some resp \<Longrightarrow> \<exists>st. v code = Some st \<and> resp = link_response_of_stats st"
  by (simp add: cache_coherent_def)

text \<open>A cache that lost entries, over a view that kept what the remaining ones say.\<close>

lemma cache_coherent_mono:
  assumes "cache_coherent sv contents v c" and "cached contents c' \<subseteq>\<^sub>m cached contents c"
    and "\<And>code st. cached contents c' (link_key code) \<noteq> None \<Longrightarrow> v code = Some st \<Longrightarrow> v' code = Some st"
  shows "cache_coherent sv contents v' c'"
  unfolding cache_coherent_def
proof (intro allI impI)
  fix code raw resp
  assume raw: "cached contents c' (link_key code) = Some raw" and resp: "response_from_json sv raw = Some resp"
  have "cached contents c (link_key code) = Some raw"
    using assms(2) raw unfolding map_le_def by (metis domI)
  from cache_coherentD [OF assms(1) this resp] show "\<exists>st. v' code = Some st \<and> resp = link_response_of_stats st"
    using assms(3) raw by blast
qed

lemma cache_coherent_extend:
  "cache_coherent sv contents v c \<Longrightarrow> v \<subseteq>\<^sub>m v' \<Longrightarrow> cache_coherent sv contents v' c"
  by (rule cache_coherent_mono [of sv contents v c c v'])
     (simp_all add: map_le_def, metis domI)

lemma cache_coherent_invalidate:
  assumes "cache_coherent sv contents v c" and "redis_maps R contents" and "redis_deletes R"
    and "\<And>d. d \<noteq> code \<Longrightarrow> v' d = v d"
  shows "cache_coherent sv contents v' (cache_invalidate R (link_key code) c)"
proof (rule cache_coherent_mono [OF assms(1) cache_invalidate_frame [OF assms(2)]])
  fix d st
  assume "cached contents (cache_invalidate R (link_key code) c) (link_key d) \<noteq> None" and "v d = Some st"
  then show "v' d = Some st"
    using cache_invalidate_gone [OF assms(2,3)] assms(4) by (cases "d = code") auto
qed

section \<open>The handlers leave the cache alone, or invalidate it\<close>

lemma preserves_cache_repo: "preserves (\<lambda>s. as_cache s = c) (h_repo f)"
  by (simp add: preserves_def h_repo_def on_repo_def Let_def split_beta)

lemma generate_cache: "as_cache (snd (generate_code_from sv url expires codes clock i n s)) = as_cache s"
proof (induction n arbitrary: i s)
  case (Suc n)
  have "as_cache s' = as_cache s" if "try_insert_link sv (codes i) url expires (clock i) s = (r, s')" for r s'
    using that by (auto simp: try_insert_link_eq on_repo_eq)
  then show ?case
    using Suc.IH by (auto split: prod.splits sum.splits repo_error.splits)
qed simp

lemma create_link_cache: "preserves (\<lambda>s. as_cache s = c) (create_link sv req now codes clock)"
proof -
  have "preserves (\<lambda>s. as_cache s = c) (insert_code sv custom url expires codes clock)" for custom url expires
    unfolding insert_code_def insert_link_eq generate_code_def
    by (auto split: option.split intro!: preserves_bind preserves_result preserves_cache_repo)
       (simp add: preserves_def generate_cache)
  then show ?thesis
    unfolding create_link_def by (intro preserves_bind preserves_result preserves_cache_repo)
qed

section \<open>Every handler keeps the cache coherent\<close>

definition coherent_state ::
  "('s \<Rightarrow> bool) \<Rightarrow> ('s \<Rightarrow> link_view) \<Rightarrow> ('s, 'r) services \<Rightarrow> ('r \<Rightarrow> string \<rightharpoonup> string) \<Rightarrow>
   ('s, 'r) app_state \<Rightarrow> bool" where
  "coherent_state I view sv contents s \<longleftrightarrow>
     I (as_repo s) \<and> cache_coherent sv contents (view (as_repo s)) (as_cache s)"

context repository
begin

lemma coherent_repo:
  "coherent_state inv view sv contents s \<Longrightarrow> inv repo \<Longrightarrow> view (as_repo s) \<subseteq>\<^sub>m view repo \<Longrightarrow>
   coherent_state inv view sv contents (s\<lparr>as_repo := repo\<rparr>)"
  unfolding coherent_state_def by (auto intro: cache_coherent_extend)

lemma create_link_coherent:
  assumes "sv_repo sv = R" and I: "coherent_state inv view sv contents s"
  shows "coherent_state inv view sv contents (snd (create_link sv req now codes clock s))"
proof -
  let ?s' = "snd (create_link sv req now codes clock s)"
  have "keeps inv view (view (as_repo s)) (as_repo ?s')"
    using preservesD [OF create_link_keeps [OF assms(1), of "view (as_repo s)" req now codes clock], of s] I
    by (simp add: keeps_def coherent_state_def)
  moreover have "as_cache ?s' = as_cache s"
    using preservesD [OF create_link_cache [of "as_cache s" sv req now codes clock], of s] by simp
  ultimately show ?thesis
    using I unfolding coherent_state_def keeps_def by (auto intro: cache_coherent_extend)
qed

lemma stats_coherent:
  "coherent_state inv view sv contents s \<Longrightarrow> repo_stats R code (as_repo s) = (r, repo) \<Longrightarrow>
   coherent_state inv view sv contents (s\<lparr>as_repo := repo\<rparr>)"
  using coherent_repo [of sv contents s repo] stats_inv [of "as_repo s" code] stats_view [of "as_repo s" code]
  by (simp add: coherent_state_def)

lemma cache_set_coherent:
  assumes redis: "redis_maps (sv_redis sv) contents" and json: "json_round_trip sv"
    and coh: "cache_coherent sv contents v c" and st: "v code = Some st"
    and set: "cache_set (sv_redis sv) (response_to_json sv) offset (link_key code) (link_response_of_stats st) c = (u, c')"
  shows "cache_coherent sv contents v c'"
  unfolding cache_coherent_def
proof (intro allI impI)
  fix d raw resp
  assume raw: "cached contents c' (link_key d) = Some raw" and resp: "response_from_json sv raw = Some resp"
  from cache_set_frame [OF redis set raw]
  show "\<exists>st. v d = Some st \<and> resp = link_response_of_stats st"
  proof
    assume "cached contents c (link_key d) = Some raw"
    then show ?thesis using cache_coherentD [OF coh _ resp] by blast
  next
    assume "link_key d = link_key code \<and> response_to_json sv (link_response_of_stats st) = Some raw"
    then show ?thesis using json st resp by (auto simp: json_round_trip_def)
  qed
qed

lemma get_link_coherent:
  assumes sv: "sv_repo sv = R" and redis: "redis_maps (sv_redis sv) contents" and json: "json_round_trip sv"
    and I: "coherent_state inv view sv contents s" and run: "get_link sv code offset s = (r, s')"
  shows "coherent_state inv view sv contents s' \<and> view (as_repo s') = view (as_repo s) \<and>
    (\<forall>resp. r = Done (Inr resp) \<longrightarrow>
       (\<exists>st. view (as_repo s) code = Some st \<and> resp = link_response_of_stats st))"
proof -
  have inv: "inv (as_repo s)" and coh: "cache_coherent sv contents (view (as_repo s)) (as_cache s)"
    using I by (simp_all add: coherent_state_def)
  obtain x c where get: "cache_get (sv_redis sv) (response_from_json sv) (link_key code) (as_cache s) = (x, c)"
    by fastforce
  have coh1: "cache_coherent sv contents (view (as_repo s)) c"
    by (rule cache_coherent_mono [OF coh cache_get_frame [OF redis get]])
  show ?thesis
  proof (cases x)
    case (Some resp)
    then have "\<exists>st. view (as_repo s) code = Some st \<and> resp = link_response_of_stats st"
      using cache_get_Some [OF redis get [unfolded Some]] cache_coherentD [OF coh] by blast
    then show ?thesis
      using run get Some inv coh1 by (auto simp: get_link_def coherent_state_def)
  next
    case None
    obtain q repo where st: "repo_stats R code (as_repo s) = (q, repo)" by fastforce
    have repo: "inv repo" "view repo = view (as_repo s)"
      using stats_inv [OF inv, of code] stats_view [OF inv, of code] st by simp_all
    show ?thesis
    proof (cases q)
      case (Inl e)
      then show ?thesis
        using run get None st sv repo coh1
        by (auto simp: get_link_def h_bind_def h_repo_def on_repo_def coherent_state_def)
    next
      case (Inr stats)
      obtain u c' where set: "cache_set (sv_redis sv) (response_to_json sv) offset (link_key code)
          (link_response_of_stats stats) c = (u, c')" by fastforce
      have view: "view (as_repo s) code = Some stats" using stats_ok [OF inv] st Inr by blast
      have "cache_coherent sv contents (view repo) c'"
        using cache_set_coherent [OF redis json coh1 view set] repo by simp
      then show ?thesis
        using run get None st sv repo Inr set view
        by (auto simp: get_link_def h_bind_def h_repo_def on_repo_def coherent_state_def Let_def split: run.splits)
    qed
  qed
qed

text \<open>The three handlers that change a link invalidate its entry.\<close>

lemma h_repo_coherent:
  assumes "coherent_state inv view sv contents s" and "h_repo f s = (r, s1)"
    and "inv (snd (f (as_repo s)))" and "view (snd (f (as_repo s))) = view (as_repo s)"
  shows "coherent_state inv view sv contents s1 \<and> view (as_repo s1) = view (as_repo s)"
  using assms by (auto simp: h_repo_def on_repo_def Let_def split_beta coherent_state_def)

lemma changed_coherent:
  assumes "coherent_state inv view sv contents s" and "redis_maps (sv_redis sv) contents" and "redis_deletes (sv_redis sv)"
    and "inv repo" and "\<And>d. d \<noteq> code \<Longrightarrow> view repo d = view (as_repo s) d"
  shows "coherent_state inv view sv contents (s\<lparr>as_repo := repo,
    as_cache := cache_invalidate (sv_redis sv) (link_key code) (as_cache s)\<rparr>)"
proof -
  have "cache_coherent sv contents (view (as_repo s)) (as_cache s)"
    using assms(1) by (simp add: coherent_state_def)
  from cache_coherent_invalidate [OF this assms(2,3,5)] show ?thesis
    using assms(4) by (simp add: coherent_state_def)
qed

lemma same_view_coherent:
  "coherent_state inv view sv contents s \<Longrightarrow> inv repo \<Longrightarrow> view repo = view (as_repo s) \<Longrightarrow>
   coherent_state inv view sv contents (s\<lparr>as_repo := repo\<rparr>)"
  by (simp add: coherent_state_def)

lemma redirect_coherent:
  assumes sv: "sv_repo sv = R" and redis: "redis_maps (sv_redis sv) contents" "redis_deletes (sv_redis sv)"
    and I: "coherent_state inv view sv contents s"
  shows "coherent_state inv view sv contents (snd (redirect sv code now hit s))"
proof -
  have inv: "inv (as_repo s)" using I by (simp add: coherent_state_def)
  obtain q r1 where get: "repo_get R code (as_repo s) = (q, r1)" by fastforce
  have r1: "inv r1" "view r1 = view (as_repo s)"
    using get_inv [OF inv, of code] get_view [OF inv, of code] get by simp_all
  have I1: "coherent_state inv view sv contents (s\<lparr>as_repo := r1\<rparr>)" by (rule same_view_coherent [OF I r1])
  obtain h r2 where hit: "repo_record_hit R code hit r1 = (h, r2)" by fastforce
  have r2: "inv r2" using record_hit_inv [OF r1(1), of code hit] hit by simp
  have I2: "coherent_state inv view sv contents (s\<lparr>as_repo := r2,
      as_cache := cache_invalidate (sv_redis sv) (link_key code) (as_cache s)\<rparr>)" if "h = Inr n" for n
  proof (rule changed_coherent [OF I redis r2])
    fix d
    assume "d \<noteq> code"
    then show "view r2 d = view (as_repo s) d"
      using record_hit_ok [OF r1(1) hit [unfolded that]] r1(2) by auto
  qed
  have I3: "coherent_state inv view sv contents (s\<lparr>as_repo := r2\<rparr>)" if "h = Inl e" for e
    using same_view_coherent [OF I r2] record_hit_err [OF r1(1)] hit that r1(2) by auto
  show ?thesis
    using I1 I2 I3 get hit
    by (auto simp: redirect_def h_bind_def h_repo_def on_repo_def h_result_def h_invalidate_def sv
        repo_result_Inr repo_result_Inl split: sum.splits)
qed

lemma update_link_coherent:
  assumes sv: "sv_repo sv = R" and redis: "redis_maps (sv_redis sv) contents" "redis_deletes (sv_redis sv)"
    and I: "coherent_state inv view sv contents s"
  shows "coherent_state inv view sv contents (snd (update_link sv code req now s))"
proof (cases "parse_target_url (url_parse sv) (ur_target_url req)")
  case (Inl e)
  then show ?thesis using I by (simp add: update_link_def h_bind_def h_result_def)
next
  case (Inr u)
  have inv: "inv (as_repo s)" using I by (simp add: coherent_state_def)
  obtain q r1 where up: "repo_update R code (url_text u) (ur_version req) now (as_repo s) = (q, r1)" by fastforce
  have r1: "inv r1" using update_inv [OF inv] up by (metis snd_conv)
  have I1: "coherent_state inv view sv contents (s\<lparr>as_repo := r1,
      as_cache := cache_invalidate (sv_redis sv) (link_key code) (as_cache s)\<rparr>)" if "q = Inr l" for l
    using changed_coherent [OF I redis r1, of code] update_ok [OF inv] up that by fastforce
  have I2: "coherent_state inv view sv contents (s\<lparr>as_repo := r1\<rparr>)" if "q = Inl e" for e
    using same_view_coherent [OF I r1] update_err [OF inv] up that by auto
  show ?thesis
    using I1 I2 up Inr
    by (auto simp: update_link_def h_bind_def h_repo_def on_repo_def h_result_def h_invalidate_def sv
        repo_result_Inr repo_result_Inl split: sum.splits)
qed

lemma delete_link_coherent:
  assumes sv: "sv_repo sv = R" and redis: "redis_maps (sv_redis sv) contents" "redis_deletes (sv_redis sv)"
    and I: "coherent_state inv view sv contents s"
  shows "coherent_state inv view sv contents (snd (delete_link sv code s))"
proof -
  have inv: "inv (as_repo s)" using I by (simp add: coherent_state_def)
  obtain q r1 where rm: "repo_remove R code (as_repo s) = (q, r1)" by fastforce
  have r1: "inv r1" using remove_inv [OF inv, of code] rm by simp
  have I1: "coherent_state inv view sv contents (s\<lparr>as_repo := r1,
      as_cache := cache_invalidate (sv_redis sv) (link_key code) (as_cache s)\<rparr>)" if "q = Inr u" for u
    using changed_coherent [OF I redis r1, of code] remove_ok [OF inv] rm that by auto
  have I2: "coherent_state inv view sv contents (s\<lparr>as_repo := r1\<rparr>)" if "q = Inl e" for e
    using same_view_coherent [OF I r1] remove_err [OF inv] rm that by auto
  show ?thesis
    using I1 I2 rm
    by (auto simp: delete_link_def h_bind_def h_repo_def on_repo_def h_result_def h_invalidate_def sv
        repo_result_Inr repo_result_Inl split: sum.splits)
qed

lemma list_links_coherent:
  assumes sv: "sv_repo sv = R" and I: "coherent_state inv view sv contents s"
  shows "coherent_state inv view sv contents (snd (list_links sv params s))"
proof -
  have inv: "inv (as_repo s)" using I by (simp add: coherent_state_def)
  obtain q r1 where ls: "repo_list R (list_limit params) (list_cursor sv params) (as_repo s) = (q, r1)" by fastforce
  have "coherent_state inv view sv contents (s\<lparr>as_repo := r1\<rparr>)"
    using same_view_coherent [OF I] list_inv [OF inv] list_view [OF inv] ls by (metis snd_conv)
  then show ?thesis
    using ls by (auto simp: list_links_def on_repo_def Let_def sv split: run.splits sum.splits)
qed

lemma get_link_stats_coherent:
  assumes sv: "sv_repo sv = R" and I: "coherent_state inv view sv contents s"
  shows "coherent_state inv view sv contents (snd (get_link_stats sv code now rd s))"
proof -
  have inv: "inv (as_repo s)" using I by (simp add: coherent_state_def)
  obtain q r1 where get: "repo_get R code (as_repo s) = (q, r1)" by fastforce
  have "coherent_state inv view sv contents (s\<lparr>as_repo := r1\<rparr>)"
    using same_view_coherent [OF I] get_inv [OF inv, of code] get_view [OF inv, of code] get by simp
  then show ?thesis
    using get by (auto simp: get_link_stats_def h_bind_def h_repo_def on_repo_def h_result_def Let_def sv
        split_beta split: sum.splits)
qed

lemma respond_coherent:
  "coherent_state inv view sv contents (snd (m s)) \<Longrightarrow>
   coherent_state inv view sv contents (snd (respond scope ok m s))"
  by (auto simp: respond_def split: prod.splits run.splits sum.splits)

lemma with_json_coherent:
  "coherent_state inv view sv contents s \<Longrightarrow>
   (\<And>req. coherent_state inv view sv contents (snd (f req s))) \<Longrightarrow>
   coherent_state inv view sv contents (snd (with_json extracted f s))"
  by (auto simp: with_json_def h_bind_def h_result_def split: sum.splits)

lemma handle_coherent:
  assumes sv: "sv_repo sv = R" and redis: "redis_maps (sv_redis sv) contents" "redis_deletes (sv_redis sv)"
    and json: "json_round_trip sv" and I: "coherent_state inv view sv contents s"
  shows "coherent_state inv view sv contents (snd (handle sv C cancelled scope i ep s))"
proof -
  have get: "coherent_state inv view sv contents (snd (get_link sv code offset s))" for code offset
    using get_link_coherent [OF sv redis(1) json I] by (metis prod.collapse)
  note keeps = create_link_coherent [OF sv I] redirect_coherent [OF sv redis I]
    update_link_coherent [OF sv redis I] delete_link_coherent [OF sv redis I]
    list_links_coherent [OF sv I] get_link_stats_coherent [OF sv I] get
  show ?thesis
    by (cases ep) (simp_all add: handle_def I keeps respond_coherent with_json_coherent
        split: sum.split run.split)
qed

end

end
