(* ===== verification/Postgres.thy ===== *)
theory Postgres
  imports Domain_Link
begin

text \<open>
  The PostgreSQL store, \<open>crates/storage/src/postgres.rs\<close>: its SQL statements over the table \<open>links\<close>
  of the migration, with the table's constraints. The server is the record \<open>database\<close>: the rows, the
  number of statements run, and by that number the server's clock (\<open>now()\<close>), its fresh identifiers
  and the error a statement fails with, if the server does not run it (pool, connection, encoding);
  such a statement changes nothing. A transaction's rows become the table's at the commit. Timestamp
  conversion and formatting (\<open>chrono\<close>) and the collation of \<open>TEXT\<close>, as a sort key, are the record
  \<open>pg_env\<close>, a parameter.

  The store is interpreted as a \<open>versioned_repository\<close>, whatever the parameters.
\<close>

section \<open>Errors\<close>

datatype sql_error =
    RowNotFound
  | Database "string option" string
  | PoolTimedOut
  | PoolClosed
  | Other_Sql string

fun contains :: "string \<Rightarrow> string \<Rightarrow> bool" where
  "contains [] p \<longleftrightarrow> p = []"
| "contains (c # s) p \<longleftrightarrow> starts_with (c # s) p \<or> contains s p"

definition sql_error_text :: "sql_error \<Rightarrow> string" where
  "sql_error_text err = (case err of Database _ m \<Rightarrow> m | Other_Sql m \<Rightarrow> m | _ \<Rightarrow> [])"

definition map_sql_error :: "sql_error \<Rightarrow> repo_error" where
  "map_sql_error err =
     (case err of
        RowNotFound \<Rightarrow> NotFound ''not found''
      | Database code msg \<Rightarrow>
          if code = Some ''23505''
          then (if contains msg ''code'' then CodeTaken ''code already exists''
                else CodeTaken ''duplicate value'')
          else Internal (sql_error_text err)
      | PoolTimedOut \<Rightarrow> Unavailable
      | PoolClosed \<Rightarrow> Unavailable
      | _ \<Rightarrow> Internal (sql_error_text err))"

section \<open>The table and the server\<close>

record link_row =
  row_id :: uuid
  row_code :: string
  row_target_url :: string
  row_created_at :: system_time
  row_updated_at :: system_time
  row_expires_at :: "system_time option"
  row_version :: i64
  row_hits :: i64

definition link_of_row :: "link_row \<Rightarrow> short_link" where
  "link_of_row row =
     \<lparr>link_id = Some (row_id row),
      link_code = row_code row,
      link_target_url = row_target_url row,
      link_created_at = row_created_at row,
      link_updated_at = row_updated_at row,
      link_expires_at = row_expires_at row,
      link_version = row_version row\<rparr>"

record database =
  db_rows :: "link_row list"
  db_step :: nat
  db_now :: "nat \<Rightarrow> system_time"
  db_uuid :: "nat \<Rightarrow> uuid"
  db_fault :: "nat \<Rightarrow> sql_error option"

record pg_env =
  from_timestamp :: "i64 \<Rightarrow> system_time option"
  utc_now :: "nat \<Rightarrow> system_time"
  to_rfc3339 :: "system_time \<Rightarrow> string"
  parse_rfc3339 :: "string \<Rightarrow> system_time option"
  code_key :: "string \<Rightarrow> string"

text \<open>Running one statement: a function from the table to its result and the new table.\<close>

definition statement ::
  "(database \<Rightarrow> (sql_error + 'a) \<times> link_row list) \<Rightarrow> database \<Rightarrow> (sql_error + 'a) \<times> database" where
  "statement f db =
     (let (r, rows) = (case db_fault db (db_step db) of
                         Some e \<Rightarrow> (Inl e, db_rows db)
                       | None \<Rightarrow> f db)
      in (r, db\<lparr>db_rows := rows, db_step := Suc (db_step db)\<rparr>))"

definition query :: "(link_row list \<Rightarrow> sql_error + 'a) \<Rightarrow> database \<Rightarrow> (sql_error + 'a) \<times> database" where
  "query q = statement (\<lambda>db. (q (db_rows db), db_rows db))"

text \<open>\<open>char_length\<close> counts characters: the bytes that do not continue one.\<close>

definition char_length :: "string \<Rightarrow> nat" where
  "char_length s = length (filter (\<lambda>c. \<not> (128 \<le> (of_char c :: nat) \<and> (of_char c :: nat) \<le> 191)) s)"

definition i64_max :: i64 where
  "i64_max = 9223372036854775807"

definition out_of_range :: sql_error where
  "out_of_range = Database (Some ''22003'') ''bigint out of range''"

definition empty_target :: sql_error where
  "empty_target = Database (Some ''23514'') ''violates check constraint target_url_not_empty''"

definition insert_row :: "string \<Rightarrow> string \<Rightarrow> system_time option \<Rightarrow> database \<Rightarrow> (sql_error + link_row list)" where
  "insert_row code target_url expires_at db =
     (let row = \<lparr>row_id = db_uuid db (db_step db), row_code = code, row_target_url = target_url,
                 row_created_at = db_now db (db_step db), row_updated_at = db_now db (db_step db),
                 row_expires_at = expires_at, row_version = 1, row_hits = 0\<rparr>
      in if \<not> (4 \<le> char_length code \<and> char_length code \<le> 32)
         then Inl (Database (Some ''23514'') ''violates check constraint code_length'')
         else if char_length target_url = 0
         then Inl empty_target
         else if row_id row \<in> set (map row_id (db_rows db))
         then Inl (Database (Some ''23505'') ''duplicate key value violates unique constraint links_pkey'')
         else if code \<in> set (map row_code (db_rows db))
         then Inl (Database (Some ''23505'') ''duplicate key value violates unique constraint links_code_key'')
         else Inr (db_rows db @ [row]))"

section \<open>The repository\<close>

text \<open>
  \<open>insert\<close>: begin, execute, commit. The transaction sees its own rows; they reach the table at the
  commit.
\<close>

definition pg_expires_at :: "pg_env \<Rightarrow> nat \<Rightarrow> short_link \<Rightarrow> system_time option" where
  "pg_expires_at E n l =
     map_option (\<lambda>t. case from_timestamp E (as_secs (since_epoch t)) of
                       Some d \<Rightarrow> d | None \<Rightarrow> utc_now E n) (link_expires_at l)"

definition pg_insert :: "pg_env \<Rightarrow> short_link \<Rightarrow> database \<Rightarrow> (repo_error + unit) \<times> database" where
  "pg_insert E l db =
     (case query (\<lambda>_. Inr ()) db of
        (Inl e, db) \<Rightarrow> (Inl (map_sql_error e), db)
      | (Inr _, db) \<Rightarrow>
          let expires_at = pg_expires_at E (db_step db) l
          in (case statement (\<lambda>db. (insert_row (link_code l) (link_target_url l) expires_at db, db_rows db)) db of
                (Inl e, db) \<Rightarrow> (Inl (map_sql_error e), db)
              | (Inr rows, db) \<Rightarrow>
                  (case statement (\<lambda>_. (Inr (), rows)) db of
                     (Inl e, db) \<Rightarrow> (Inl (map_sql_error e), db)
                   | (Inr _, db) \<Rightarrow> (Inr (), db))))"

definition select_code :: "string \<Rightarrow> link_row list \<Rightarrow> link_row option" where
  "select_code code rows = find (\<lambda>row. row_code row = code) rows"

definition pg_get :: "string \<Rightarrow> database \<Rightarrow> (repo_error + short_link) \<times> database" where
  "pg_get code db =
     (case query (\<lambda>rows. Inr (select_code code rows)) db of
        (Inl e, db) \<Rightarrow> (Inl (map_sql_error e), db)
      | (Inr None, db) \<Rightarrow> (Inl (NotFound code), db)
      | (Inr (Some row), db) \<Rightarrow> (Inr (link_of_row row), db))"

definition pg_stats :: "string \<Rightarrow> database \<Rightarrow> (repo_error + link_stats) \<times> database" where
  "pg_stats code db =
     (case query (\<lambda>rows. Inr (select_code code rows)) db of
        (Inl e, db) \<Rightarrow> (Inl (map_sql_error e), db)
      | (Inr None, db) \<Rightarrow> (Inl (NotFound code), db)
      | (Inr (Some row), db) \<Rightarrow>
          (Inr \<lparr>stats_link = link_of_row row, stats_hits = row_hits row\<rparr>, db))"

definition delete_where :: "(link_row \<Rightarrow> bool) \<Rightarrow> database \<Rightarrow> (sql_error + nat) \<times> link_row list" where
  "delete_where p db =
     (Inr (length (filter p (db_rows db))), filter (\<lambda>row. \<not> p row) (db_rows db))"

definition pg_remove :: "string \<Rightarrow> database \<Rightarrow> (repo_error + unit) \<times> database" where
  "pg_remove code db =
     (case statement (delete_where (\<lambda>row. row_code row = code)) db of
        (Inl e, db) \<Rightarrow> (Inl (map_sql_error e), db)
      | (Inr rows_affected, db) \<Rightarrow>
          if rows_affected = 0 then (Inl (NotFound code), db) else (Inr (), db))"

text \<open>
  \<open>UPDATE ... WHERE ... RETURNING\<close> of at most one row; the new row may overflow or break a constraint.
\<close>

definition update_returning ::
  "(link_row \<Rightarrow> bool) \<Rightarrow> (link_row \<Rightarrow> sql_error + link_row) \<Rightarrow> database \<Rightarrow>
   (sql_error + link_row option) \<times> link_row list" where
  "update_returning p f db =
     (case find p (db_rows db) of
        None \<Rightarrow> (Inr None, db_rows db)
      | Some row \<Rightarrow>
          (case f row of
             Inl e \<Rightarrow> (Inl e, db_rows db)
           | Inr row' \<Rightarrow>
               (Inr (Some row'), map (\<lambda>r. if p r then row' else r) (db_rows db))))"

definition pg_record_hit :: "string \<Rightarrow> database \<Rightarrow> (repo_error + u64) \<times> database" where
  "pg_record_hit code db =
     (case statement (update_returning (\<lambda>row. row_code row = code)
             (\<lambda>row. if row_hits row = i64_max then Inl out_of_range
                    else Inr (row\<lparr>row_hits := row_hits row + 1\<rparr>))) db of
        (Inl e, db) \<Rightarrow> (Inl (map_sql_error e), db)
      | (Inr (Some row), db) \<Rightarrow> (Inr (row_hits row), db)
      | (Inr None, db) \<Rightarrow> (Inl (NotFound code), db))"

definition version_row :: "string \<Rightarrow> database \<Rightarrow> link_row \<Rightarrow> sql_error + link_row" where
  "version_row target_url db row =
     (if row_version row = i64_max then Inl out_of_range
      else if char_length target_url = 0 then Inl empty_target
      else Inr (row\<lparr>row_target_url := target_url, row_updated_at := db_now db (db_step db),
                   row_version := row_version row + 1\<rparr>))"

definition pg_update :: "string \<Rightarrow> string \<Rightarrow> i64 \<Rightarrow> database \<Rightarrow> (repo_error + short_link) \<times> database" where
  "pg_update code target_url version db =
     (case statement (\<lambda>db. update_returning (\<lambda>row. row_code row = code \<and> row_version row = version)
             (version_row target_url db) db) db of
        (Inl e, db) \<Rightarrow> (Inl (map_sql_error e), db)
      | (Inr (Some row), db) \<Rightarrow> (Inr (link_of_row row), db)
      | (Inr None, db) \<Rightarrow>
          (case query (\<lambda>rows. Inr (select_code code rows)) db of
             (Inl e, db) \<Rightarrow> (Inl (map_sql_error e), db)
           | (Inr (Some _), db) \<Rightarrow> (Inl VersionConflict, db)
           | (Inr None, db) \<Rightarrow> (Inl (NotFound code), db)))"

text \<open>The keyset query; a negative \<open>LIMIT\<close> is an error of the server.\<close>

definition row_key :: "pg_env \<Rightarrow> link_row \<Rightarrow> system_time reverse \<times> string reverse" where
  "row_key E row = (Reverse (row_created_at row), Reverse (code_key E (row_code row)))"

definition select_page ::
  "pg_env \<Rightarrow> (system_time \<times> string) option \<Rightarrow> i64 \<Rightarrow> link_row list \<Rightarrow> sql_error + link_row list" where
  "select_page E after limit rows =
     (let rows = (case after of
            None \<Rightarrow> rows
          | Some (ts, code) \<Rightarrow>
              filter (\<lambda>row. row_created_at row < ts \<or>
                 row_created_at row = ts \<and> code_key E (row_code row) < code_key E code) rows)
      in if sint limit < 0 then Inl (Database (Some ''2201W'') ''LIMIT must not be negative'')
         else Inr (take (unat limit) (sort_key (row_key E) rows)))"

definition pg_cursor :: "pg_env \<Rightarrow> short_link \<Rightarrow> cursor" where
  "pg_cursor E l = (to_rfc3339 E (link_created_at l), link_code l)"

definition pg_list ::
  "pg_env \<Rightarrow> u64 \<Rightarrow> cursor option \<Rightarrow> database \<Rightarrow>
   (repo_error + short_link list \<times> cursor option) \<times> database" where
  "pg_list E limit cursor db =
     (let after = map_option (\<lambda>(created_at_str, code).
            (case parse_rfc3339 E created_at_str of
               Some ts \<Rightarrow> ts | None \<Rightarrow> utc_now E (db_step db), code)) cursor
      in (case query (select_page E after limit) db of
            (Inl e, db) \<Rightarrow> (Inl (map_sql_error e), db)
          | (Inr rows, db) \<Rightarrow>
              let links = map link_of_row rows
              in (Inr (links, if links = [] then None else Some (pg_cursor E (last links))), db)))"

definition pg_purge_expired :: "system_time \<Rightarrow> database \<Rightarrow> nat \<times> database" where
  "pg_purge_expired now db =
     (case statement (delete_where (\<lambda>row. case row_expires_at row of
                                           None \<Rightarrow> False | Some e \<Rightarrow> e \<le> now)) db of
        (Inl e, db) \<Rightarrow> (0, db)
      | (Inr n, db) \<Rightarrow> (n, db))"

definition postgres_ops :: "pg_env \<Rightarrow> database link_repository" where
  "postgres_ops E =
     \<lparr>repo_insert = pg_insert E,
      repo_get = pg_get,
      repo_update = (\<lambda>code target_url version _. pg_update code target_url version),
      repo_remove = pg_remove,
      repo_record_hit = (\<lambda>code _. pg_record_hit code),
      repo_stats = pg_stats,
      repo_list = (\<lambda>limit cursor db.
         let (r, db') = pg_list E limit cursor db in (Done r, db')),
      repo_purge_expired = pg_purge_expired\<rparr>"

section \<open>Invariant and view\<close>

text \<open>
  The table's unique columns are unique, and the server never reports a missing row by itself: only
  \<open>fetch_one\<close>, which the code does not use, makes that error.
\<close>

definition server_ok :: "database \<Rightarrow> bool" where
  "server_ok db \<longleftrightarrow> (\<forall>n. db_fault db n \<noteq> Some RowNotFound)"

definition rows_ok :: "link_row list \<Rightarrow> bool" where
  "rows_ok rows \<longleftrightarrow> distinct (map row_code rows) \<and> distinct (map row_id rows)"

definition pg_inv :: "database \<Rightarrow> bool" where
  "pg_inv db \<longleftrightarrow> server_ok db \<and> rows_ok (db_rows db)"

definition row_stats :: "link_row \<Rightarrow> link_stats" where
  "row_stats row = \<lparr>stats_link = link_of_row row, stats_hits = row_hits row\<rparr>"

definition pg_view :: "database \<Rightarrow> link_view" where
  "pg_view db c = map_option row_stats (select_code c (db_rows db))"

lemma row_stats_simps [simp]:
  "stats_link (row_stats row) = link_of_row row" "stats_hits (row_stats row) = row_hits row"
  by (simp_all add: row_stats_def)

lemma link_of_row_simps [simp]:
  "link_code (link_of_row row) = row_code row" "link_version (link_of_row row) = row_version row"
  "link_target_url (link_of_row row) = row_target_url row"
  "link_expires_at (link_of_row row) = row_expires_at row"
  "link_created_at (link_of_row row) = row_created_at row"
  by (simp_all add: link_of_row_def)

lemma select_code_SomeD: "select_code c rows = Some row \<Longrightarrow> row \<in> set rows \<and> row_code row = c"
  by (auto simp: select_code_def find_Some_iff)

lemma select_code_None: "select_code c rows = None \<longleftrightarrow> c \<notin> row_code ` set rows"
  by (auto simp: select_code_def find_None_iff)

lemma select_code_simps [simp]:
  "select_code c [] = None"
  "select_code c (row # rows) = (if row_code row = c then Some row else select_code c rows)"
  by (simp_all add: select_code_def)

lemma select_code_append:
  "select_code c (rows @ rows') =
     (case select_code c rows of Some row \<Rightarrow> Some row | None \<Rightarrow> select_code c rows')"
  by (induction rows) auto

lemma select_code_unique:
  "distinct (map row_code rows) \<Longrightarrow> row \<in> set rows \<Longrightarrow> select_code (row_code row) rows = Some row"
  by (induction rows) (auto simp: image_iff)

lemma select_code_filter:
  assumes "distinct (map row_code rows)"
  shows "select_code c (filter p rows) =
    (case select_code c rows of None \<Rightarrow> None | Some row \<Rightarrow> if p row then Some row else None)"
  using assms
proof (induction rows)
  case (Cons row rows)
  have "row_code row = c \<Longrightarrow> select_code c rows = None"
    using Cons.prems by (auto simp: select_code_None)
  then show ?case using Cons by auto
qed simp

lemma select_code_map:
  assumes "\<And>row. row \<in> set rows \<Longrightarrow> row_code (f row) = row_code row"
  shows "select_code c (map f rows) = map_option f (select_code c rows)"
  using assms by (induction rows) auto

section \<open>Statements\<close>

lemma statement_cases:
  assumes "statement f db = (r, db')"
  obtains (fault) e where "db_fault db (db_step db) = Some e" and "r = Inl e"
      and "db' = db\<lparr>db_step := Suc (db_step db)\<rparr>"
    | (run) rows where "f db = (r, rows)" and "db' = db\<lparr>db_rows := rows, db_step := Suc (db_step db)\<rparr>"
  using assms by (auto simp: statement_def Let_def split: option.splits prod.splits)

lemma server_ok_step [simp]:
  "server_ok (db\<lparr>db_rows := rows\<rparr>) = server_ok db" "server_ok (db\<lparr>db_step := n\<rparr>) = server_ok db"
  by (simp_all add: server_ok_def)

lemma pg_inv_step:
  "pg_inv db \<Longrightarrow> rows_ok rows \<Longrightarrow> pg_inv (db\<lparr>db_rows := rows, db_step := Suc (db_step db)\<rparr>)"
  by (simp add: pg_inv_def)

lemma pg_inv_tick: "pg_inv db \<Longrightarrow> pg_inv (db\<lparr>db_step := Suc (db_step db)\<rparr>)"
  using pg_inv_step [of db "db_rows db"] by (simp add: pg_inv_def)

lemma pg_view_tick [simp]: "pg_view (db\<lparr>db_step := n\<rparr>) = pg_view db"
  by (simp add: pg_view_def fun_eq_iff)

text \<open>A query leaves the table as it is.\<close>

lemma query_step:
  assumes "query q db = (r, db')"
  shows "db' = db\<lparr>db_step := Suc (db_step db)\<rparr> \<and>
    (r = q (db_rows db) \<or> (\<exists>e. db_fault db (db_step db) = Some e \<and> r = Inl e))"
  using assms unfolding query_def by (cases rule: statement_cases) auto

lemma honest_mapped: "pg_inv db \<Longrightarrow> db_fault db n = Some e \<Longrightarrow> map_sql_error e \<noteq> NotFound x"
  by (auto simp: pg_inv_def server_ok_def map_sql_error_def split: sql_error.splits if_splits)

section \<open>Each operation through the view\<close>

lemma insert_row_Inr:
  assumes "insert_row code url expires db = Inr rows"
  obtains row where "rows = db_rows db @ [row]" and "row_code row = code" and "row_target_url row = url"
    and "row_expires_at row = expires" and "row_version row = 1" and "row_hits row = 0"
    and "row_id row \<notin> row_id ` set (db_rows db)" and "code \<notin> row_code ` set (db_rows db)"
  using assms that by (auto simp: insert_row_def Let_def split: if_splits)

text \<open>A statement that fails has changed nothing; a query never changes anything.\<close>

definition same_links :: "database \<Rightarrow> database \<Rightarrow> bool" where
  "same_links db db' \<longleftrightarrow> pg_inv db' \<and> pg_view db' = pg_view db"

lemma same_links_tick: "pg_inv db \<Longrightarrow> same_links db (db\<lparr>db_step := Suc (db_step db)\<rparr>)"
  by (simp add: same_links_def pg_inv_tick)

lemma statement_Inl:
  assumes "statement f db = (Inl e, db')" and "pg_inv db"
    and "\<And>x rows. f db = (Inl x, rows) \<Longrightarrow> rows = db_rows db"
  shows "same_links db db' \<and> ((\<forall>x. map_sql_error e \<noteq> NotFound x) \<or> f db = (Inl e, db_rows db))"
  using assms(1)
proof (cases rule: statement_cases)
  case (fault e')
  then show ?thesis using same_links_tick [OF assms(2)] honest_mapped [OF assms(2)] by auto
next
  case (run rows)
  then show ?thesis using same_links_tick [OF assms(2)] assms(3) [of e rows] by auto
qed

lemma query_same: "query q db = (r, db') \<Longrightarrow> pg_inv db \<Longrightarrow> same_links db db'"
  using query_step [of q db r db'] same_links_tick [of db] by auto

lemma rows_ok_append:
  "rows_ok rows \<Longrightarrow> row_code row \<notin> row_code ` set rows \<Longrightarrow> row_id row \<notin> row_id ` set rows \<Longrightarrow>
   rows_ok (rows @ [row])"
  by (simp add: rows_ok_def)

text \<open>The two outcomes of an insertion.\<close>

lemma pg_insert_Inr:
  assumes "pg_insert E l db = (Inr u, db')" and inv: "pg_inv db"
  obtains row where "pg_inv db'" and "pg_view db' = (pg_view db)(link_code l \<mapsto> row_stats row)"
    and "pg_view db (link_code l) = None" and "row_target_url row = link_target_url l"
    and "row_expires_at row = None \<longleftrightarrow> link_expires_at l = None" and "row_version row = 1" and "row_hits row = 0"
proof -
  let ?db1 = "db\<lparr>db_step := Suc (db_step db)\<rparr>"
  let ?db2 = "?db1\<lparr>db_step := Suc (db_step ?db1)\<rparr>"
  have inv1: "pg_inv ?db1" and inv2: "pg_inv ?db2" using pg_inv_tick inv by blast+
  obtain rows where ins: "insert_row (link_code l) (link_target_url l) (pg_expires_at E (db_step ?db1) l) ?db1 = Inr rows"
    and db': "db' = ?db2\<lparr>db_rows := rows, db_step := Suc (db_step ?db2)\<rparr>"
    using assms(1) by (auto simp: pg_insert_def query_def statement_def Let_def
        split: option.splits sum.splits prod.splits)
  obtain row where row: "rows = db_rows ?db1 @ [row]" "row_code row = link_code l"
    "row_target_url row = link_target_url l" "row_expires_at row = pg_expires_at E (db_step ?db1) l"
    "row_version row = 1" "row_hits row = 0" "row_id row \<notin> row_id ` set (db_rows ?db1)"
    "link_code l \<notin> row_code ` set (db_rows ?db1)"
    using insert_row_Inr [OF ins] by blast
  have "rows_ok (db_rows ?db1)" using inv1 unfolding pg_inv_def by blast
  from rows_ok_append [OF this, of row] row have "rows_ok rows" by simp
  then have "pg_inv db'" unfolding db' by (rule pg_inv_step [OF inv2])
  moreover have none: "select_code (link_code l) (db_rows db) = None" using row(8) by (simp add: select_code_None)
  moreover have "pg_view db' = (pg_view db)(link_code l \<mapsto> row_stats row)"
    using row(1,2) none by (auto simp: pg_view_def db' fun_eq_iff select_code_append split: option.splits)
  ultimately show thesis using row by (intro that) (auto simp: pg_expires_at_def pg_view_def)
qed

lemma pg_insert_Inl:
  assumes "pg_insert E l db = (Inl e, db')" and inv: "pg_inv db"
  shows "same_links db db'"
proof -
  let ?f = "\<lambda>n db. (insert_row (link_code l) (link_target_url l) (pg_expires_at E n l) db, db_rows db)"
  obtain r1 db1 where q: "query (\<lambda>_. Inr () :: sql_error + unit) db = (r1, db1)" by fastforce
  note s1 = query_same [OF q inv]
  then have inv1: "pg_inv db1" by (simp add: same_links_def)
  obtain r2 db2 where x: "statement (?f (db_step db1)) db1 = (r2, db2)" by fastforce
  have s2: "same_links db1 db2"
    using x same_links_tick [OF inv1] by (cases rule: statement_cases) auto
  then have inv2: "pg_inv db2" by (simp add: same_links_def)
  obtain r3 db3 where c: "statement (\<lambda>_. (Inr () :: sql_error + unit, case r2 of Inr rows \<Rightarrow> rows | _ \<Rightarrow> [])) db2 = (r3, db3)"
    by fastforce
  have s3: "same_links db2 db3" if "r3 = Inl e3" for e3
    using c that same_links_tick [OF inv2] by (cases rule: statement_cases) auto
  show ?thesis
    using assms(1) q x c s1 s2 s3
    by (auto simp: pg_insert_def Let_def same_links_def split: sum.splits prod.splits)
qed

text \<open>Reading one row.\<close>

lemma pg_get_result:
  assumes "pg_get c db = (r, db')" and inv: "pg_inv db"
  shows "same_links db db' \<and>
    (case r of Inr l \<Rightarrow> (\<exists>st. pg_view db c = Some st \<and> stats_link st = l)
     | Inl e \<Rightarrow> (\<forall>x. e = NotFound x \<longrightarrow> pg_view db c = None))"
proof -
  obtain q db1 where q: "query (\<lambda>rows. Inr (select_code c rows)) db = (q, db1)" by fastforce
  show ?thesis
    using assms(1) q query_step [OF q] query_same [OF q inv] honest_mapped [OF inv]
    by (auto simp: pg_get_def pg_view_def split: sum.splits option.splits)
qed

lemma pg_stats_result:
  assumes "pg_stats c db = (r, db')" and inv: "pg_inv db"
  shows "same_links db db' \<and>
    (case r of Inr st \<Rightarrow> pg_view db c = Some st
     | Inl e \<Rightarrow> (\<forall>x. e = NotFound x \<longrightarrow> pg_view db c = None))"
proof -
  obtain q db1 where q: "query (\<lambda>rows. Inr (select_code c rows)) db = (q, db1)" by fastforce
  show ?thesis
    using assms(1) q query_step [OF q] query_same [OF q inv] honest_mapped [OF inv]
    by (auto simp: pg_stats_def pg_view_def row_stats_def split: sum.splits option.splits)
qed

text \<open>Deleting rows.\<close>

lemma rows_ok_filter: "rows_ok rows \<Longrightarrow> rows_ok (filter p rows)"
  by (auto simp: rows_ok_def distinct_map_filter)

lemma delete_step:
  assumes "statement (delete_where p) db = (Inr n, db')" and inv: "pg_inv db"
  shows "pg_inv db' \<and> n = length (filter p (db_rows db)) \<and>
    (\<forall>c. pg_view db' c = (case select_code c (db_rows db) of None \<Rightarrow> None
       | Some row \<Rightarrow> if p row then None else Some (row_stats row)))"
proof -
  have rows: "rows_ok (db_rows db)" using inv by (simp add: pg_inv_def)
  have db': "db' = db\<lparr>db_rows := filter (\<lambda>row. \<not> p row) (db_rows db), db_step := Suc (db_step db)\<rparr>"
    and n: "n = length (filter p (db_rows db))"
    using assms(1) by (auto elim!: statement_cases simp: delete_where_def)
  have "pg_inv db'" unfolding db' by (intro pg_inv_step inv rows_ok_filter rows)
  moreover have "distinct (map row_code (db_rows db))" using rows by (simp add: rows_ok_def)
  ultimately show ?thesis
    using n by (auto simp: db' pg_view_def select_code_filter split: option.splits)
qed

lemma delete_failed:
  "statement (delete_where p) db = (Inl e, db') \<Longrightarrow> pg_inv db \<Longrightarrow>
   same_links db db' \<and> (\<forall>x. map_sql_error e \<noteq> NotFound x)"
  using statement_Inl [of "delete_where p" db e db'] by (auto simp: delete_where_def)

lemma pg_remove_result:
  assumes "pg_remove c db = (r, db')" and inv: "pg_inv db"
  shows "pg_inv db' \<and>
    (case r of Inr _ \<Rightarrow> pg_view db c \<noteq> None \<and> pg_view db' = (pg_view db)(c := None)
     | Inl e \<Rightarrow> pg_view db' = pg_view db \<and> (\<forall>x. e = NotFound x \<longrightarrow> pg_view db c = None))"
proof -
  obtain q db1 where q: "statement (delete_where (\<lambda>row. row_code row = c)) db = (q, db1)" by fastforce
  have empty: "filter (\<lambda>row. row_code row = c) (db_rows db) = [] \<longleftrightarrow> select_code c (db_rows db) = None"
    by (auto simp: select_code_None filter_empty_conv)
  have code: "select_code d (db_rows db) = Some row \<Longrightarrow> row_code row = d" for d row
    using select_code_SomeD by blast
  show ?thesis
  proof (cases q)
    case (Inl e)
    then show ?thesis
      using assms(1) q delete_failed [OF _ inv] by (auto simp: pg_remove_def same_links_def)
  next
    case (Inr n)
    note d = delete_step [OF q [unfolded Inr] inv]
    then have "pg_view db1 = (pg_view db)(c := None)"
      using code by (auto simp: fun_eq_iff pg_view_def split: option.splits)
    moreover have "n = 0 \<longleftrightarrow> pg_view db c = None" using d empty by (simp add: pg_view_def)
    moreover have "pg_view db c = None \<Longrightarrow> (pg_view db)(c := None) = pg_view db" by (rule fun_upd_idem)
    ultimately show ?thesis using assms(1) q Inr d by (auto simp: pg_remove_def split: if_splits)
  qed
qed

lemma pg_purge_runs:
  assumes "pg_inv db"
  shows "pg_view (snd (pg_purge_expired now db)) =
    (if db_fault db (db_step db) = None then live_view now (pg_view db) else pg_view db)"
proof -
  let ?p = "\<lambda>row. case row_expires_at row of None \<Rightarrow> False | Some e \<Rightarrow> e \<le> now"
  obtain q db1 where q: "statement (delete_where ?p) db = (q, db1)" by fastforce
  show ?thesis
  proof (cases q)
    case (Inl e)
    then have "db_fault db (db_step db) \<noteq> None"
      using q by (auto simp: statement_def delete_where_def Let_def split: option.splits)
    then show ?thesis
      using q Inl delete_failed [OF _ assms] by (auto simp: pg_purge_expired_def same_links_def)
  next
    case (Inr n)
    then have "db_fault db (db_step db) = None"
      using q by (auto simp: statement_def Let_def split: option.splits)
    moreover have "pg_view db1 = live_view now (pg_view db)"
      using delete_step [OF q [unfolded Inr] assms]
      by (auto simp: fun_eq_iff pg_view_def live_view_def is_expired_def split: option.splits)
    ultimately show ?thesis using q Inr by (simp add: pg_purge_expired_def)
  qed
qed

lemma pg_purge_result:
  assumes "pg_purge_expired now db = (k, db')" and inv: "pg_inv db"
  shows "pg_inv db' \<and> (pg_view db' = live_view now (pg_view db) \<or> pg_view db' = pg_view db \<and> k = 0)"
proof -
  let ?p = "\<lambda>row. case row_expires_at row of None \<Rightarrow> False | Some e \<Rightarrow> e \<le> now"
  obtain q db1 where q: "statement (delete_where ?p) db = (q, db1)" by fastforce
  show ?thesis
  proof (cases q)
    case (Inl e)
    then show ?thesis
      using assms(1) q delete_failed [OF _ inv] by (auto simp: pg_purge_expired_def same_links_def)
  next
    case (Inr n)
    note d = delete_step [OF q [unfolded Inr] inv]
    then have "pg_view db1 = live_view now (pg_view db)"
      by (auto simp: fun_eq_iff pg_view_def live_view_def is_expired_def split: option.splits)
    then show ?thesis using assms(1) q Inr d by (simp add: pg_purge_expired_def)
  qed
qed

text \<open>Updating the row of a code; \<open>p\<close> selects rows of that code only, \<open>f\<close> keeps code and identifier.\<close>

definition keeps_key :: "(link_row \<Rightarrow> sql_error + link_row) \<Rightarrow> bool" where
  "keeps_key f \<longleftrightarrow> (\<forall>r r'. f r = Inr r' \<longrightarrow> row_code r' = row_code r \<and> row_id r' = row_id r)"

lemma update_rows:
  assumes rows: "rows_ok rows" and row: "find p rows = Some row"
    and p: "\<And>r. p r \<Longrightarrow> row_code r = c"
    and row': "row_code row' = row_code row" "row_id row' = row_id row"
  shows "rows_ok (map (\<lambda>r. if p r then row' else r) rows) \<and>
    select_code c rows = Some row \<and>
    select_code d (map (\<lambda>r. if p r then row' else r) rows) = (if d = c then Some row' else select_code d rows)"
proof -
  have mem: "row \<in> set rows" "p row" using row by (auto simp: find_Some_iff)
  have dist: "distinct (map row_code rows)" using rows by (simp add: rows_ok_def)
  have sel: "select_code c rows = Some row" using select_code_unique [OF dist mem(1)] p [OF mem(2)] by simp
  have code: "row_code (if p r then row' else r) = row_code r" for r
    using p [of r] p [OF mem(2)] row' by simp
  have "map row_code (map (\<lambda>r. if p r then row' else r) rows) = map row_code rows"
    using code by simp
  moreover have "map row_id (map (\<lambda>r. if p r then row' else r) rows) = map row_id rows"
  proof -
    have "r = row" if "p r" "r \<in> set rows" for r
      using select_code_unique [OF dist that(2)] sel p [OF that(1)] by simp
    then show ?thesis using row'(2) by auto
  qed
  ultimately have ok: "rows_ok (map (\<lambda>r. if p r then row' else r) rows)"
    using rows unfolding rows_ok_def by (simp only:)
  have map: "select_code d (map (\<lambda>r. if p r then row' else r) rows) =
      map_option (\<lambda>r. if p r then row' else r) (select_code d rows)"
    by (rule select_code_map) (rule code)
  have other: "\<not> p r" if "d \<noteq> c" "select_code d rows = Some r" for r
    using p [of r] select_code_SomeD [OF that(2)] that(1) by blast
  have "map_option (\<lambda>r. if p r then row' else r) (select_code d rows) =
      (if d = c then Some row' else select_code d rows)"
    using sel mem(2) other by (cases "select_code d rows") auto
  then show ?thesis using ok sel map by simp
qed

lemma update_Some:
  assumes run: "statement (\<lambda>db. update_returning p (f db) db) db = (Inr (Some row'), db')" and inv: "pg_inv db"
    and p: "\<And>r. p r \<Longrightarrow> row_code r = c" and f: "keeps_key (f db)"
  obtains row where "select_code c (db_rows db) = Some row" and "p row" and "f db row = Inr row'"
    and "pg_inv db'" and "pg_view db' = (pg_view db)(c \<mapsto> row_stats row')"
proof -
  obtain row where row: "find p (db_rows db) = Some row" and fr: "f db row = Inr row'"
    and db': "db' = db\<lparr>db_rows := map (\<lambda>r. if p r then row' else r) (db_rows db), db_step := Suc (db_step db)\<rparr>"
    using run by (auto elim!: statement_cases simp: update_returning_def split: option.splits sum.splits)
  have rows: "rows_ok (db_rows db)" using inv by (simp add: pg_inv_def)
  have key: "row_code row' = row_code row" "row_id row' = row_id row" using f fr by (auto simp: keeps_key_def)
  note u = update_rows [OF rows row _ key, where c = c, OF p]
  have "pg_inv db'" unfolding db' using u by (intro pg_inv_step inv) simp
  moreover have "pg_view db' = (pg_view db)(c \<mapsto> row_stats row')"
    using u by (auto simp: pg_view_def db' fun_eq_iff)
  moreover have "p row" using row by (auto simp: find_Some_iff)
  ultimately show thesis using u fr by (intro that) auto
qed

lemma update_None:
  assumes "statement (\<lambda>db. update_returning p (f db) db) db = (Inr None, db')" and "pg_inv db"
  shows "same_links db db' \<and> db_rows db' = db_rows db \<and> (\<forall>r \<in> set (db_rows db). \<not> p r)"
  using assms same_links_tick [OF assms(2)]
  by (auto elim!: statement_cases simp: update_returning_def find_None_iff split: option.splits sum.splits)

definition internal_errors :: "(link_row \<Rightarrow> sql_error + link_row) \<Rightarrow> bool" where
  "internal_errors f \<longleftrightarrow> (\<forall>r e. f r = Inl e \<longrightarrow> e = out_of_range \<or> e = empty_target)"

lemma map_sql_internal:
  "map_sql_error out_of_range \<noteq> NotFound x" "map_sql_error empty_target \<noteq> NotFound x"
  by (simp_all add: map_sql_error_def out_of_range_def empty_target_def)

lemma update_failed:
  assumes "statement (\<lambda>db. update_returning p (f db) db) db = (Inl e, db')" and inv: "pg_inv db"
    and f: "internal_errors (f db)"
  shows "same_links db db' \<and> (\<forall>x. map_sql_error e \<noteq> NotFound x)"
proof -
  have s: "same_links db db' \<and> ((\<forall>x. map_sql_error e \<noteq> NotFound x) \<or>
      update_returning p (f db) db = (Inl e, db_rows db))"
    by (rule statement_Inl [OF assms(1) inv])
       (auto simp: update_returning_def split: option.splits sum.splits)
  have "e = out_of_range \<or> e = empty_target" if "update_returning p (f db) db = (Inl e, db_rows db)"
    using that f by (auto simp: update_returning_def internal_errors_def split: option.splits sum.splits)
  then show ?thesis using s map_sql_internal by blast
qed

lemma pg_record_hit_result:
  assumes "pg_record_hit c db = (r, db')" and inv: "pg_inv db"
  shows "pg_inv db' \<and>
    (case r of Inr n \<Rightarrow> (\<exists>st. pg_view db c = Some st \<and> n = stats_hits st + 1 \<and>
                            pg_view db' = (pg_view db)(c \<mapsto> st\<lparr>stats_hits := n\<rparr>))
     | Inl e \<Rightarrow> pg_view db' = pg_view db)"
proof -
  let ?p = "\<lambda>row. row_code row = c"
  let ?f = "\<lambda>row. if row_hits row = i64_max then Inl out_of_range else Inr (row\<lparr>row_hits := row_hits row + 1\<rparr>)"
  have f: "keeps_key ?f" "internal_errors ?f" by (auto simp: keeps_key_def internal_errors_def)
  obtain q db1 where q: "statement (update_returning ?p ?f) db = (q, db1)" by fastforce
  show ?thesis
  proof (cases q)
    case (Inl e)
    then show ?thesis
      using assms(1) q update_failed [OF _ inv f(2)] by (auto simp: pg_record_hit_def same_links_def)
  next
    case (Inr o')
    show ?thesis
    proof (cases o')
      case None
      then show ?thesis
        using assms(1) q Inr update_None [OF _ inv] by (auto simp: pg_record_hit_def same_links_def)
    next
      case (Some row')
      obtain row where sel: "select_code c (db_rows db) = Some row" and "?f row = Inr row'"
        and "pg_inv db1" and "pg_view db1 = (pg_view db)(c \<mapsto> row_stats row')"
        using update_Some [OF q [unfolded Inr Some] inv _ f(1)] by blast
      moreover have "row' = row\<lparr>row_hits := row_hits row + 1\<rparr>"
        using \<open>?f row = Inr row'\<close> by (simp split: if_splits)
      ultimately show ?thesis
        using assms(1) q Inr Some by (auto simp: pg_record_hit_def pg_view_def row_stats_def link_of_row_def)
    qed
  qed
qed

lemma version_row_ok: "keeps_key (version_row url db)" "internal_errors (version_row url db)"
  by (auto simp: keeps_key_def internal_errors_def version_row_def split: if_splits)

lemma pg_update_result:
  assumes "pg_update c url v db = (r, db')" and inv: "pg_inv db"
  shows "pg_inv db' \<and>
    (case r of
       Inr l \<Rightarrow> (\<exists>st t. pg_view db c = Some st \<and> link_version (stats_link st) = v \<and>
         l = (stats_link st)\<lparr>link_target_url := url, link_updated_at := t,
               link_version := link_version (stats_link st) + 1\<rparr> \<and>
         pg_view db' = (pg_view db)(c \<mapsto> st\<lparr>stats_link := l\<rparr>))
     | Inl e \<Rightarrow> pg_view db' = pg_view db \<and> (\<forall>x. e = NotFound x \<longrightarrow> pg_view db c = None))"
proof -
  let ?p = "\<lambda>row. row_code row = c \<and> row_version row = v"
  obtain q db1 where q: "statement (\<lambda>db. update_returning ?p (version_row url db) db) db = (q, db1)" by fastforce
  note run = assms(1) [unfolded pg_update_def q]
  show ?thesis
  proof (cases q)
    case (Inl e)
    then show ?thesis
      using run update_failed [OF q [unfolded Inl] inv version_row_ok(2)] by (auto simp: same_links_def)
  next
    case (Inr o')
    show ?thesis
    proof (cases o')
      case None
      note n = update_None [OF q [unfolded Inr None] inv]
      then have inv1: "pg_inv db1" and view: "pg_view db1 = pg_view db" by (simp_all add: same_links_def)
      obtain q2 db2 where q2: "query (\<lambda>rows. Inr (select_code c rows)) db1 = (q2, db2)" by fastforce
      show ?thesis
        using run Inr None q2 query_step [OF q2] query_same [OF q2 inv1] honest_mapped [OF inv1] n view
        by (auto simp: same_links_def pg_view_def split: sum.splits option.splits)
    next
      case (Some row')
      obtain row where sel: "select_code c (db_rows db) = Some row" and p: "?p row"
        and f: "version_row url db row = Inr row'"
        and inv1: "pg_inv db1" and view: "pg_view db1 = (pg_view db)(c \<mapsto> row_stats row')"
        using update_Some [OF q [unfolded Inr Some] inv _ version_row_ok(1)] by blast
      have "row' = row\<lparr>row_target_url := url, row_updated_at := db_now db (db_step db),
          row_version := row_version row + 1\<rparr>"
        using f by (simp add: version_row_def split: if_splits)
      then show ?thesis
        using run Inr Some sel p inv1 view by (auto simp: pg_view_def row_stats_def link_of_row_def)
    qed
  qed
qed

lemma select_page_ok:
  assumes "select_page E after limit rows = Inr page"
  shows "set page \<subseteq> set rows \<and> length page \<le> unat limit \<and> sorted (map (row_key E) page) \<and>
    (distinct (map row_code rows) \<longrightarrow> distinct (map row_code page))"
proof -
  obtain rows' where page: "page = take (unat limit) (sort_key (row_key E) rows')"
    and rows': "set rows' \<subseteq> set rows" "distinct (map row_code rows) \<longrightarrow> distinct (map row_code rows')"
    using assms by (auto simp: select_page_def Let_def distinct_map_filter split: if_splits option.splits)
  have "set page \<subseteq> set rows'" unfolding page using set_take_subset [of _ "sort_key (row_key E) rows'"] by auto
  then show ?thesis
    using rows' by (auto simp: page sorted_wrt_take distinct_take simp flip: take_map)
qed

lemma pg_list_result:
  assumes "pg_list E limit cursor db = (r, db')" and inv: "pg_inv db"
  shows "same_links db db' \<and> (\<forall>ls next. r = Inr (ls, next) \<longrightarrow>
    length ls \<le> unat limit \<and> newest_first ls \<and> distinct (map link_code ls) \<and>
    (\<forall>l \<in> set ls. \<exists>st. pg_view db (link_code l) = Some st \<and> stats_link st = l))"
proof -
  let ?after = "map_option (\<lambda>(created_at_str, code).
      (case parse_rfc3339 E created_at_str of Some ts \<Rightarrow> ts | None \<Rightarrow> utc_now E (db_step db), code)) cursor"
  obtain q db1 where q: "query (select_page E ?after limit) db = (q, db1)" by fastforce
  have dist: "distinct (map row_code (db_rows db))" using inv by (simp add: pg_inv_def rows_ok_def)
  show ?thesis
  proof (cases q)
    case (Inl e)
    then show ?thesis using assms(1) q query_same [OF q inv] by (auto simp: pg_list_def Let_def)
  next
    case (Inr page)
    then have page: "select_page E ?after limit (db_rows db) = Inr page"
      using query_step [OF q] by auto
    note ok = select_page_ok [OF page]
    have "newest_first (map link_of_row page)"
      unfolding newest_first_def using ok by (auto simp: comp_def row_key_def sorted_map elim: sorted_wrt_mono_rel [rotated])
    moreover have "map link_code (map link_of_row page) = map row_code page" by (simp add: comp_def)
    moreover have "\<exists>st. pg_view db (row_code row) = Some st \<and> stats_link st = link_of_row row"
      if "row \<in> set page" for row
      using that ok select_code_unique [OF dist, of row] by (auto simp: pg_view_def)
    ultimately show ?thesis
      using assms(1) q Inr ok dist query_same [OF q inv] by (auto simp: pg_list_def Let_def simp del: map_map)
  qed
qed

section \<open>The store keeps the repository's promises\<close>

lemma postgres_ops_simps [simp]:
  "repo_insert (postgres_ops E) = pg_insert E"
  "repo_get (postgres_ops E) = pg_get"
  "repo_update (postgres_ops E) = (\<lambda>code target_url version _. pg_update code target_url version)"
  "repo_remove (postgres_ops E) = pg_remove"
  "repo_record_hit (postgres_ops E) = (\<lambda>code _. pg_record_hit code)"
  "repo_stats (postgres_ops E) = pg_stats"
  "repo_purge_expired (postgres_ops E) = pg_purge_expired"
  "repo_list (postgres_ops E) limit cursor db = (let (r, db') = pg_list E limit cursor db in (Done r, db'))"
  by (simp_all add: postgres_ops_def)

lemma pg_insert_inv: "pg_inv db \<Longrightarrow> pg_insert E l db = (r, db') \<Longrightarrow> pg_inv db'"
  by (cases r) (auto dest: pg_insert_Inl simp: same_links_def elim: pg_insert_Inr)

lemma pg_insert_ok:
  "pg_inv db \<Longrightarrow> pg_insert E l db = (Inr u, db') \<Longrightarrow>
   pg_view db (link_code l) = None \<and>
   (\<exists>st. pg_view db' = (pg_view db)(link_code l \<mapsto> st) \<and> stats_hits st = 0 \<and>
      link_target_url (stats_link st) = link_target_url l \<and>
      (link_expires_at (stats_link st) = None \<longleftrightarrow> link_expires_at l = None) \<and>
      (link_version l = 1 \<longrightarrow> link_version (stats_link st) = 1))"
  by (elim pg_insert_Inr) (auto intro!: exI [of _ "row_stats _"])

text \<open>The results of the operations as destruction rules for the laws.\<close>

lemmas pg_results =
  pg_get_result [unfolded same_links_def] pg_stats_result [unfolded same_links_def] pg_remove_result
  pg_record_hit_result pg_update_result pg_purge_result pg_list_result [unfolded same_links_def]

lemma pg_list_ops:
  "repo_list (postgres_ops E) n cur db = (r, db') \<longleftrightarrow> (\<exists>q. pg_list E n cur db = (q, db') \<and> r = Done q)"
  by (auto simp: Let_def split: prod.splits)

interpretation pg: versioned_repository "postgres_ops E" pg_inv pg_view for E
proof unfold_locales
  fix s c st
  assume "pg_inv s" and "pg_view s c = Some st"
  then show "link_code (stats_link st) = c"
    by (auto simp: pg_view_def dest: select_code_SomeD)
next
  fix s l
  assume "pg_inv s"
  then show "pg_inv (snd (repo_insert (postgres_ops E) l s))"
    using pg_insert_inv by (metis postgres_ops_simps(1) prod.collapse)
next
  fix s c
  assume "pg_inv s"
  then show "pg_inv (snd (repo_get (postgres_ops E) c s))"
    using pg_get_result [of c s] by (cases "pg_get c s") (auto simp: same_links_def)
next
  fix s c url v now
  assume "pg_inv s"
  then show "pg_inv (snd (repo_update (postgres_ops E) c url v now s))"
    using pg_update_result [of c url v s] by (cases "pg_update c url v s") auto
next
  fix s c
  assume "pg_inv s"
  then show "pg_inv (snd (repo_remove (postgres_ops E) c s))"
    using pg_remove_result [of c s] by (cases "pg_remove c s") auto
next
  fix s c now
  assume "pg_inv s"
  then show "pg_inv (snd (repo_record_hit (postgres_ops E) c now s))"
    using pg_record_hit_result [of c s] by (cases "pg_record_hit c s") auto
next
  fix s c
  assume "pg_inv s"
  then show "pg_inv (snd (repo_stats (postgres_ops E) c s))"
    using pg_stats_result [of c s] by (cases "pg_stats c s") (auto simp: same_links_def)
next
  fix s n cur
  assume "pg_inv s"
  then show "pg_inv (snd (repo_list (postgres_ops E) n cur s))"
    and "pg_view (snd (repo_list (postgres_ops E) n cur s)) = pg_view s"
    using pg_list_result [of E n cur s] by (cases "pg_list E n cur s"; simp add: same_links_def)+
next
  fix s now
  assume "pg_inv s"
  then show "pg_inv (snd (repo_purge_expired (postgres_ops E) now s))"
    using pg_purge_result [of now s] by (cases "pg_purge_expired now s") auto
next
  fix s n cur ls and "next" :: "cursor option" and s'
  assume "pg_inv s" and "repo_list (postgres_ops E) n cur s = (Done (Inr (ls, next)), s')"
  then show "length ls \<le> unat n \<and> newest_first ls \<and> distinct (map link_code ls) \<and>
      (\<forall>l \<in> set ls. \<exists>st. pg_view s (link_code l) = Some st \<and> stats_link st = l)"
    using pg_list_result [of E n cur s "Inr (ls, next)" s']
    by (simp add: pg_list_ops del: postgres_ops_simps)
next
  fix s c url v now l s'
  assume "pg_inv s" and "repo_update (postgres_ops E) c url v now s = (Inr l, s')"
  then have "\<exists>st t. pg_view s c = Some st \<and> link_version (stats_link st) = v \<and>
      l = (stats_link st)\<lparr>link_target_url := url, link_updated_at := t,
            link_version := link_version (stats_link st) + 1\<rparr> \<and>
      pg_view s' = (pg_view s)(c \<mapsto> st\<lparr>stats_link := l\<rparr>)"
    using pg_update_result [of c url v s "Inr l" s'] by simp
  then show "\<exists>st t. pg_view s c = Some st \<and>
      l = (stats_link st)\<lparr>link_target_url := url, link_updated_at := t,
            link_version := link_version (stats_link st) + 1\<rparr> \<and>
      pg_view s' = (pg_view s)(c \<mapsto> st\<lparr>stats_link := l\<rparr>)"
    and "\<exists>st. pg_view s c = Some st \<and> link_version (stats_link st) = v" by blast+
qed (auto simp: pg_insert_ok same_links_def dest: pg_insert_Inl pg_results)

section \<open>Following the cursors\<close>

text \<open>A server that runs every statement.\<close>

definition quiet :: "database \<Rightarrow> bool" where
  "quiet db \<longleftrightarrow> (\<forall>n. db_fault db n = None)"

lemma quiet_query: "quiet db \<Longrightarrow> query q db = (q (db_rows db), db\<lparr>db_step := Suc (db_step db)\<rparr>)"
  by (simp add: quiet_def query_def statement_def Let_def)

lemma quiet_statement:
  "quiet db \<Longrightarrow> statement f db = (fst (f db), db\<lparr>db_rows := snd (f db), db_step := Suc (db_step db)\<rparr>)"
  by (simp add: quiet_def statement_def Let_def split_beta)

lemma quiet_step [simp]: "quiet (db\<lparr>db_step := n\<rparr>) = quiet db" "quiet (db\<lparr>db_rows := rows\<rparr>) = quiet db"
  by (simp_all add: quiet_def)

text \<open>What paging relies on: timestamps are printed in full, and the collation tells codes apart.\<close>

definition exact_cursors :: "pg_env \<Rightarrow> link_row list \<Rightarrow> bool" where
  "exact_cursors E rows \<longleftrightarrow>
     (\<forall>row \<in> set rows. parse_rfc3339 E (to_rfc3339 E (row_created_at row)) = Some (row_created_at row)) \<and>
     inj_on (code_key E) (row_code ` set rows)"

definition sorted_rows :: "pg_env \<Rightarrow> link_row list \<Rightarrow> link_row list" where
  "sorted_rows E rows = sort_key (row_key E) rows"

lemma row_key_less:
  "row_key E x < row_key E y \<longleftrightarrow>
     row_created_at y < row_created_at x \<or>
     row_created_at y = row_created_at x \<and> code_key E (row_code y) < code_key E (row_code x)"
  by (auto simp: row_key_def less_prod_def)

lemma sorted_rows_strict:
  assumes "rows_ok rows" and "exact_cursors E rows"
  shows "sorted_wrt (<) (map (row_key E) (sorted_rows E rows))"
proof -
  have "inj_on (row_key E) (set rows)"
    using assms by (auto simp: inj_on_def rows_ok_def exact_cursors_def row_key_def distinct_map)
  then have "distinct (map (row_key E) rows)"
    using assms(1) by (auto simp: rows_ok_def distinct_map)
  then show ?thesis by (simp add: sorted_rows_def strict_sorted_iff)
qed

lemma page_after:
  assumes "rows_ok rows" and "exact_cursors E rows" and j: "j < length rows" and limit: "0 \<le> sint limit"
  shows "select_page E (Some (row_created_at (sorted_rows E rows ! j), row_code (sorted_rows E rows ! j))) limit rows =
    Inr (take (unat limit) (drop (Suc j) (sorted_rows E rows)))"
proof -
  let ?x = "sorted_rows E rows ! j"
  have len: "j < length (sorted_rows E rows)" using j by (simp add: sorted_rows_def)
  have "sort_key (row_key E) (filter (\<lambda>row. row_key E ?x < row_key E row) rows) =
      filter (\<lambda>row. row_key E ?x < row_key E row) (sorted_rows E rows)"
    by (simp add: sorted_rows_def filter_sort)
  also have "\<dots> = drop (Suc j) (sorted_rows E rows)"
    by (rule filter_after [OF sorted_rows_strict [OF assms(1,2)] len])
  finally show ?thesis using limit by (simp add: select_page_def row_key_less)
qed

text \<open>One page, where the cursor is that of a row, or absent.\<close>

definition cursor_at :: "pg_env \<Rightarrow> link_row list \<Rightarrow> nat \<Rightarrow> cursor option" where
  "cursor_at E rows k =
     (case k of 0 \<Rightarrow> None | Suc j \<Rightarrow> Some (pg_cursor E (link_of_row (sorted_rows E rows ! j))))"

lemma pg_list_page:
  assumes "rows_ok (db_rows db)" and "exact_cursors E (db_rows db)" and quiet: "quiet db"
    and k: "k \<le> length (db_rows db)" and limit: "0 \<le> sint limit"
  shows "pg_list E limit (cursor_at E (db_rows db) k) db =
    (let page = take (unat limit) (drop k (sorted_rows E (db_rows db)))
     in (Inr (map link_of_row page,
           if page = [] then None else Some (pg_cursor E (link_of_row (last page)))),
         db\<lparr>db_step := Suc (db_step db)\<rparr>))"
proof -
  let ?rows = "db_rows db" and ?S = "sorted_rows E (db_rows db)"
  have first: "select_page E None limit ?rows = Inr (take (unat limit) ?S)"
    using limit by (simp add: select_page_def sorted_rows_def)
  show ?thesis
  proof (cases k)
    case 0
    then show ?thesis
      by (simp add: cursor_at_def pg_list_def quiet_query [OF quiet] first Let_def last_map)
  next
    case (Suc j)
    then have j: "j < length ?rows" using k by simp
    then have "?S ! j \<in> set ?rows"
      using nth_mem [of j ?S] by (simp add: sorted_rows_def)
    then have "parse_rfc3339 E (to_rfc3339 E (row_created_at (?S ! j))) = Some (row_created_at (?S ! j))"
      using assms(2) by (simp add: exact_cursors_def)
    then show ?thesis
      using page_after [OF assms(1,2) j limit] Suc
      by (simp add: cursor_at_def pg_cursor_def pg_list_def quiet_query [OF quiet] Let_def last_map)
  qed
qed

lemma walk_postgres:
  assumes "rows_ok (db_rows db)" and "exact_cursors E (db_rows db)" and "quiet db" and limit: "0 < sint limit"
  shows "k \<le> length (db_rows db) \<Longrightarrow> length (db_rows db) < k + fuel \<Longrightarrow>
    walk_pages (postgres_ops E) limit fuel (cursor_at E (db_rows db) k) db =
    Done (Inr (map link_of_row (drop k (sorted_rows E (db_rows db)))))"
  using assms(1-3)
proof (induction fuel arbitrary: k db)
  case (Suc fuel)
  let ?S = "sorted_rows E (db_rows db)"
  let ?page = "take (unat limit) (drop k ?S)" and ?db = "db\<lparr>db_step := Suc (db_step db)\<rparr>"
  have len: "length ?S = length (db_rows db)" by (simp add: sorted_rows_def)
  have pos: "0 < unat limit" using limit by (metis less_irrefl sint_0 unat_0 unat_gt_0 word_gt_0)
  note list = pg_list_page [OF Suc.prems(3-5,1) less_imp_le [OF limit]]
  show ?case
  proof (cases "?page = []")
    case True
    then have "drop k ?S = []" using pos by auto
    then show ?thesis using True by (simp add: list)
  next
    case False
    let ?m = "k + length ?page"
    have m: "?m \<le> length (db_rows db)" using take_drop_le [of k ?S "unat limit"] Suc.prems(1) len by simp
    have "0 < length ?page" using False by simp
    then obtain j where j: "?m = Suc j" by (cases ?m) auto
    have cur: "Some (pg_cursor E (link_of_row (last ?page))) = cursor_at E (db_rows ?db) ?m"
      unfolding last_take_drop [OF False j] j by (simp add: cursor_at_def)
    have rows_step: "db_rows ?db = db_rows db" by simp
    have "walk_pages (postgres_ops E) limit fuel (cursor_at E (db_rows ?db) ?m) ?db =
        Done (Inr (map link_of_row (drop ?m (sorted_rows E (db_rows ?db)))))"
    proof (rule Suc.IH)
      show "length (db_rows ?db) < ?m + fuel" 
        using Suc.prems(2) \<open>0 < length ?page\<close> unfolding rows_step by linarith
    qed (use m Suc.prems in simp_all)
    moreover have "map link_of_row ?page @ map link_of_row (drop ?m ?S) = map link_of_row (drop k ?S)"
      by (simp only: take_drop_rest flip: map_append)
    moreover have "repo_list (postgres_ops E) limit (cursor_at E (db_rows db) k) db =
        (Done (Inr (map link_of_row ?page, cursor_at E (db_rows ?db) ?m)), ?db)"
      using False unfolding cur [symmetric] by (simp add: list Let_def)
    ultimately show ?thesis unfolding cur [symmetric] by (simp only: walk_next rows_step)
  qed
qed simp

section \<open>Properties\<close>

text \<open>A database that answers every statement, for the concrete instances.\<close>

definition quiet_database :: "link_row list \<Rightarrow> database" where
  "quiet_database rows =
     \<lparr>db_rows = rows, db_step = 0, db_now = (\<lambda>n. int n * nanos_per_sec), db_uuid = of_nat,
      db_fault = (\<lambda>_. None)\<rparr>"

definition sample_row :: "nat \<Rightarrow> string \<Rightarrow> system_time \<Rightarrow> link_row" where
  "sample_row n code t =
     \<lparr>row_id = of_nat n, row_code = code, row_target_url = ''http://x'', row_created_at = t,
      row_updated_at = t, row_expires_at = None, row_version = 1, row_hits = 0\<rparr>"

definition sample_env :: pg_env where
  "sample_env =
     \<lparr>from_timestamp = (\<lambda>s. Some (sint s * nanos_per_sec)), utc_now = (\<lambda>n. 0),
      to_rfc3339 = (\<lambda>t. show_nat (nat t)), parse_rfc3339 = (\<lambda>s. map_option int (parse_digits 0 s)),
      code_key = id\<rparr>"

lemma quiet_database_ok: "rows_ok rows \<Longrightarrow> pg_inv (quiet_database rows) \<and> quiet (quiet_database rows)"
  by (simp add: pg_inv_def server_ok_def quiet_def quiet_database_def)

lemma sample_exact: "exact_cursors sample_env (map (\<lambda>(n, c, t). sample_row n c (int t)) xs)"
  by (auto simp: exact_cursors_def sample_env_def sample_row_def parse_digits_show)

text \<open>C2: optimistic locking on PostgreSQL: after an update with a version has succeeded, no update with
  the same version succeeds, and one that the server runs is told of the conflict and changes nothing.\<close>

theorem postgres_no_lost_update:
  assumes "pg_inv db" and "pg_update c url v db = (Inr l, db')"
  shows "(\<forall>l'. fst (pg_update c url' v db') \<noteq> Inr l') \<and>
    (quiet db' \<longrightarrow> fst (pg_update c url' v db') = Inl VersionConflict \<and>
       pg_view (snd (pg_update c url' v db')) = pg_view db')"
proof -
  obtain st t where st: "pg_view db c = Some st" "link_version (stats_link st) = v"
    and l: "l = (stats_link st)\<lparr>link_target_url := url, link_updated_at := t,
               link_version := link_version (stats_link st) + 1\<rparr>"
    and view: "pg_view db' = (pg_view db)(c \<mapsto> st\<lparr>stats_link := l\<rparr>)" and inv': "pg_inv db'"
    using pg_update_result [OF assms(2,1)] by auto
  have none: "fst (pg_update c url' v db') \<noteq> Inr l'" for l'
    using pg_update_result [of c url' v db' "Inr l'"] inv' view l st(2)
    by (cases "pg_update c url' v db'") auto
  obtain r db2 where run: "pg_update c url' v db' = (r, db2)" by fastforce
  have "r = Inl VersionConflict" if "quiet db'"
  proof -
    have "select_code c (db_rows db') \<noteq> None" using view by (auto simp: pg_view_def fun_eq_iff split: if_splits)
    moreover have "find (\<lambda>row. row_code row = c \<and> row_version row = v) (db_rows db') = None"
    proof (rule ccontr)
      assume "find (\<lambda>row. row_code row = c \<and> row_version row = v) (db_rows db') \<noteq> None"
      then obtain row where row: "row \<in> set (db_rows db')" "row_code row = c" "row_version row = v"
        by (auto simp: find_None_iff)
      then have "pg_view db' c = Some (row_stats row)"
        using select_code_unique [of "db_rows db'" row] inv' by (simp add: pg_view_def pg_inv_def rows_ok_def)
      then have "st\<lparr>stats_link := l\<rparr> = row_stats row" using view by simp
      then have "link_version l = row_version row"
        by (drule_tac f = "\<lambda>x. link_version (stats_link x)" in arg_cong) simp
      then show False using l st(2) row(3) by simp
    qed
    ultimately show ?thesis
      using run that by (auto simp: pg_update_def quiet_statement quiet_query update_returning_def)
  qed
  then show ?thesis using none run pg_update_result [OF run inv'] by auto
qed

theorem postgres_no_lost_update_witness:
  "\<forall>l'. fst (pg_update ''abcd'' ''http://z'' 1 (snd (pg_update ''abcd'' ''http://y'' 1
     (quiet_database [sample_row 7 ''abcd'' 0])))) \<noteq> Inr l'"
proof -
  let ?db = "quiet_database [sample_row 7 ''abcd'' 0]"
  have "pg_inv ?db" and quiet: "quiet ?db" using quiet_database_ok [of "[sample_row 7 ''abcd'' 0]"]
    by (simp_all add: rows_ok_def)
  moreover have "\<exists>l. fst (pg_update ''abcd'' ''http://y'' 1 ?db) = Inr l"
    unfolding pg_update_def quiet_statement [OF quiet]
    by (simp add: update_returning_def version_row_def quiet_database_def sample_row_def i64_max_def
        char_length_def)
  ultimately show ?thesis using postgres_no_lost_update by (metis prod.collapse)
qed

text \<open>C13: keyset paging on PostgreSQL is complete: where timestamps are printed in full, the
  collation tells the codes apart and the server runs its statements, a client that follows the cursors with
  a page size above zero gets every row exactly once, newest first, with one request more than there are
  rows.\<close>

theorem postgres_paging_is_complete:
  assumes "rows_ok (db_rows db)" and "exact_cursors E (db_rows db)" and "quiet db" and "0 < sint limit"
  shows "walk_pages (postgres_ops E) limit (Suc (length (db_rows db))) None db =
      Done (Inr (map link_of_row (sorted_rows E (db_rows db)))) \<and>
    set (sorted_rows E (db_rows db)) = set (db_rows db) \<and>
    distinct (map row_code (sorted_rows E (db_rows db))) \<and>
    newest_first (map link_of_row (sorted_rows E (db_rows db)))"
proof -
  have "sorted (map (row_key E) (sorted_rows E (db_rows db)))" by (simp add: sorted_rows_def)
  then have "newest_first (map link_of_row (sorted_rows E (db_rows db)))"
    by (auto simp: newest_first_def comp_def row_key_def sorted_map elim: sorted_wrt_mono_rel [rotated])
  then show ?thesis
    using walk_postgres [OF assms, of 0 "Suc (length (db_rows db))"] assms(1)
    by (simp add: cursor_at_def sorted_rows_def rows_ok_def del: walk_pages.simps)
qed

theorem postgres_paging_is_complete_witness:
  "walk_pages (postgres_ops sample_env) 1 3 None
     (quiet_database [sample_row 7 ''abcd'' 5, sample_row 8 ''efgh'' 9]) =
   Done (Inr (map link_of_row (sorted_rows sample_env [sample_row 7 ''abcd'' 5, sample_row 8 ''efgh'' 9])))"
proof -
  let ?rows = "[sample_row 7 ''abcd'' 5, sample_row 8 ''efgh'' 9]"
  have ok: "rows_ok ?rows" by (simp add: rows_ok_def sample_row_def)
  have exact: "exact_cursors sample_env ?rows"
    using sample_exact [of "[(7, ''abcd'', 5), (8, ''efgh'', 9)]"] by simp
  have rows: "db_rows (quiet_database ?rows) = ?rows" by (simp add: quiet_database_def)
  show ?thesis
    using postgres_paging_is_complete [of "quiet_database ?rows" sample_env 1, unfolded rows, OF ok exact]
      quiet_database_ok [OF ok] unfolding numeral_3_eq_3 by (simp del: walk_pages.simps)
qed

text \<open>The row an update with a version is for.\<close>

lemma find_version:
  "distinct (map row_code rows) \<Longrightarrow> find (\<lambda>row. row_code row = c \<and> row_version row = v) rows =
   (case select_code c rows of None \<Rightarrow> None | Some row \<Rightarrow> if row_version row = v then Some row else None)"
proof (induction rows)
  case (Cons row rows)
  have "find (\<lambda>row. row_code row = c \<and> row_version row = v) rows = None" if "row_code row = c"
    using Cons.prems that by (auto simp: find_None_iff) (metis imageI)
  then show ?case using Cons by auto
qed simp

lemma quiet_replies:
  assumes quiet: "quiet db"
  shows "fst (pg_get c db) = (case pg_view db c of None \<Rightarrow> Inl (NotFound c) | Some st \<Rightarrow> Inr (stats_link st))"
    and "fst (pg_stats c db) = (case pg_view db c of None \<Rightarrow> Inl (NotFound c) | Some st \<Rightarrow> Inr st)"
    and "fst (pg_remove c db) = (case pg_view db c of None \<Rightarrow> Inl (NotFound c) | Some st \<Rightarrow> Inr ())"
    and "fst (pg_record_hit c db) = (case pg_view db c of None \<Rightarrow> Inl (NotFound c)
      | Some st \<Rightarrow> if stats_hits st = i64_max then Inl (Internal ''bigint out of range'')
                   else Inr (stats_hits st + 1))"
proof -
  show "fst (pg_get c db) = (case pg_view db c of None \<Rightarrow> Inl (NotFound c) | Some st \<Rightarrow> Inr (stats_link st))"
    "fst (pg_stats c db) = (case pg_view db c of None \<Rightarrow> Inl (NotFound c) | Some st \<Rightarrow> Inr st)"
    by (simp_all add: pg_get_def pg_stats_def quiet_query [OF quiet] pg_view_def row_stats_def split: option.split)
  show "fst (pg_remove c db) = (case pg_view db c of None \<Rightarrow> Inl (NotFound c) | Some st \<Rightarrow> Inr ())"
    by (auto simp: pg_remove_def quiet_statement [OF quiet] delete_where_def pg_view_def select_code_None
        filter_empty_conv dest!: select_code_SomeD split: option.split)
  show "fst (pg_record_hit c db) = (case pg_view db c of None \<Rightarrow> Inl (NotFound c)
      | Some st \<Rightarrow> if stats_hits st = i64_max then Inl (Internal ''bigint out of range'') else Inr (stats_hits st + 1))"
    by (simp add: pg_record_hit_def quiet_statement [OF quiet] update_returning_def pg_view_def
        map_sql_error_def out_of_range_def sql_error_text_def flip: select_code_def split: option.split)
qed

lemma quiet_update_reply:
  assumes "pg_inv db" and quiet: "quiet db"
  shows "case pg_view db c of
      None \<Rightarrow> fst (pg_update c url v db) = Inl (NotFound c)
    | Some st \<Rightarrow>
        if link_version (stats_link st) \<noteq> v then fst (pg_update c url v db) = Inl VersionConflict
        else if v = i64_max \<or> char_length url = 0 then \<exists>m. fst (pg_update c url v db) = Inl (Internal m)
        else \<exists>l. fst (pg_update c url v db) = Inr l"
proof -
  have "distinct (map row_code (db_rows db))" using assms(1) by (simp add: pg_inv_def rows_ok_def)
  note row = find_version [OF this]
  show ?thesis
    by (auto simp: pg_update_def quiet_statement [OF quiet] quiet_query quiet update_returning_def row version_row_def
        pg_view_def map_sql_error_def out_of_range_def empty_target_def split: option.split)
qed

lemma quiet_insert_reply:
  assumes quiet: "quiet db"
  shows "if \<not> (4 \<le> char_length (link_code l) \<and> char_length (link_code l) \<le> 32) \<or> char_length (link_target_url l) = 0
    then \<exists>m. fst (pg_insert E l db) = Inl (Internal m)
    else fst (pg_insert E l db) =
      (if db_uuid db (Suc (db_step db)) \<in> row_id ` set (db_rows db) then Inl (CodeTaken ''duplicate value'')
       else if pg_view db (link_code l) \<noteq> None then Inl (CodeTaken ''code already exists'')
       else Inr ())"
proof -
  have msg: "contains ''duplicate key value violates unique constraint links_code_key'' ''code''"
    "\<not> contains ''duplicate key value violates unique constraint links_pkey'' ''code''"
    by (simp_all add: starts_with_def)
  show ?thesis
    using msg
    by (auto simp: pg_insert_def quiet_query quiet_statement quiet insert_row_def Let_def pg_view_def
        select_code_None map_sql_error_def empty_target_def simp del: contains.simps)
qed

text \<open>C25: each operation of the PostgreSQL store on a code (insert, get, stats, update, remove,
  record a hit) reports an error exactly where the links give it a reason, if the server runs its
  statements: a missing code, a taken one (or, by chance, a taken identifier), another version, a counter at
  its maximum, and a code or target that breaks the table's constraints; otherwise it succeeds. Whatever
  statements fail, without effect as the model of the server has it, an operation that reports an error has
  left the links as they were, and the reading operations always do.\<close>

theorem postgres_replies:
  assumes "pg_inv db"
  shows "(quiet db \<longrightarrow>
      fst (pg_get c db) = (case pg_view db c of None \<Rightarrow> Inl (NotFound c) | Some st \<Rightarrow> Inr (stats_link st)) \<and>
      fst (pg_stats c db) = (case pg_view db c of None \<Rightarrow> Inl (NotFound c) | Some st \<Rightarrow> Inr st) \<and>
      fst (pg_remove c db) = (case pg_view db c of None \<Rightarrow> Inl (NotFound c) | Some st \<Rightarrow> Inr ()) \<and>
      fst (pg_record_hit c db) = (case pg_view db c of None \<Rightarrow> Inl (NotFound c)
        | Some st \<Rightarrow> if stats_hits st = i64_max then Inl (Internal ''bigint out of range'')
                     else Inr (stats_hits st + 1)) \<and>
      (case pg_view db c of
         None \<Rightarrow> fst (pg_update c url v db) = Inl (NotFound c)
       | Some st \<Rightarrow>
           if link_version (stats_link st) \<noteq> v then fst (pg_update c url v db) = Inl VersionConflict
           else if v = i64_max \<or> char_length url = 0 then \<exists>m. fst (pg_update c url v db) = Inl (Internal m)
           else \<exists>l. fst (pg_update c url v db) = Inr l) \<and>
      (if \<not> (4 \<le> char_length (link_code l) \<and> char_length (link_code l) \<le> 32) \<or> char_length (link_target_url l) = 0
       then \<exists>m. fst (pg_insert E l db) = Inl (Internal m)
       else fst (pg_insert E l db) =
         (if db_uuid db (Suc (db_step db)) \<in> row_id ` set (db_rows db) then Inl (CodeTaken ''duplicate value'')
          else if pg_view db (link_code l) \<noteq> None then Inl (CodeTaken ''code already exists'')
          else Inr ()))) \<and>
    (\<forall>e db'. pg_insert E l db = (Inl e, db') \<or> pg_update c url v db = (Inl e, db') \<or>
       pg_remove c db = (Inl e, db') \<or> pg_record_hit c db = (Inl e, db') \<longrightarrow> pg_view db' = pg_view db) \<and>
    (\<forall>q p x db'. pg_get c db = (q, db') \<or> pg_stats c db = (p, db') \<or> pg_list E limit cursor db = (x, db') \<longrightarrow>
       pg_view db' = pg_view db)"
proof (intro conjI impI)
  show "\<forall>e db'. pg_insert E l db = (Inl e, db') \<or> pg_update c url v db = (Inl e, db') \<or>
      pg_remove c db = (Inl e, db') \<or> pg_record_hit c db = (Inl e, db') \<longrightarrow> pg_view db' = pg_view db"
    using assms pg_insert_Inl pg_update_result pg_remove_result pg_record_hit_result
    by (fastforce simp: same_links_def)
  show "\<forall>q p x db'. pg_get c db = (q, db') \<or> pg_stats c db = (p, db') \<or> pg_list E limit cursor db = (x, db') \<longrightarrow>
      pg_view db' = pg_view db"
    using assms pg_list_result query_same
    by (fastforce simp: same_links_def pg_get_def pg_stats_def split: prod.splits sum.splits option.splits)
qed (simp_all only: quiet_replies, use assms quiet_update_reply quiet_insert_reply in \<open>fast+\<close>)

theorem postgres_replies_witness:
  "fst (pg_remove ''zzzz'' (quiet_database [sample_row 7 ''abcd'' 0])) = Inl (NotFound ''zzzz'') \<and>
   fst (pg_record_hit ''abcd'' (quiet_database [sample_row 7 ''abcd'' 0])) = Inr 1"
proof -
  let ?db = "quiet_database [sample_row 7 ''abcd'' 0]"
  have inv: "pg_inv ?db" and quiet: "quiet ?db" using quiet_database_ok [of "[sample_row 7 ''abcd'' 0]"]
    by (simp_all add: rows_ok_def)
  have "pg_view ?db ''zzzz'' = None" "map_option stats_hits (pg_view ?db ''abcd'') = Some 0"
    by (simp_all add: pg_view_def quiet_database_def sample_row_def)
  then show ?thesis
    using postgres_replies [OF inv, of "''zzzz''"] postgres_replies [OF inv, of "''abcd''"] quiet
    by (auto simp: i64_max_def)
qed

end
