(* ===== verification/Backend.thy ===== *)
theory Backend
  imports In_Memory Postgres Config Cache
begin

text \<open>
  The storage the server runs on: \<open>create_repository\<close> and \<open>create_cache\<close> of \<open>shorty-server/src/main.rs\<close>.
  \<open>Arc<dyn LinkRepository>\<close> is one of the two implementations, and a call of the trait goes to the
  methods of the one that is there. The dispatch keeps the promises of the trait (\<open>dyn\<close> below), so what
  the other theories prove of any repository holds of the server on either store.
\<close>

datatype backend = Memory_Backend in_memory_repo | Postgres_Backend database

definition dispatch ::
  "(in_memory_repo \<Rightarrow> 'a \<times> in_memory_repo) \<Rightarrow> (database \<Rightarrow> 'a \<times> database) \<Rightarrow> backend \<Rightarrow> 'a \<times> backend" where
  "dispatch f g s =
     (case s of
        Memory_Backend m \<Rightarrow> (let (r, m') = f m in (r, Memory_Backend m'))
      | Postgres_Backend d \<Rightarrow> (let (r, d') = g d in (r, Postgres_Backend d')))"

definition dyn_ops :: "pg_env \<Rightarrow> backend link_repository" where
  "dyn_ops E =
     \<lparr>repo_insert = (\<lambda>l. dispatch (repo_insert in_memory_ops l) (repo_insert (postgres_ops E) l)),
      repo_get = (\<lambda>c. dispatch (repo_get in_memory_ops c) (repo_get (postgres_ops E) c)),
      repo_update = (\<lambda>c url v now.
        dispatch (repo_update in_memory_ops c url v now) (repo_update (postgres_ops E) c url v now)),
      repo_remove = (\<lambda>c. dispatch (repo_remove in_memory_ops c) (repo_remove (postgres_ops E) c)),
      repo_record_hit = (\<lambda>c now.
        dispatch (repo_record_hit in_memory_ops c now) (repo_record_hit (postgres_ops E) c now)),
      repo_stats = (\<lambda>c. dispatch (repo_stats in_memory_ops c) (repo_stats (postgres_ops E) c)),
      repo_list = (\<lambda>n cur. dispatch (repo_list in_memory_ops n cur) (repo_list (postgres_ops E) n cur)),
      repo_purge_expired = (\<lambda>now.
        dispatch (repo_purge_expired in_memory_ops now) (repo_purge_expired (postgres_ops E) now))\<rparr>"

text \<open>
  \<open>connect\<close> is the database the pool connects to after the migrations, \<open>None\<close> where that fails and the
  start panics; \<open>manager\<close> is Redis, \<open>None\<close> where the client cannot connect.
\<close>

definition create_repository :: "(string \<Rightarrow> database option) \<Rightarrow> config \<Rightarrow> backend run" where
  "create_repository connect config =
     (case storage_type config of
        InMemory \<Rightarrow> Done (Memory_Backend in_memory_new)
      | Postgres \<Rightarrow>
          (case connect (database_url config) of
             None \<Rightarrow> Panic
           | Some db \<Rightarrow> Done (Postgres_Backend db)))"

definition create_cache :: "(string \<Rightarrow> 'r option) \<Rightarrow> config \<Rightarrow> 'r cache" where
  "create_cache manager config =
     (let cache_config = \<lparr>cc_ttl_secs = cache_ttl_secs config, cc_jitter_secs = cache_jitter_secs config,
                          cc_op_timeout_ms = cache_op_timeout_ms config\<rparr>
      in (case redis_url config of
            Some url \<Rightarrow> cache_connect (manager url) cache_config
          | None \<Rightarrow> cache_disabled))"

section \<open>Either store keeps the promises\<close>

definition backend_inv :: "backend \<Rightarrow> bool" where
  "backend_inv s = (case s of Memory_Backend m \<Rightarrow> in_memory_inv m | Postgres_Backend d \<Rightarrow> pg_inv d)"

definition backend_view :: "backend \<Rightarrow> link_view" where
  "backend_view s = (case s of Memory_Backend m \<Rightarrow> in_memory_view m | Postgres_Backend d \<Rightarrow> pg_view d)"

lemma backend_simps [simp]:
  "backend_inv (Memory_Backend m) = in_memory_inv m" "backend_inv (Postgres_Backend d) = pg_inv d"
  "backend_view (Memory_Backend m) = in_memory_view m" "backend_view (Postgres_Backend d) = pg_view d"
  by (simp_all add: backend_inv_def backend_view_def)

lemma dispatch_simps [simp]:
  "dispatch f g (Memory_Backend m) = (r, s') \<longleftrightarrow> (\<exists>m'. f m = (r, m') \<and> s' = Memory_Backend m')"
  "dispatch f g (Postgres_Backend d) = (r, s') \<longleftrightarrow> (\<exists>d'. g d = (r, d') \<and> s' = Postgres_Backend d')"
  "snd (dispatch f g (Memory_Backend m)) = Memory_Backend (snd (f m))"
  "snd (dispatch f g (Postgres_Backend d)) = Postgres_Backend (snd (g d))"
  by (auto simp: dispatch_def Let_def split: prod.splits)

lemma dyn_ops_simps [simp]:
  "repo_insert (dyn_ops E) l = dispatch (repo_insert in_memory_ops l) (repo_insert (postgres_ops E) l)"
  "repo_get (dyn_ops E) c = dispatch (repo_get in_memory_ops c) (repo_get (postgres_ops E) c)"
  "repo_update (dyn_ops E) c url v now =
     dispatch (repo_update in_memory_ops c url v now) (repo_update (postgres_ops E) c url v now)"
  "repo_remove (dyn_ops E) c = dispatch (repo_remove in_memory_ops c) (repo_remove (postgres_ops E) c)"
  "repo_record_hit (dyn_ops E) c now =
     dispatch (repo_record_hit in_memory_ops c now) (repo_record_hit (postgres_ops E) c now)"
  "repo_stats (dyn_ops E) c = dispatch (repo_stats in_memory_ops c) (repo_stats (postgres_ops E) c)"
  "repo_list (dyn_ops E) n cur = dispatch (repo_list in_memory_ops n cur) (repo_list (postgres_ops E) n cur)"
  "repo_purge_expired (dyn_ops E) now =
     dispatch (repo_purge_expired in_memory_ops now) (repo_purge_expired (postgres_ops E) now)"
  by (simp_all add: dyn_ops_def)

declare in_memory_ops_simps [simp del] postgres_ops_simps [simp del]

text \<open>The laws hold of a dispatched repository because they hold of both.\<close>

lemma dispatched_repository:
  assumes "repository in_memory_ops in_memory_inv in_memory_view"
    and "repository (postgres_ops E) pg_inv pg_view"
  shows "repository (dyn_ops E) backend_inv backend_view"
proof (unfold_locales, goal_cases)
  case (1 s)
  then show ?case
    by (cases s) (auto dest: repository.view_code [OF assms(1)] repository.view_code [OF assms(2)])
next
  case (2 s)
  then show ?case
    by (cases s) (auto intro: repository.insert_inv [OF assms(1)] repository.insert_inv [OF assms(2)])
next
  case (3 s)
  then show ?case
    by (cases s) (auto intro: repository.get_inv [OF assms(1)] repository.get_inv [OF assms(2)])
next
  case (4 s)
  then show ?case
    by (cases s) (auto intro: repository.update_inv [OF assms(1)] repository.update_inv [OF assms(2)])
next
  case (5 s)
  then show ?case
    by (cases s) (auto intro: repository.remove_inv [OF assms(1)] repository.remove_inv [OF assms(2)])
next
  case (6 s)
  then show ?case
    by (cases s) (auto intro: repository.record_hit_inv [OF assms(1)] repository.record_hit_inv [OF assms(2)])
next
  case (7 s)
  then show ?case
    by (cases s) (auto intro: repository.stats_inv [OF assms(1)] repository.stats_inv [OF assms(2)])
next
  case (8 s)
  then show ?case
    by (cases s) (auto intro: repository.list_inv [OF assms(1)] repository.list_inv [OF assms(2)])
next
  case (9 s)
  then show ?case
    by (cases s) (auto intro: repository.purge_inv [OF assms(1)] repository.purge_inv [OF assms(2)])
next
  case (10 s)
  then show ?case
    by (cases s) (auto dest: repository.insert_ok [OF assms(1)] repository.insert_ok [OF assms(2)])
next
  case (11 s)
  then show ?case
    by (cases s) (auto dest: repository.insert_err [OF assms(1)] repository.insert_err [OF assms(2)])
next
  case (12 s)
  then show ?case
    by (cases s) (auto dest: repository.get_ok [OF assms(1)] repository.get_ok [OF assms(2)])
next
  case (13 s)
  then show ?case
    by (cases s) (auto dest: repository.get_err [OF assms(1)] repository.get_err [OF assms(2)])
next
  case (14 s)
  then show ?case
    by (cases s) (auto dest: repository.get_not_found [OF assms(1)] repository.get_not_found [OF assms(2)])
next
  case (15 s)
  then show ?case
    using repository.update_ok [OF assms(1)] repository.update_ok [OF assms(2)]
    by (cases s; clarsimp; metis)
next
  case (16 s)
  then show ?case
    by (cases s) (auto dest: repository.update_err [OF assms(1)] repository.update_err [OF assms(2)])
next
  case (17 s)
  then show ?case
    by (cases s) (auto dest: repository.remove_ok [OF assms(1)] repository.remove_ok [OF assms(2)])
next
  case (18 s)
  then show ?case
    by (cases s) (auto dest: repository.remove_err [OF assms(1)] repository.remove_err [OF assms(2)])
next
  case (19 s)
  then show ?case
    by (cases s) (auto dest: repository.remove_not_found [OF assms(1)] repository.remove_not_found [OF assms(2)])
next
  case (20 s)
  then show ?case
    by (cases s) (auto dest: repository.record_hit_ok [OF assms(1)] repository.record_hit_ok [OF assms(2)])
next
  case (21 s)
  then show ?case
    by (cases s) (auto dest: repository.record_hit_err [OF assms(1)] repository.record_hit_err [OF assms(2)])
next
  case (22 s)
  then show ?case
    by (cases s) (auto dest: repository.stats_ok [OF assms(1)] repository.stats_ok [OF assms(2)])
next
  case (23 s)
  then show ?case
    by (cases s) (auto dest: repository.stats_err [OF assms(1)] repository.stats_err [OF assms(2)])
next
  case (24 s)
  then show ?case
    by (cases s) (auto dest: repository.stats_not_found [OF assms(1)] repository.stats_not_found [OF assms(2)])
next
  case (25 s)
  then show ?case
    by (cases s) (auto simp: repository.list_view [OF assms(1)] repository.list_view [OF assms(2)])
next
  case (26 s)
  then show ?case
    by (cases s) (auto dest: repository.list_ok [OF assms(1)] repository.list_ok [OF assms(2)])
next
  case (27 s)
  then show ?case
    by (cases s) (auto dest: repository.purge_view [OF assms(1)] repository.purge_view [OF assms(2)])
qed

interpretation dyn: repository "dyn_ops E" backend_inv backend_view for E
  by (rule dispatched_repository [OF im.repository_axioms pg.repository_axioms])

text \<open>The server starts on a store that keeps its invariant, in memory an empty one.\<close>

lemma create_repository_inv:
  assumes "create_repository connect config = Done s"
    and "\<And>url db. connect url = Some db \<Longrightarrow> pg_inv db"
  shows "backend_inv s \<and> (storage_type config = InMemory \<longrightarrow> backend_view s = Map.empty)"
  using assms in_memory_inv_new
  by (auto simp: create_repository_def split: storage_type.splits option.splits)

end
