(* ===== verification/Service.thy ===== *)
theory Service
  imports Coherence Backend Cleanup
begin

text \<open>
  The service as its clients see it: sequences of requests to the router, on the store and the cache
  the server was started with. The laws of the trait reach the handlers through the interpretation of
  \<open>repository\<close> on the dispatched store.
\<close>

section \<open>Which endpoints are behind the authentication layer\<close>

text \<open>The endpoints that read or change links for the API's clients.\<close>

fun managing :: "endpoint \<Rightarrow> bool" where
  "managing E_Create = True"
| "managing E_List = True"
| "managing (E_Get code) = True"
| "managing (E_Update code) = True"
| "managing (E_Delete code) = True"
| "managing (E_Link_Stats code) = True"
| "managing E_Top = True"
| "managing _ = False"

lemma by_method_managing:
  "\<forall>(k, e) \<in> set es. \<not> managing e \<Longrightarrow> \<not> managing (by_method m es)"
  by (auto simp: by_method_def split: option.split dest!: map_of_SomeD)

lemma path_code_managing [simp]: "\<not> managing (path_code E_Redirect segment)"
  using path_code_cases [of E_Redirect segment] by auto

lemma public_route_managing: "public_route m segs = Some e \<Longrightarrow> \<not> managing e"
  by (auto simp: public_route_def intro!: by_method_managing split: if_splits list.splits)

lemma managing_protected: "route m path = (b, e) \<Longrightarrow> managing e \<Longrightarrow> b"
  by (auto simp: route_def by_method_def dest: public_route_managing split: list.splits if_splits option.splits)

lemma request_claims_Inl:
  "request_claims C config req now = Inl e \<Longrightarrow> e \<in> {MissingToken, InvalidToken, TokenExpired}"
  by (auto simp: request_claims_def bearer_token_def load_keys_def validate_token_def Let_def
      split: option.splits sum.splits jwt_error.splits if_splits)

section \<open>Sequences of requests\<close>

text \<open>One client after the other; a request that panics ends its task only, and the state stays.\<close>

definition serve_all ::
  "('s, 'r) services \<Rightarrow> ('ek, 'dk) crypto \<Rightarrow> bool \<Rightarrow> (inputs \<times> http_request) list \<Rightarrow>
   ('s, 'r) app_state \<Rightarrow> ('s, 'r) app_state" where
  "serve_all sv C cancelled rs s =
     fold (\<lambda>(i, req) s. snd (serve sv C cancelled i req s)) rs s"

lemma serve_all_invariant:
  assumes "\<And>i req s. P s \<Longrightarrow> P (snd (serve sv C cancelled i req s))" and "P s"
  shows "P (serve_all sv C cancelled rs s)"
  using assms(2) by (induction rs arbitrary: s) (auto simp: serve_all_def assms(1))

text \<open>A property that the handlers keep is kept by the layers around them.\<close>

lemma serve_keeps:
  assumes "\<And>scope ep s. P s \<Longrightarrow> P (snd (handle sv C cancelled scope i ep s))" and "P s"
  shows "P (snd (serve sv C cancelled i req s))"
  using assms
  by (auto simp: serve_def request_id_scope_def serve_in_scope_def auth_middleware_def Let_def
      split: prod.splits option.splits sum.splits)
     (metis snd_conv)+

lemma respond_keeps: "P (snd (m s)) \<Longrightarrow> P (snd (respond scope ok m s))"
  by (auto simp: respond_def split: prod.splits run.splits sum.splits)

text \<open>No handler writes the statistics storage of the application state.\<close>

lemma stats_repo [simp]: "preserves (\<lambda>s. as_stats s = st) (h_repo f)"
  by (simp add: preserves_def h_repo_def on_repo_def Let_def split_beta)

lemma stats_invalidate [simp]: "preserves (\<lambda>s. as_stats s = st) (h_invalidate sv key)"
  by (simp add: preserves_def h_invalidate_def)

lemma stats_generate: "as_stats (snd (generate_code_from sv url expires codes clock i n s)) = as_stats s"
proof (induction n arbitrary: i s)
  case (Suc n)
  have "as_stats s' = as_stats s" if "try_insert_link sv (codes i) url expires (clock i) s = (r, s')" for r s'
    using that by (auto simp: try_insert_link_eq on_repo_eq)
  then show ?case
    using Suc.IH by (auto split: prod.splits sum.splits repo_error.splits)
qed simp

lemma stats_handlers:
  "preserves (\<lambda>s. as_stats s = st) (create_link sv req now codes clock)"
  "preserves (\<lambda>s. as_stats s = st) (update_link sv code req' now)"
  "preserves (\<lambda>s. as_stats s = st) (delete_link sv code)"
  "preserves (\<lambda>s. as_stats s = st) (redirect sv code now hit)"
  "preserves (\<lambda>s. as_stats s = st) (get_link sv code offset)"
  "preserves (\<lambda>s. as_stats s = st) (list_links sv params)"
  "preserves (\<lambda>s. as_stats s = st) (get_link_stats sv code now rd)"
proof -
  have "preserves (\<lambda>s. as_stats s = st) (insert_code sv custom url expires codes clock)" for custom url expires
    unfolding insert_code_def insert_link_eq generate_code_def
    by (auto split: option.split intro!: preserves_bind) (simp add: preserves_def stats_generate)
  then show "preserves (\<lambda>s. as_stats s = st) (create_link sv req now codes clock)"
    unfolding create_link_def by (intro preserves_bind preserves_result stats_repo)
  show "preserves (\<lambda>s. as_stats s = st) (update_link sv code req' now)"
    "preserves (\<lambda>s. as_stats s = st) (delete_link sv code)"
    "preserves (\<lambda>s. as_stats s = st) (redirect sv code now hit)"
    unfolding update_link_def delete_link_def redirect_def by (auto intro!: preserves_bind)
  show "preserves (\<lambda>s. as_stats s = st) (get_link sv code offset)"
    by (auto simp: preserves_def get_link_def Let_def h_bind_def h_repo_def on_repo_def
        split: prod.splits option.splits sum.splits run.splits)
  show "preserves (\<lambda>s. as_stats s = st) (list_links sv params)"
    by (auto simp: preserves_def list_links_def on_repo_def Let_def
        split: prod.splits run.splits sum.splits)
  show "preserves (\<lambda>s. as_stats s = st) (get_link_stats sv code now rd)"
    unfolding get_link_stats_def
    by (intro preserves_bind stats_repo) (auto simp: preserves_def h_result_def Let_def split: prod.splits)
qed

text \<open>A handler behind the JSON extractor keeps what the handler keeps.\<close>

lemma with_json_preserves: "(\<And>req. preserves P (f req)) \<Longrightarrow> preserves P (with_json extracted f)"
  unfolding with_json_def by (intro preserves_bind preserves_result)

lemma respond_stats:
  "preserves (\<lambda>s'. as_stats s' = as_stats s) m \<Longrightarrow> as_stats (snd (respond scope ok m s)) = as_stats s"
  by (rule respond_keeps [of "\<lambda>s'. as_stats s' = as_stats s"]) (simp add: preserves_def)

lemma handle_stats: "as_stats (snd (handle sv C cancelled scope i ep s)) = as_stats s"
  by (cases ep)
     (simp_all add: handle_def split: sum.split run.split,
      (intro respond_stats with_json_preserves stats_handlers)+)

lemma serve_stats: "as_stats (snd (serve sv C cancelled i req s)) = as_stats s"
  by (rule serve_keeps [of "\<lambda>s'. as_stats s' = as_stats s"]) (simp_all add: handle_stats)

lemma serve_all_stats: "as_stats (serve_all sv C cancelled rs s) = as_stats s"
  by (rule serve_all_invariant [of "\<lambda>s'. as_stats s' = as_stats s"]) (simp_all add: serve_stats)

section \<open>Generated codes\<close>

text \<open>On a store that does not fail by itself the first free candidate is taken.\<close>

context reliable_repository
begin

lemma generate_code_first_free:
  assumes "sv_repo sv = R" and "inv (as_repo s)"
  shows "fst (generate_code_from sv url expires codes clock i n s) =
    (case find (\<lambda>j. view (as_repo s) (codes j) = None) [i..<i + n] of
       Some j \<Rightarrow> Done (Inr (codes j))
     | None \<Rightarrow> Done (Inl (App_Internal (''failed to generate a unique code in '' @
         show_nat (unat (max_generate_attempts (sv_config sv))) @ '' attempts''))))"
  using assms(2)
proof (induction n arbitrary: i s)
  case (Suc n)
  let ?l = "new_link (codes i) url expires (clock i)"
  obtain r repo where step: "repo_insert R ?l (as_repo s) = (r, repo)" by fastforce
  have upt: "[i..<i + Suc n] = i # [Suc i..<Suc i + n]"
    by (simp add: upt_conv_Cons)
  show ?case
  proof (cases "view (as_repo s) (codes i)")
    case None
    then have "r = Inr ()" using insert_free [OF Suc.prems, of ?l] step by simp
    then show ?thesis
      using None step upt by (simp add: try_insert_link_eq assms(1) on_repo_def del: upt_Suc)
  next
    case (Some st)
    then have r: "r = Inl (CodeTaken (codes i))" using insert_full [OF Suc.prems, of ?l] step by simp
    have "inv repo" using insert_inv [OF Suc.prems, of ?l] step by simp
    moreover have "view repo = view (as_repo s)" using insert_err [OF Suc.prems] step r by simp
    ultimately show ?thesis
      using Suc.IH [of "s\<lparr>as_repo := repo\<rparr>" "Suc i"] Some step upt r
      by (simp add: try_insert_link_eq assms(1) on_repo_def del: upt_Suc)
  qed
qed simp

end

text \<open>What an update asked the store.\<close>

lemma update_link_repo:
  "update_link sv code req now s = (Done (Inr resp), s') \<Longrightarrow>
   \<exists>u l repo. parse_target_url (url_parse sv) (ur_target_url req) = Inr u \<and>
     repo_update (sv_repo sv) code (url_text u) (ur_version req) now (as_repo s) = (Inr l, repo)"
  by (auto simp: update_link_def handler_steps)

section \<open>Answers from the cache\<close>

text \<open>
  A cached response is the answer whatever the store holds: after a purge by the clean-up task, which
  has no access to the cache, a purged link is answered until its entry expires.
\<close>

lemma cached_answer_ignores_store:
  "cache_get (sv_redis sv) (response_from_json sv) (link_key code) (as_cache s) = (Some resp, c) \<Longrightarrow>
   get_link sv code offset (s\<lparr>as_repo := repo\<rparr>) = (Done (Inr resp), s\<lparr>as_repo := repo, as_cache := c\<rparr>)"
  by (simp add: get_link_def)

end
