(* ===== verification/Sample_Service.thy ===== *)
theory Sample_Service
  imports Service
begin

text \<open>
  One concrete service for the witnesses: the in-memory store with the link \<open>abcd\<close>, Redis as a map that
  holds its response, a JSON codec of that response, and the sample libraries of \<open>Auth\<close>. Its lemmas
  evaluate a redirect and the lookup after it.
\<close>

definition sample_response :: "u64 \<Rightarrow> link_response" where
  "sample_response n =
     \<lparr>lr_code = ''abcd'', lr_target_url = ''https://a.org/'', lr_created_at_unix = 5,
      lr_expires_at_unix = None, lr_hits = n, lr_version = 1\<rparr>"

definition sample_service :: "(backend, string \<rightharpoonup> string) services" where
  "sample_service =
     \<lparr>sv_repo = dyn_ops sample_env, sv_redis = map_redis,
      sv_config = config_default (sample_crypto ''shorty-service''),
      url_parse = (\<lambda>s. Inr \<lparr>url_scheme = ''https'', url_text = s\<rparr>),
      response_to_json = (\<lambda>r. if r = sample_response (lr_hits r) then Some (show_nat (unat (lr_hits r))) else None),
      response_from_json = (\<lambda>s. map_option sample_response (parse_u64 s)),
      cursor_to_json = (\<lambda>_. None), cursor_from_json = (\<lambda>_. None), base64_encode = id, base64_decode = Some\<rparr>"

definition sample_state :: "(backend, string \<rightharpoonup> string) app_state" where
  "sample_state =
     \<lparr>as_repo = Memory_Backend (snd (insert_sync
        (short_link_new ''abcd'' ''https://a.org/'' 5000000000) in_memory_new)),
      as_stats = stats_storage_new,
      as_cache = cache_from_manager [link_key ''abcd'' \<mapsto> ''0''] cache_config_default\<rparr>"

definition sample_inputs :: inputs where
  "sample_inputs =
     \<lparr>in_create = Inl (400, ''''), in_update = Inl (400, ''''), in_login = Inl (400, ''''),
      in_params = (\<lambda>_. None), in_limit = Inr None, in_now = 6000000000, in_hit = 6000000000,
      in_codes = (\<lambda>_. ''abcd''), in_clock = (\<lambda>_. 6000000000), in_offset = 0, in_pool = None, in_metrics = '''',
      in_swagger = 303\<rparr>"

definition sample_request :: "string \<Rightarrow> http_request" where
  "sample_request path = \<lparr>rq_method = ''GET'', rq_path = path, rq_header = (\<lambda>_. None), rq_remote = None\<rparr>"

lemma sample_round_trip: "json_round_trip sample_service"
proof -
  have "parse_u64 (show_nat (unat n)) = Some n" for n :: u64
    proof -
    have "unat n < 2 ^ 64" using unsigned_less [of n, where ?'a = nat] by simp
    then show ?thesis by (simp add: parse_u64_def parse_unsigned_show)
  qed
  then show ?thesis by (auto simp: json_round_trip_def sample_service_def)
qed

lemma sample_route:
  "route ''GET'' ''/abcd'' = (False, E_Redirect ''abcd'')"
  "route ''GET'' ''/api/v1/links/abcd'' = (True, E_Get ''abcd'')"
  by (simp_all add: route_def public_route_def protected_route_def by_method_def swagger_path_def starts_with_def
      code_char_def is_ascii_alphanumeric_def)

lemma sample_link_values:
  "unix_secs 5000000000 = 5" "unix_secs 6000000000 = 6" "parse_u64 ''0'' = Some 0" "parse_u64 ''1'' = Some 1"
  by (simp_all add: unix_secs_def since_epoch_def as_secs_def parse_u64_def parse_unsigned_def digit_value_def)

lemma sample_hits_text: "parse_u64 (show_nat (Suc 0)) = Some 1"
  using parse_unsigned_show [of "Suc 0" 64] by (simp add: parse_u64_def)

lemma sample_coherent: "coherent_state backend_inv backend_view sample_service (\<lambda>m. m) sample_state"
  by (auto simp: coherent_state_def sample_state_def insert_sync_inv in_memory_inv_new cache_coherent_def
      cached_def cache_from_manager_def insert_sync_view sample_service_def sample_link_values
      link_response_of_stats_def sample_response_def short_link_new_def)

definition sample_served :: "(backend, string \<rightharpoonup> string) app_state" where
  "sample_served =
     \<lparr>as_repo = Memory_Backend
        \<lparr>im_inner = [(''abcd'', \<lparr>entry_link = short_link_new ''abcd'' ''https://a.org/'' 5000000000, entry_hits = 1\<rparr>)],
         im_stats = \<lparr>st_inner = [(''abcd'', 0)], st_arcs = [window_record_hit window_new 6000000000]\<rparr>\<rparr>,
      as_stats = stats_storage_new,
      as_cache = cache_from_manager Map.empty cache_config_default\<rparr>"

lemma sample_redirected:
  "redirect sample_service ''abcd'' 6000000000 6000000000 sample_state =
     (Done (Inr \<lparr>resp_status = 307, resp_headers = [(''location'', ''https://a.org/'')], resp_body = ()\<rparr>),
      sample_served)"
  unfolding sample_state_def sample_served_def sample_service_def insert_sync_def in_memory_new_def
    short_link_new_def link_entry_new_def redirect_def h_bind_def h_repo_def on_repo_def h_result_def
    h_invalidate_def
  by (simp add: dispatch_def in_memory_ops_simps get_sync_def is_expired_def record_hit_sync_def
      arc_record_hit_def get_or_create_def stats_storage_new_def repo_result_def Let_def
      cache_invalidate_def cache_from_manager_def map_redis_def)

lemma sample_serve_redirect:
  "serve_all sample_service C False [(sample_inputs, sample_request ''/abcd'')] sample_state =
   sample_served"
  by (simp add: serve_all_def serve_def request_id_scope_def serve_in_scope_def sample_request_def
      sample_route handle_def respond_def sample_inputs_def sample_redirected)

lemma sample_get:
  "\<exists>s'. get_link sample_service ''abcd'' 0 sample_served = (Done (Inr (sample_response 1)), s')"
  unfolding get_link_def sample_served_def sample_service_def h_bind_def h_repo_def on_repo_def
  by (simp add: dispatch_def in_memory_ops_simps stats_sync_def Let_def cache_get_def cache_set_def
      cache_from_manager_def map_redis_def jittered_ttl_def cache_config_default_def repo_result_def
      link_response_of_stats_def entry_stats_def short_link_new_def sample_link_values sample_response_def
      record_cache_miss_def)
text \<open>The other operations on it, and the same store behind the in-memory methods alone.\<close>

lemma sample_create:
  "\<exists>s'. create_link sample_service \<lparr>cr_target_url = ''u'', cr_custom_code = Some ''efgh'', cr_ttl_seconds = None\<rparr>
       6000000000 (\<lambda>_. ''abcd'') (\<lambda>_. 6000000000) sample_state =
     (Done (Inr \<lparr>resp_status = 201, resp_headers = [(''location'', ''/api/v1/links/efgh'')],
       resp_body = \<lparr>lr_code = ''efgh'', lr_target_url = ''u'', lr_created_at_unix = 6,
                     lr_expires_at_unix = None, lr_hits = 0, lr_version = 1\<rparr>\<rparr>), s')"
  unfolding create_link_def insert_code_def insert_link_eq h_bind_def h_repo_def on_repo_def h_result_def h_run_def
    sample_state_def sample_service_def insert_sync_def in_memory_new_def
  by (simp add: dispatch_def in_memory_ops_simps parse_target_url_def expires_at_from_ttl_def validate_custom_code_def
      code_char_def is_ascii_alphanumeric_def insert_sync_def stats_sync_def new_link_def short_link_new_def
      link_entry_new_def entry_stats_def repo_result_def links_path_def link_response_of_stats_def
      sample_link_values Let_def)

lemma sample_create_ttl:
  "\<exists>resp s'. create_link sample_service \<lparr>cr_target_url = ''u'', cr_custom_code = Some ''efgh'', cr_ttl_seconds = Some 60\<rparr>
       6000000000 (\<lambda>_. ''abcd'') (\<lambda>_. 6000000000) sample_state = (Done (Inr resp), s') \<and>
     lr_target_url (resp_body resp) = ''u''"
  unfolding create_link_def insert_code_def insert_link_eq h_bind_def h_repo_def on_repo_def h_result_def h_run_def
    sample_state_def sample_service_def insert_sync_def in_memory_new_def
  by (simp add: dispatch_def in_memory_ops_simps parse_target_url_def expires_at_from_ttl_def validate_custom_code_def
      time_add_secs_def representable_def with_expires_at_def
      code_char_def is_ascii_alphanumeric_def insert_sync_def stats_sync_def new_link_def short_link_new_def
      link_entry_new_def entry_stats_def repo_result_def links_path_def link_response_of_stats_def
      sample_link_values Let_def)

lemma sample_update:
  "\<exists>resp s'. update_link sample_service ''abcd'' \<lparr>ur_target_url = ''v'', ur_version = 1\<rparr> 6000000000 sample_state =
     (Done (Inr resp), s')"
  unfolding update_link_def h_bind_def h_repo_def on_repo_def h_result_def h_invalidate_def
    sample_state_def sample_service_def insert_sync_def in_memory_new_def
  by (simp add: dispatch_def in_memory_ops_simps parse_target_url_def update_sync_def short_link_new_def
      link_entry_new_def repo_result_def Let_def)

lemma sample_delete: "\<exists>s'. delete_link sample_service ''abcd'' sample_state = (Done (Inr 204), s')"
  unfolding delete_link_def h_bind_def h_repo_def on_repo_def h_result_def h_invalidate_def
    sample_state_def sample_service_def insert_sync_def in_memory_new_def
  by (simp add: dispatch_def in_memory_ops_simps remove_sync_def short_link_new_def
      link_entry_new_def repo_result_def Let_def)

definition sample_memory :: in_memory_repo where
  "sample_memory = snd (insert_sync (short_link_new ''abcd'' ''https://a.org/'' 5000000000) in_memory_new)"

lemma sample_memory_view:
  "in_memory_inv sample_memory" "in_memory_view sample_memory ''abcd'' \<noteq> None"
  "in_memory_view sample_memory ''efgh'' = None"
  by (simp_all add: sample_memory_def insert_sync_inv in_memory_inv_new insert_sync_view short_link_new_def)

definition sample_memory_service :: "(in_memory_repo, string \<rightharpoonup> string) services" where
  "sample_memory_service =
     \<lparr>sv_repo = in_memory_ops, sv_redis = map_redis,
      sv_config = config_default (sample_crypto ''shorty-service''),
      url_parse = (\<lambda>s. Inr \<lparr>url_scheme = ''https'', url_text = s\<rparr>),
      response_to_json = (\<lambda>_. None), response_from_json = (\<lambda>_. None),
      cursor_to_json = (\<lambda>_. None), cursor_from_json = (\<lambda>_. None), base64_encode = id, base64_decode = Some\<rparr>"

end
