(* ===== verification/Api_Doc.thy ===== *)
theory Api_Doc
  imports Sample_Service
begin

text \<open>
  The documentation of the HTTP API: the \<open>utoipa::path\<close> attributes of the handlers in
  \<open>shorty-server/src/api/handlers.rs\<close>, \<open>api/stats.rs\<close> and \<open>auth/mod.rs\<close>, one \<open>operation\<close> each, and the
  document that \<open>lib.rs\<close> derives and modifies. The descriptions are left out. Compared with the router
  and the handlers: which statuses they answer, which operations ask for a token, and where the
  documented paths lead.
\<close>

section \<open>The operations as documented\<close>

datatype location = In_Path | In_Query

record operation =
  op_method :: string
  op_path :: string
  op_tags :: "string list"
  op_params :: "(string \<times> location) list"
  op_request_body :: "string option"
  op_responses :: "(nat \<times> string option) list"
  op_secured :: bool

definition create_link_doc :: operation where
  "create_link_doc =
     \<lparr>op_method = ''POST'', op_path = ''/api/v1/links'', op_tags = [''shorty''], op_params = [],
      op_request_body = Some ''CreateLinkRequest'',
      op_responses = [(201, Some ''LinkResponse''), (400, Some ''ErrorBody''), (401, Some ''ErrorBody''),
                      (409, Some ''ErrorBody''), (503, Some ''ErrorBody'')],
      op_secured = True\<rparr>"

definition update_link_doc :: operation where
  "update_link_doc =
     \<lparr>op_method = ''PUT'', op_path = ''/api/v1/links/{code}'', op_tags = [''shorty''],
      op_params = [(''code'', In_Path)], op_request_body = Some ''UpdateLinkRequest'',
      op_responses = [(200, Some ''LinkResponse''), (400, Some ''ErrorBody''), (401, Some ''ErrorBody''),
                      (403, Some ''ErrorBody''), (404, Some ''ErrorBody''), (409, Some ''ErrorBody''),
                      (503, Some ''ErrorBody'')],
      op_secured = True\<rparr>"

definition get_link_doc :: operation where
  "get_link_doc =
     \<lparr>op_method = ''GET'', op_path = ''/api/v1/links/{code}'', op_tags = [''shorty''],
      op_params = [(''code'', In_Path)], op_request_body = None,
      op_responses = [(200, Some ''LinkResponse''), (401, Some ''ErrorBody''), (403, Some ''ErrorBody''),
                      (404, Some ''ErrorBody''), (503, Some ''ErrorBody'')],
      op_secured = True\<rparr>"

definition list_links_doc :: operation where
  "list_links_doc =
     \<lparr>op_method = ''GET'', op_path = ''/api/v1/links'', op_tags = [''shorty''],
      op_params = [(''limit'', In_Query), (''cursor'', In_Query)], op_request_body = None,
      op_responses = [(200, Some ''ListLinksResponse''), (401, Some ''ErrorBody''), (403, Some ''ErrorBody''),
                      (503, Some ''ErrorBody'')],
      op_secured = True\<rparr>"

definition redirect_doc :: operation where
  "redirect_doc =
     \<lparr>op_method = ''GET'', op_path = ''/{code}'', op_tags = [''shorty''],
      op_params = [(''code'', In_Path)], op_request_body = None,
      op_responses = [(302, None), (404, Some ''ErrorBody''), (503, Some ''ErrorBody'')],
      op_secured = False\<rparr>"

definition delete_link_doc :: operation where
  "delete_link_doc =
     \<lparr>op_method = ''DELETE'', op_path = ''/api/v1/links/{code}'', op_tags = [''shorty''],
      op_params = [(''code'', In_Path)], op_request_body = None,
      op_responses = [(204, None), (401, Some ''ErrorBody''), (403, Some ''ErrorBody''),
                      (404, Some ''ErrorBody''), (503, Some ''ErrorBody'')],
      op_secured = True\<rparr>"

definition healthz_doc :: operation where
  "healthz_doc =
     \<lparr>op_method = ''GET'', op_path = ''/healthz'', op_tags = [''health''], op_params = [],
      op_request_body = None, op_responses = [(200, Some ''Health'')], op_secured = False\<rparr>"

definition readyz_doc :: operation where
  "readyz_doc =
     \<lparr>op_method = ''GET'', op_path = ''/readyz'', op_tags = [''health''], op_params = [],
      op_request_body = None, op_responses = [(200, None), (503, None)], op_secured = False\<rparr>"

definition version_doc :: operation where
  "version_doc =
     \<lparr>op_method = ''GET'', op_path = ''/version'', op_tags = [''health''], op_params = [],
      op_request_body = None, op_responses = [(200, Some ''Version'')], op_secured = False\<rparr>"

definition get_link_stats_doc :: operation where
  "get_link_stats_doc =
     \<lparr>op_method = ''GET'', op_path = ''/api/v1/links/{code}/stats'', op_tags = [''shorty''],
      op_params = [(''code'', In_Path)], op_request_body = None,
      op_responses = [(200, Some ''LinkStatsResponse''), (401, Some ''ErrorBody''), (403, Some ''ErrorBody''),
                      (404, Some ''ErrorBody'')],
      op_secured = True\<rparr>"

definition get_top_stats_doc :: operation where
  "get_top_stats_doc =
     \<lparr>op_method = ''GET'', op_path = ''/stats/top'', op_tags = [''shorty''],
      op_params = [(''limit'', In_Query)], op_request_body = None,
      op_responses = [(200, Some ''TopStatsResponse''), (401, Some ''ErrorBody''), (403, Some ''ErrorBody'')],
      op_secured = True\<rparr>"

definition login_doc :: operation where
  "login_doc =
     \<lparr>op_method = ''POST'', op_path = ''/auth/login'', op_tags = [''auth''], op_params = [],
      op_request_body = Some ''LoginRequest'',
      op_responses = [(200, Some ''LoginResponse''), (401, Some ''ErrorBody''), (429, Some ''ErrorBody'')],
      op_secured = False\<rparr>"

text \<open>Which attribute stands before the handler of an endpoint.\<close>

definition operation_of :: "endpoint \<Rightarrow> operation option" where
  "operation_of ep =
     (case ep of
        E_Create \<Rightarrow> Some create_link_doc
      | E_Update _ \<Rightarrow> Some update_link_doc
      | E_Get _ \<Rightarrow> Some get_link_doc
      | E_List \<Rightarrow> Some list_links_doc
      | E_Redirect _ \<Rightarrow> Some redirect_doc
      | E_Delete _ \<Rightarrow> Some delete_link_doc
      | E_Healthz \<Rightarrow> Some healthz_doc
      | E_Readyz \<Rightarrow> Some readyz_doc
      | E_Version \<Rightarrow> Some version_doc
      | E_Link_Stats _ \<Rightarrow> Some get_link_stats_doc
      | E_Top \<Rightarrow> Some get_top_stats_doc
      | E_Login \<Rightarrow> Some login_doc
      | _ \<Rightarrow> None)"

lemmas operation_defs =
  create_link_doc_def update_link_doc_def get_link_doc_def list_links_doc_def redirect_doc_def
  delete_link_doc_def healthz_doc_def readyz_doc_def version_doc_def get_link_stats_doc_def
  get_top_stats_doc_def login_doc_def

section \<open>The document\<close>

record components =
  cp_schemas :: "string list"
  cp_security_schemes :: "(string \<times> string) list"

record openapi =
  oa_title :: string
  oa_version :: string
  oa_paths :: "operation list"
  oa_components :: "components option"
  oa_security :: "string list"
  oa_tags :: "string list"

text \<open>
  The attribute of \<open>ApiDoc\<close>. It has no \<open>paths\<close>, so the derived document lists no operation; the
  modifier is applied to the document that the rest of the attribute describes.
\<close>

definition api_doc_attribute :: openapi where
  "api_doc_attribute =
     \<lparr>oa_title = ''Shorty API'', oa_version = ''1.0.0'', oa_paths = [],
      oa_components = Some \<lparr>cp_schemas =
        [''ErrorBody'', ''LinkResponse'', ''CreateLinkRequest'', ''UpdateLinkRequest'', ''ListLinksResponse'',
         ''LinkStatsResponse'', ''TopStatsResponse'', ''TopLink'', ''LoginRequest'', ''LoginResponse'', ''Health'',
         ''Version''], cp_security_schemes = []\<rparr>,
      oa_security = [''bearerAuth''], oa_tags = [''shorty'', ''auth'', ''health'']\<rparr>"

definition bearer_auth_modify :: "openapi \<Rightarrow> openapi" where
  "bearer_auth_modify doc =
     doc\<lparr>oa_components := Some \<lparr>cp_schemas = [], cp_security_schemes = [(''bearerAuth'', ''bearer'')]\<rparr>\<rparr>"

definition api_doc :: openapi where
  "api_doc = bearer_auth_modify api_doc_attribute"

text \<open>The modifier replaces the components, so the schemas that the attribute lists are gone.\<close>

definition schemas_used :: "operation \<Rightarrow> string list" where
  "schemas_used d = List.map_filter snd (op_responses d) @ (case op_request_body d of None \<Rightarrow> [] | Some b \<Rightarrow> [b])"

lemma attribute_has_schemas:
  "operation_of ep = Some d \<Longrightarrow>
   \<exists>c. oa_components api_doc_attribute = Some c \<and> set (schemas_used d) \<subseteq> set (cp_schemas c)"
  by (cases ep) (auto simp: operation_of_def operation_defs schemas_used_def List.map_filter_def api_doc_attribute_def)

lemma document_lacks_schemas:
  "oa_paths api_doc = [] \<and> map_option cp_schemas (oa_components api_doc) = Some []"
  by (simp add: api_doc_def bearer_auth_modify_def api_doc_attribute_def)

section \<open>Which errors the stores report\<close>




definition repo_status :: "repo_error \<Rightarrow> nat" where
  "repo_status e = (case e of NotFound _ \<Rightarrow> 404 | CodeTaken _ \<Rightarrow> 409 | VersionConflict \<Rightarrow> 409
     | Unavailable \<Rightarrow> 503 | Internal _ \<Rightarrow> 500)"

lemma repo_status_response: "resp_status (into_response scope (app_error_of_repo e)) = repo_status e"
  by (cases e) (simp_all add: into_response_def repo_status_def Let_def)

lemma repo_status_simps [simp]:
  "repo_status (NotFound x) = 404" "repo_status (CodeTaken x) = 409" "repo_status VersionConflict = 409"
  "repo_status Unavailable = 503" "repo_status (Internal m) = 500"
  by (simp_all add: repo_status_def)








lemma sql_status_simps [simp]:
  "repo_status (map_sql_error out_of_range) = 500" "repo_status (map_sql_error empty_target) = 500"
  "repo_status (map_sql_error (Database (Some ''23514'') m)) = 500"
  "repo_status (map_sql_error (Database (Some ''2201W'') m)) = 500"
  "repo_status (map_sql_error (Database (Some ''23505'') m)) = 409"
  by (simp_all add: map_sql_error_def out_of_range_def empty_target_def)














section \<open>Which statuses the handlers answer\<close>

definition app_status :: "app_error \<Rightarrow> nat" where
  "app_status e = resp_status (into_response None e)"

lemma app_status_simps [simp]:
  "app_status App_NotFound = 404" "app_status App_CodeTaken = 409" "app_status App_VersionConflict = 409"
  "app_status App_Unavailable = 503" "app_status (App_Validation m fs) = 422" "app_status (App_Internal m) = 500"
  "app_status (App_InvalidBody st m) = st" "app_status (app_error_of_repo e) = repo_status e"
  by (simp_all add: app_status_def repo_status_response) (simp_all add: into_response_def Let_def)

lemma error_response_status [simp]: "resp_status (error_response scope e) = app_status e"
  by (cases e) (simp_all add: app_status_def error_response_def into_response_def Let_def)












section \<open>The statuses against the documentation\<close>










lemma by_method_cases: "by_method m es = E_Method_Not_Allowed \<or> by_method m es \<in> snd ` set es"
  by (auto simp: by_method_def split: option.split dest!: map_of_SomeD) (force)+



section \<open>Where paths lead\<close>

text \<open>The routes beside \<open>/{code}\<close>, one segment long; every one is a valid custom code.\<close>

definition reserved_routes :: "(string \<times> endpoint) list" where
  "reserved_routes =
     [(''healthz'', E_Healthz), (''readyz'', E_Readyz), (''version'', E_Version), (''slow'', E_Slow),
      (''slow-blocking'', E_Slow_Blocking), (''metrics'', E_Metrics), (''swagger-ui'', E_Swagger)]"

lemma code_char_no_slash: "list_all code_char code \<Longrightarrow> CHR ''/'' \<notin> set code"
  by (auto simp: list_all_iff code_char_def is_ascii_alphanumeric_def)

lemma valid_code_segment:
  "validate_custom_code code = Inr () \<Longrightarrow> code \<noteq> [] \<and> CHR ''/'' \<notin> set code"
  by (auto simp: validate_custom_code_def code_char_no_slash split: if_splits)

text \<open>A documented path with a code in the place of its parameter.\<close>

definition fill :: "string \<Rightarrow> string \<Rightarrow> string" where
  "fill code path =
     concat (map (\<lambda>seg. CHR ''/'' # (if seg = ''{code}'' then code else seg)) (tl (split_on CHR ''/'' path)))"





text \<open>The documentation UI takes one segment from \<open>/{code}\<close>, and no other documented path.\<close>

lemma swagger_path_simps [simp]:
  "swagger_path (fill seg ''/api/v1/links'') = False"
  "swagger_path (fill seg ''/api/v1/links/{code}'') = False"
  "swagger_path (fill seg ''/api/v1/links/{code}/stats'') = False"
  "swagger_path (fill seg ''/stats/top'') = False"
  "swagger_path (fill seg ''/auth/login'') = False"
  "swagger_path (fill seg ''/healthz'') = False"
  "swagger_path (fill seg ''/readyz'') = False"
  "swagger_path (fill seg ''/version'') = False"
  by (simp_all add: fill_def swagger_path_def starts_with_def)

lemma swagger_path_code:
  "CHR ''/'' \<notin> set seg \<Longrightarrow> swagger_path (CHR ''/'' # seg) \<longleftrightarrow> seg = ''swagger-ui''"
  by (auto simp: swagger_path_def starts_with_iff)

lemma route_segment:
  assumes "seg \<noteq> []" and "CHR ''/'' \<notin> set seg"
  shows "route ''GET'' (CHR ''/'' # seg) =
    (False, case map_of reserved_routes seg of Some other \<Rightarrow> other | None \<Rightarrow> path_code E_Redirect seg)"
  using assms swagger_path_code [OF assms(2)] split_on_notin [of "CHR ''/''" seg]
  by (auto simp: route_def public_route_def by_method_def reserved_routes_def)

section \<open>Properties\<close>





text \<open>C35: the short URL of a link with a custom code leads to the redirect of that code, unless the
  code is one of seven that the router keeps for its technical endpoints and the documentation UI;
  validation accepts all seven.\<close>

theorem short_urls_resolve:
  assumes "validate_custom_code code = Inr ()"
  shows "route ''GET'' (CHR ''/'' # code) =
      (False, case map_of reserved_routes code of Some other \<Rightarrow> other | None \<Rightarrow> E_Redirect code) \<and>
    list_all (\<lambda>c. validate_custom_code c = Inr ()) (map fst reserved_routes)"
proof -
  have "list_all (\<lambda>c. validate_custom_code c = Inr ()) (map fst reserved_routes)"
    by (simp add: reserved_routes_def validate_custom_code_def code_char_def is_ascii_alphanumeric_def)
  moreover have "path_code E_Redirect code = E_Redirect code"
    using assms by (simp add: validate_custom_code_Inr list_all_iff)
  ultimately show ?thesis
    using route_segment [of code] valid_code_segment [OF assms] by (simp split: option.split)
qed

theorem short_urls_resolve_witness:
  "route ''GET'' ''/slow'' = (False, E_Slow)"
  using short_urls_resolve [of "''slow''"]
  by (simp add: validate_custom_code_def code_char_def is_ascii_alphanumeric_def reserved_routes_def)

end
