(* ===== verification/Startup.thy ===== *)
theory Startup
  imports Sample_Service Grpc
begin

text \<open>
  The program from its start to its exit, \<open>shorty-server/src/main.rs\<close>: what \<open>main\<close> and \<open>run\<close> read from the
  environment and set up, with the recorder of \<open>crates/storage/src/telemetry.rs\<close>, and the life of the
  process afterwards, with the HTTP server, the gRPC server and the cleaner as tasks. The outside is the
  record \<open>outside\<close>: the environment variables, the databases the pools connect to (after the migrations),
  Redis, and whether an address can be bound. Tracing is left out but for its choice of format.
\<close>

section \<open>Metrics recorder\<close>

text \<open>
  \<open>METRICS_HANDLE\<close> is set once; the process has one global recorder, and installing a second one fails.
\<close>

record recorder =
  rec_handle :: bool
  rec_installed :: bool

definition latency_buckets :: "rat list" where
  "latency_buckets = [1/1000, 25/10000, 5/1000, 1/100, 25/1000, 5/100, 1/10, 25/100, 5/10, 1, 25/10]"

definition init_metrics :: "recorder \<Rightarrow> recorder run" where
  "init_metrics r =
     (if rec_handle r then Done r
      else if latency_buckets = [] \<or> rec_installed r then Panic
      else Done \<lparr>rec_handle = True, rec_installed = True\<rparr>)"

text \<open>\<open>run\<close> calls it twice; the second call returns the handle of the first.\<close>

lemma init_metrics_twice:
  assumes "rec_installed r \<longrightarrow> rec_handle r"
  shows "\<exists>r'. init_metrics r = Done r' \<and> init_metrics r' = Done r'"
  using assms by (auto simp: init_metrics_def latency_buckets_def)

lemma latency_buckets_sorted: "sorted_wrt (<) latency_buckets"
  by (simp add: latency_buckets_def)

text \<open>
  \<open>spawn_pool_metrics\<close>: a task that never ends and sets two gauges at once and then every five seconds, from
  the readings \<open>conns\<close> and \<open>idle\<close> of the pool.
\<close>

type_synonym gauges = "string \<rightharpoonup> f64"

definition set_pool_gauges :: "32 word \<Rightarrow> u64 \<Rightarrow> gauges \<Rightarrow> gauges" where
  "set_pool_gauges conns idle g =
     g(''db_pool_connections'' \<mapsto> f64_of_nat (unat conns), ''db_pool_idle_connections'' \<mapsto> f64_of_u64 idle)"

definition pool_metrics_period :: int where
  "pool_metrics_period = 5 * nanos_per_sec"

text \<open>The ticks up to a time, and the gauges they leave.\<close>

definition pool_ticks :: "instant \<Rightarrow> instant \<Rightarrow> instant list" where
  "pool_ticks start now =
     (if now < start then []
      else map (\<lambda>k. start + int k * pool_metrics_period) [0..<Suc (nat ((now - start) div pool_metrics_period))])"

definition spawn_pool_metrics ::
  "(instant \<Rightarrow> 32 word) \<Rightarrow> (instant \<Rightarrow> u64) \<Rightarrow> instant \<Rightarrow> gauges \<Rightarrow> instant \<Rightarrow> gauges" where
  "spawn_pool_metrics conns idle start g now =
     fold (\<lambda>t. set_pool_gauges (conns t) (idle t)) (pool_ticks start now) g"

text \<open>The gauges show the numbers of the last tick, at most five seconds ago, without rounding.\<close>

lemma pool_gauges_are_recent:
  assumes "start \<le> now" and idle: "\<And>t. unat (idle t) \<le> 2 ^ 53"
  shows "\<exists>t. t \<le> now \<and> now < t + pool_metrics_period \<and>
     spawn_pool_metrics conns idle start g now ''db_pool_connections'' = Some (Fin (of_nat (unat (conns t)))) \<and>
     spawn_pool_metrics conns idle start g now ''db_pool_idle_connections'' = Some (Fin (of_nat (unat (idle t))))"
proof -
  let ?q = "(now - start) div pool_metrics_period"
  let ?t = "start + ?q * pool_metrics_period"
  have pos: "0 < pool_metrics_period" by (simp add: pool_metrics_period_def)
  have "now - start = ?q * pool_metrics_period + (now - start) mod pool_metrics_period" by simp
  then have "?t \<le> now \<and> now < ?t + pool_metrics_period"
    using pos_mod_bound [OF pos, of "now - start"] pos_mod_sign [OF pos, of "now - start"] by linarith
  moreover have "0 \<le> ?q" using assms(1) pos by (simp add: pos_imp_zdiv_nonneg_iff)
  then have "\<exists>ts. pool_ticks start now = ts @ [?t]" using assms(1) by (simp add: pool_ticks_def)
  moreover have "unat (conns ?t) \<le> 2 ^ 53" using unsigned_less [of "conns ?t", where 'a = nat] by simp
  ultimately show ?thesis
    using idle [of ?t]
    by (intro exI [of _ ?t]) (auto simp: spawn_pool_metrics_def set_pool_gauges_def f64_of_u64_def f64_of_nat_exact)
qed

section \<open>Starting\<close>

record 'r outside =
  os_env :: env
  os_connect :: "nat \<Rightarrow> string \<Rightarrow> database option"
  os_manager :: "string \<Rightarrow> 'r option"
  os_bind :: "string \<Rightarrow> bool"

record 'r started =
  st_config :: config
  st_json_logs :: bool
  st_http_addr :: string
  st_grpc_addr :: string
  st_state :: "(backend, 'r) app_state"
  st_pool :: "database option"
  st_cleaner :: "backend cleaner"

definition cleanup_period :: int where
  "cleanup_period = 30 * nanos_per_sec"

definition shutdown_timeout :: int where
  "shutdown_timeout = 10 * nanos_per_sec"

definition init_tracing :: "env \<Rightarrow> bool" where
  "init_tracing env \<longleftrightarrow> env ''LOG_FORMAT'' = Some ''json''"

definition env_or :: "env \<Rightarrow> string \<Rightarrow> string \<Rightarrow> string" where
  "env_or env name other = (case env name of Some v \<Rightarrow> v | None \<Rightarrow> other)"

text \<open>The second pool, for the readiness check.\<close>

definition db_pool :: "(string \<Rightarrow> database option) \<Rightarrow> config \<Rightarrow> database option run" where
  "db_pool connect config =
     (case storage_type config of
        Postgres \<Rightarrow> (case connect (database_url config) of None \<Rightarrow> Panic | Some db \<Rightarrow> Done (Some db))
      | InMemory \<Rightarrow> Done None)"

definition run_start ::
  "('ek, 'dk) crypto \<Rightarrow> 'r outside \<Rightarrow> instant \<Rightarrow> recorder \<Rightarrow> 'r started run" where
  "run_start C os now recorder =
     run_bind (from_env C (os_env os)) (\<lambda>config.
     let http_addr = env_or (os_env os) ''LISTEN_ADDR'' ''0.0.0.0:8080'';
         grpc_addr = env_or (os_env os) ''GRPC_LISTEN_ADDR'' ''0.0.0.0:50051''
     in run_bind (init_metrics recorder) (\<lambda>recorder.
     run_bind (create_repository (os_connect os 0) config) (\<lambda>repo.
     let cache = create_cache (os_manager os) config;
         stats = stats_storage_new
     in run_bind (db_pool (os_connect os 1) config) (\<lambda>pool.
     run_bind (init_metrics recorder) (\<lambda>_.
     let state = \<lparr>as_repo = repo, as_stats = stats, as_cache = cache\<rparr>;
         cleaner = spawn_cleaner repo now
     in if \<not> os_bind os http_addr then Panic
        else Done \<lparr>st_config = config, st_json_logs = init_tracing (os_env os), st_http_addr = http_addr,
                   st_grpc_addr = grpc_addr, st_state = state, st_pool = pool, st_cleaner = cleaner\<rparr>)))))"

text \<open>
  \<open>main\<close>: the number of worker threads, \<open>None\<close> for the default of the runtime, which refuses zero.
\<close>

definition main_threads :: "env \<Rightarrow> u64 option run" where
  "main_threads env =
     (case env ''SHORTY_WORKER_THREADS'' of
        None \<Rightarrow> Done None
      | Some n \<Rightarrow> (case parse_u64 n of None \<Rightarrow> Panic | Some k \<Rightarrow> if k = 0 then Panic else Done (Some k)))"

definition main_start :: "('ek, 'dk) crypto \<Rightarrow> 'r outside \<Rightarrow> instant \<Rightarrow> 'r started run" where
  "main_start C os now =
     run_bind (main_threads (os_env os)) (\<lambda>_. run_start C os now \<lparr>rec_handle = False, rec_installed = False\<rparr>)"

lemma main_start_Done:
  assumes "main_start C os now = Done st"
  obtains repo where "from_env C (os_env os) = Done (st_config st)"
    and "create_repository (os_connect os 0) (st_config st) = Done repo"
    and "st_state st = \<lparr>as_repo = repo, as_stats = stats_storage_new, as_cache = create_cache (os_manager os) (st_config st)\<rparr>"
    and "st_cleaner st = spawn_cleaner repo now"
  using assms by (auto simp: main_start_def run_start_def run_bind_Done Let_def split: if_splits)

section \<open>The process and its tasks\<close>

datatype server_phase = Serving | Draining | Ended

text \<open>\<open>Closing\<close> carries the deadline of the final wait, \<open>Exited\<close> whether the cleaner had finished.\<close>

datatype main_phase = Waiting | Closing instant | Exited bool

record 's process =
  pr_http :: server_phase
  pr_grpc :: server_phase
  pr_main :: main_phase
  pr_cleaner :: "'s cleaner"
  pr_now :: instant

definition process_start :: "'s cleaner \<Rightarrow> instant \<Rightarrow> 's process" where
  "process_start cleaner now =
     \<lparr>pr_http = Serving, pr_grpc = Serving, pr_main = Waiting, pr_cleaner = cleaner, pr_now = now\<rparr>"

text \<open>
  What happens: the signal that the HTTP server waits for, which cancels the token; the end of a server
  that has drained its connections; a failure of the gRPC server, as when its address is invalid or
  authentication is off; the end of \<open>select!\<close>; steps of the cleaner; time; and the end of the final wait.
\<close>

datatype 's life_event =
    Signal
  | Http_Ends
  | Grpc_Ends
  | Grpc_Fails
  | Select
  | Cleaner "'s cleaner_event"
  | Passes instant
  | Finish

definition alive :: "'s process \<Rightarrow> bool" where
  "alive p \<longleftrightarrow> (case pr_main p of Exited _ \<Rightarrow> False | _ \<Rightarrow> True)"

text \<open>
  The shared token is the one of the cleaner. Time may pass at every moment and by any amount, so that
  a timer that is due may fire late.
\<close>

inductive life_step ::
  "'s link_repository \<Rightarrow> auth_config option \<Rightarrow> 's process \<Rightarrow> 's life_event \<Rightarrow> 's process \<Rightarrow> bool"
  for R :: "'s link_repository" and auth :: "auth_config option" where
  signal: "alive p \<Longrightarrow> pr_http p = Serving \<Longrightarrow>
    life_step R auth p Signal
      (p\<lparr>pr_http := Draining, pr_cleaner := (pr_cleaner p)\<lparr>cl_cancelled := True\<rparr>\<rparr>)"
| http_ends: "alive p \<Longrightarrow> pr_http p = Draining \<Longrightarrow> life_step R auth p Http_Ends (p\<lparr>pr_http := Ended\<rparr>)"
| grpc_ends: "alive p \<Longrightarrow> pr_grpc p = Serving \<Longrightarrow> cl_cancelled (pr_cleaner p) \<Longrightarrow> service_new auth \<noteq> Panic \<Longrightarrow>
    life_step R auth p Grpc_Ends (p\<lparr>pr_grpc := Ended\<rparr>)"
| grpc_fails: "alive p \<Longrightarrow> pr_grpc p = Serving \<Longrightarrow> life_step R auth p Grpc_Fails (p\<lparr>pr_grpc := Ended\<rparr>)"
| select: "pr_main p = Waiting \<Longrightarrow> pr_http p = Ended \<or> pr_grpc p = Ended \<Longrightarrow>
    life_step R auth p Select (p\<lparr>pr_main := Closing (pr_now p + shutdown_timeout)\<rparr>)"
| cleaner: "alive p \<Longrightarrow> cleaner_step R cleanup_period (pr_cleaner p) e c \<Longrightarrow> e \<noteq> Cancel \<Longrightarrow>
    (\<forall>t wall. e = Tick t wall \<longrightarrow> t = pr_now p) \<Longrightarrow>
    life_step R auth p (Cleaner e) (p\<lparr>pr_cleaner := c\<rparr>)"
| passes: "alive p \<Longrightarrow> pr_now p \<le> t \<Longrightarrow> life_step R auth p (Passes t) (p\<lparr>pr_now := t\<rparr>)"
| finish_done: "pr_main p = Closing d \<Longrightarrow> \<not> cl_running (pr_cleaner p) \<Longrightarrow>
    life_step R auth p Finish (p\<lparr>pr_main := Exited True\<rparr>)"
| finish_late: "pr_main p = Closing d \<Longrightarrow> d \<le> pr_now p \<Longrightarrow> cl_running (pr_cleaner p) \<Longrightarrow>
    life_step R auth p Finish (p\<lparr>pr_main := Exited False\<rparr>)"

inductive life_runs ::
  "'s link_repository \<Rightarrow> auth_config option \<Rightarrow> 's process \<Rightarrow> 's life_event list \<Rightarrow> 's process \<Rightarrow> bool"
  for R :: "'s link_repository" and auth :: "auth_config option" where
  life_nil: "life_runs R auth p [] p"
| life_more: "life_step R auth p e p1 \<Longrightarrow> life_runs R auth p1 es p2 \<Longrightarrow> life_runs R auth p (e # es) p2"

inductive_simps life_step_simps:
  "life_step R auth p Signal p'"
  "life_step R auth p Http_Ends p'"
  "life_step R auth p Grpc_Ends p'"
  "life_step R auth p Grpc_Fails p'"
  "life_step R auth p Select p'"
  "life_step R auth p (Cleaner e) p'"
  "life_step R auth p (Passes t) p'"
  "life_step R auth p Finish p'"

inductive_simps life_runs_simps:
  "life_runs R auth p [] p'"
  "life_runs R auth p (e # es) p'"

lemma alive_simps [simp]:
  "pr_main p = Waiting \<Longrightarrow> alive p" "pr_main p = Closing d \<Longrightarrow> alive p"
  "pr_main p = Exited b \<Longrightarrow> \<not> alive p"
  by (simp_all add: alive_def)

lemma alive_cases: "alive p \<Longrightarrow> pr_main p = Waiting \<or> (\<exists>d. pr_main p = Closing d)"
  by (cases "pr_main p") auto

section \<open>Progress\<close>

text \<open>The events that end something; ticks, requests and time may come without end.\<close>

fun ending :: "'s life_event \<Rightarrow> bool" where
  "ending (Cleaner e) \<longleftrightarrow> e = Exit"
| "ending (Passes t) \<longleftrightarrow> False"
| "ending _ \<longleftrightarrow> True"

definition left_to_end :: "'s process \<Rightarrow> nat" where
  "left_to_end p =
     (case pr_http p of Serving \<Rightarrow> 2 | Draining \<Rightarrow> 1 | Ended \<Rightarrow> 0) +
     (case pr_grpc p of Ended \<Rightarrow> 0 | _ \<Rightarrow> 1) +
     (case pr_main p of Waiting \<Rightarrow> 2 | Closing _ \<Rightarrow> 1 | Exited _ \<Rightarrow> 0) +
     (if cl_running (pr_cleaner p) then 1 else 0)"

lemma life_step_left:
  "life_step R auth p e p' \<Longrightarrow> left_to_end p' + (if ending e then 1 else 0) = left_to_end p"
  by (induction rule: life_step.induct)
     (auto simp: left_to_end_def cleaner_tick_def Let_def split_beta elim!: cleaner_step.cases
       split: server_phase.split main_phase.split)

lemma life_runs_left:
  "life_runs R auth p es p' \<Longrightarrow> left_to_end p' + length (filter ending es) = left_to_end p"
  by (induction rule: life_runs.induct) (auto dest: life_step_left)

text \<open>After the signal the token is cancelled and the HTTP server drains, or has ended.\<close>

definition signalled :: "'s process \<Rightarrow> bool" where
  "signalled p \<longleftrightarrow> pr_http p \<noteq> Serving \<and> cl_cancelled (pr_cleaner p)"

lemma cleaner_step_cancelled: "cleaner_step R period c e c' \<Longrightarrow> cl_cancelled c \<Longrightarrow> cl_cancelled c'"
  by (auto elim!: cleaner_step.cases simp: cleaner_tick_def Let_def split_beta)

lemma life_step_signalled:
  "life_step R auth p e p' \<Longrightarrow> signalled p \<or> e = Signal \<Longrightarrow> signalled p'"
  by (induction rule: life_step.induct) (auto simp: signalled_def dest: cleaner_step_cancelled)

lemma life_runs_signalled:
  "life_runs R auth p es p' \<Longrightarrow> signalled p \<or> Signal \<in> set es \<Longrightarrow> signalled p'"
  by (induction rule: life_runs.induct) (auto dest: life_step_signalled)

lemma signalled_progress:
  assumes "signalled p" and "alive p"
  shows "\<exists>e p'. ending e \<and> e \<noteq> Grpc_Fails \<and> life_step R auth p e p'"
proof (cases "pr_main p")
  case Waiting
  show ?thesis
  proof (cases "pr_http p")
    case Draining
    then show ?thesis using assms(2) life_step.http_ends ending.simps(4) life_event.distinct by metis
  next
    case Ended
    then show ?thesis using Waiting life_step.select ending.simps(7) life_event.distinct by metis
  qed (use assms(1) in \<open>simp add: signalled_def\<close>)
next
  case (Closing d)
  show ?thesis
  proof (cases "cl_running (pr_cleaner p)")
    case True
    then have "cleaner_step R cleanup_period (pr_cleaner p) Exit ((pr_cleaner p)\<lparr>cl_running := False\<rparr>)"
      using assms(1) by (simp add: cleaner_step.exit signalled_def)
    then have "life_step R auth p (Cleaner Exit) (p\<lparr>pr_cleaner := (pr_cleaner p)\<lparr>cl_running := False\<rparr>\<rparr>)"
      using assms(2) by (intro life_step.cleaner) auto
    then show ?thesis by (meson ending.simps(1) life_event.distinct)
  next
    case False
    then show ?thesis using Closing life_step.finish_done ending.simps(8) life_event.distinct by metis
  qed
qed (use assms(2) in simp)

section \<open>Causes of an exit\<close>

text \<open>What holds of every process that has had no signal, and of one whose gRPC server has not failed.\<close>

definition unsignalled :: "'s process \<Rightarrow> bool" where
  "unsignalled p \<longleftrightarrow> pr_http p = Serving \<and> \<not> cl_cancelled (pr_cleaner p) \<and> cl_running (pr_cleaner p) \<and>
     pr_main p \<noteq> Exited True"

lemma life_step_unsignalled:
  "life_step R auth p e p' \<Longrightarrow> unsignalled p \<Longrightarrow> e \<noteq> Signal \<Longrightarrow> unsignalled p'"
  by (induction rule: life_step.induct)
     (auto simp: unsignalled_def cleaner_tick_def Let_def split_beta elim!: cleaner_step.cases)

lemma life_runs_unsignalled:
  "life_runs R auth p es p' \<Longrightarrow> unsignalled p \<Longrightarrow> Signal \<notin> set es \<Longrightarrow> unsignalled p'"
  by (induction rule: life_runs.induct) (auto dest: life_step_unsignalled)

definition undisturbed :: "'s process \<Rightarrow> bool" where
  "undisturbed p \<longleftrightarrow> pr_http p = Serving \<and> \<not> cl_cancelled (pr_cleaner p) \<and> pr_grpc p = Serving \<and>
     pr_main p = Waiting"

lemma life_step_undisturbed:
  "life_step R auth p e p' \<Longrightarrow> undisturbed p \<Longrightarrow> e \<noteq> Signal \<Longrightarrow> e \<noteq> Grpc_Fails \<Longrightarrow> undisturbed p'"
  by (induction rule: life_step.induct)
     (auto simp: undisturbed_def cleaner_tick_def Let_def split_beta elim!: cleaner_step.cases)

lemma life_runs_undisturbed:
  "life_runs R auth p es p' \<Longrightarrow> undisturbed p \<Longrightarrow> Signal \<notin> set es \<Longrightarrow> Grpc_Fails \<notin> set es \<Longrightarrow> undisturbed p'"
  by (induction rule: life_runs.induct) (auto dest: life_step_undisturbed)

section \<open>The final wait\<close>

text \<open>The time of the \<open>Select\<close> in a run, and the deadline that follows from it.\<close>

fun select_time :: "instant \<Rightarrow> 's life_event list \<Rightarrow> instant option" where
  "select_time now [] = None"
| "select_time now (Select # es) = Some now"
| "select_time now (Passes t # es) = select_time t es"
| "select_time now (_ # es) = select_time now es"

lemma closing_step:
  assumes "life_step R auth p e p'" and "pr_main p = Closing d"
  shows "pr_main p' = Closing d \<or> pr_main p' = Exited True \<or> pr_main p' = Exited False \<and> d \<le> pr_now p'"
  using assms by (induction rule: life_step.induct) auto

lemma exited_stays: "life_runs R auth p es p' \<Longrightarrow> pr_main p = Exited b \<Longrightarrow> p' = p"
  by (induction rule: life_runs.induct) (auto elim: life_step.cases)

lemma closing_runs:
  "life_runs R auth p es p' \<Longrightarrow> pr_main p = Closing d \<Longrightarrow>
   pr_main p' = Closing d \<or> pr_main p' = Exited True \<or> pr_main p' = Exited False \<and> d \<le> pr_now p'"
proof (induction rule: life_runs.induct)
  case (life_more p e p1 es p2)
  from closing_step [OF life_more.hyps(1) life_more.prems] show ?case
    using life_more.IH exited_stays [OF life_more.hyps(2)] by auto
qed simp

lemma waiting_step:
  assumes "life_step R auth p e p'" and "pr_main p = Waiting"
  shows "(e = Select \<and> pr_main p' = Closing (pr_now p + shutdown_timeout)) \<or>
    (e \<noteq> Select \<and> pr_main p' = Waiting \<and> select_time (pr_now p) (e # es) = select_time (pr_now p') es)"
  using assms by (induction rule: life_step.induct) auto

lemma shutdown_timeout_pos: "0 \<le> shutdown_timeout"
  by (simp add: shutdown_timeout_def)

lemma final_wait:
  assumes "life_runs R auth p es p'" and "pr_main p = Waiting"
  shows "case select_time (pr_now p) es of
      None \<Rightarrow> pr_main p' = Waiting
    | Some t \<Rightarrow> pr_main p' = Closing (t + shutdown_timeout) \<or> pr_main p' = Exited True \<or>
        pr_main p' = Exited False \<and> t + shutdown_timeout \<le> pr_now p'"
  using assms
proof (induction rule: life_runs.induct)
  case (life_more p e p1 es p2)
  from waiting_step [OF life_more.hyps(1) life_more.prems, of es] show ?case
  proof (elim disjE conjE)
    assume sel: "e = Select" "pr_main p1 = Closing (pr_now p + shutdown_timeout)"
    from closing_runs [OF life_more.hyps(2) sel(2)] show ?thesis using sel(1) by simp
  next
    assume "pr_main p1 = Waiting" and "select_time (pr_now p) (e # es) = select_time (pr_now p1) es"
    then show ?thesis using life_more.IH by simp
  qed
qed simp

text \<open>Once the deadline has passed the wait can end, whether the cleaner has or not.\<close>

lemma overdue_can_finish:
  assumes "pr_main p = Closing d" and "d \<le> pr_now p"
  shows "\<exists>p'. life_step R auth p Finish p'"
  using assms by (cases "cl_running (pr_cleaner p)") (auto simp: life_step_simps)

section \<open>Samples\<close>

text \<open>An outside without a database, with Redis holding \<open>m\<close>.\<close>

definition sample_outside :: "env \<Rightarrow> (string \<rightharpoonup> string) \<Rightarrow> (string \<rightharpoonup> string) outside" where
  "sample_outside env m =
     \<lparr>os_env = env, os_connect = (\<lambda>_ _. None), os_manager = (\<lambda>_. Some m), os_bind = (\<lambda>_. True)\<rparr>"

lemma sample_start:
  assumes "env = Map.empty \<or> env = [''DISABLE_REDIS'' \<mapsto> ''1'']"
  shows "\<exists>st. main_start (sample_crypto ''x'') (sample_outside env m) 0 = Done st \<and>
    storage_type (st_config st) = InMemory \<and>
    st_state st = \<lparr>as_repo = Memory_Backend in_memory_new, as_stats = stats_storage_new,
      as_cache = (if env = Map.empty then cache_from_manager m cache_config_default else cache_disabled)\<rparr>"
  using assms
  by (auto simp: main_start_def main_threads_def run_start_def sample_outside_def from_env_def from_env_numbers_def
      from_env_storage_def from_env_cache_def from_env_auth_def env_number_def env_text_def config_default_def
      init_metrics_def latency_buckets_def create_repository_def create_cache_def cache_connect_def db_pool_def
      cache_config_default_def Let_def)

text \<open>
  Redis outlives the process and the in-memory store does not: after a restart the store is empty, and
  a link that was cached is still answered.
\<close>

lemma restart_serves_old_link:
  "\<exists>st s'. main_start (sample_crypto ''x'') (sample_outside Map.empty [link_key ''abcd'' \<mapsto> ''0'']) 0 = Done st \<and>
     backend_view (as_repo (st_state st)) ''abcd'' = None \<and>
     get_link sample_service ''abcd'' 0 (st_state st) = (Done (Inr (sample_response 0)), s')"
proof -
  obtain st where st: "main_start (sample_crypto ''x'') (sample_outside Map.empty [link_key ''abcd'' \<mapsto> ''0'']) 0 = Done st"
    "st_state st = \<lparr>as_repo = Memory_Backend in_memory_new, as_stats = stats_storage_new,
       as_cache = cache_from_manager [link_key ''abcd'' \<mapsto> ''0''] cache_config_default\<rparr>"
    using sample_start [of Map.empty "[link_key ''abcd'' \<mapsto> ''0'']"] by auto
  have "\<exists>s'. get_link sample_service ''abcd'' 0 (st_state st) = (Done (Inr (sample_response 0)), s')"
    unfolding st(2) get_link_def sample_service_def
    by (simp add: cache_get_def cache_from_manager_def map_redis_def sample_link_values record_cache_hit_def Let_def)
  moreover have "backend_view (as_repo (st_state st)) ''abcd'' = None"
    by (simp add: st(2) in_memory_view_def in_memory_new_def)
  ultimately show ?thesis using st(1) by blast
qed

text \<open>
  \<open>select!\<close> ends with the first server: after a signal the gRPC server may be the first, and then the
  process exits while the HTTP server is still serving requests it has accepted.
\<close>

lemma exit_cuts_http_requests:
  "\<exists>p. life_runs R (Some config) (process_start (spawn_cleaner repo 0) 0)
     [Signal, Grpc_Ends, Select, Cleaner Exit, Finish] p \<and> pr_main p = Exited True \<and> pr_http p = Draining"
  by (simp add: life_runs_simps life_step_simps cleaner_step_simps process_start_def spawn_cleaner_def service_new_def)

section \<open>Properties\<close>

text \<open>C23: the server starts on a consistent state: a store that keeps its invariant, empty if it is
  in memory, statistics that are empty, and a cache that agrees with the store if Redis holds no entry of a
  link; it starts exactly if the environment is well-formed, the databases it is configured for can be
  reached, and the address can be bound.\<close>

theorem server_starts_coherent:
  assumes "\<And>k url db. os_connect os k url = Some db \<Longrightarrow> pg_inv db"
    and "\<And>url m code. os_manager os url = Some m \<Longrightarrow> contents m (link_key code) = None"
  shows "(main_start C os now = Panic \<longleftrightarrow>
      main_threads (os_env os) = Panic \<or> from_env C (os_env os) = Panic \<or>
      \<not> os_bind os (env_or (os_env os) ''LISTEN_ADDR'' ''0.0.0.0:8080'') \<or>
      (\<exists>config. from_env C (os_env os) = Done config \<and> storage_type config = Postgres \<and>
         (os_connect os 0 (database_url config) = None \<or> os_connect os 1 (database_url config) = None))) \<and>
    (\<forall>st. main_start C os now = Done st \<longrightarrow>
       coherent_state backend_inv backend_view sv contents (st_state st) \<and>
       as_stats (st_state st) = stats_storage_new \<and> cl_repo (st_cleaner st) = as_repo (st_state st) \<and>
       (storage_type (st_config st) = InMemory \<longrightarrow> backend_view (as_repo (st_state st)) = Map.empty))"
proof (intro conjI allI impI)
  show "main_start C os now = Panic \<longleftrightarrow>
      main_threads (os_env os) = Panic \<or> from_env C (os_env os) = Panic \<or>
      \<not> os_bind os (env_or (os_env os) ''LISTEN_ADDR'' ''0.0.0.0:8080'') \<or>
      (\<exists>config. from_env C (os_env os) = Done config \<and> storage_type config = Postgres \<and>
         (os_connect os 0 (database_url config) = None \<or> os_connect os 1 (database_url config) = None))"
    by (cases "from_env C (os_env os)"; cases "main_threads (os_env os)")
       (auto simp: main_start_def run_start_def init_metrics_def latency_buckets_def Let_def
          create_repository_def db_pool_def split: storage_type.splits option.splits if_splits)
next
  fix st
  assume Done: "main_start C os now = Done st"
  obtain repo where st: "create_repository (os_connect os 0) (st_config st) = Done repo"
    "st_state st = \<lparr>as_repo = repo, as_stats = stats_storage_new, as_cache = create_cache (os_manager os) (st_config st)\<rparr>"
    "st_cleaner st = spawn_cleaner repo now"
    using main_start_Done [OF Done] by metis
  have "cache_coherent sv contents v (create_cache (os_manager os) config)" for v config
    using assms(2) by (auto simp: create_cache_def cache_coherent_disabled cache_connect_def Let_def
        cache_coherent_def cached_def cache_from_manager_def cache_disabled_def split: option.splits)
  then show "coherent_state backend_inv backend_view sv contents (st_state st)"
    "as_stats (st_state st) = stats_storage_new" "cl_repo (st_cleaner st) = as_repo (st_state st)"
    using create_repository_inv [OF st(1)] assms(1) st(2,3) by (auto simp: coherent_state_def spawn_cleaner_def)
  show "backend_view (as_repo (st_state st)) = Map.empty" if "storage_type (st_config st) = InMemory"
    using create_repository_inv [OF st(1)] assms(1) st(2) that by simp
qed

theorem server_starts_coherent_witness:
  "\<exists>st. main_start (sample_crypto ''x'') (sample_outside [''DISABLE_REDIS'' \<mapsto> ''1''] Map.empty) 0 = Done st \<and>
     backend_view (as_repo (st_state st)) = Map.empty"
proof -
  let ?os = "sample_outside [''DISABLE_REDIS'' \<mapsto> ''1''] Map.empty"
  obtain st where st: "main_start (sample_crypto ''x'') ?os 0 = Done st" "storage_type (st_config st) = InMemory"
    using sample_start [of "[''DISABLE_REDIS'' \<mapsto> ''1'']" Map.empty] by auto
  have "os_connect ?os k url = Some db \<Longrightarrow> pg_inv db" for k url db by (simp add: sample_outside_def)
  moreover have "os_manager ?os url = Some m \<Longrightarrow> m (link_key code) = None" for url m code
    by (auto simp: sample_outside_def)
  ultimately show ?thesis
    using server_starts_coherent [of ?os "\<lambda>m. m" "sample_crypto ''x''" 0 sample_service] st by blast
qed

text \<open>C24: shutdown terminates: in every run of the process at most six steps end anything, and after
  a signal one of them, not a failure, is enabled until the process has exited, so it exits under every
  schedule that keeps running its tasks.\<close>

theorem shutdown_terminates:
  assumes "life_runs R auth (process_start (spawn_cleaner repo now) now) es p"
  shows "length (filter ending es) \<le> 6 \<and>
    (Signal \<in> set es \<and> alive p \<longrightarrow> (\<exists>e p'. ending e \<and> e \<noteq> Grpc_Fails \<and> life_step R auth p e p'))"
proof -
  have "left_to_end (process_start (spawn_cleaner repo now) now) = 6"
    by (simp add: left_to_end_def process_start_def spawn_cleaner_def)
  then show ?thesis
    using life_runs_left [OF assms] life_runs_signalled [OF assms] signalled_progress by auto
qed

theorem shutdown_terminates_witness:
  "\<exists>p e p'. life_runs in_memory_ops None (process_start (spawn_cleaner in_memory_new 0) 0) [Signal, Http_Ends] p \<and>
     ending e \<and> e \<noteq> Grpc_Fails \<and> life_step in_memory_ops None p e p'"
proof -
  obtain p where p: "life_runs in_memory_ops None (process_start (spawn_cleaner in_memory_new 0) 0) [Signal, Http_Ends] p"
    "alive p"
    by (simp add: life_runs_simps life_step_simps process_start_def spawn_cleaner_def alive_def)
  then show ?thesis using shutdown_terminates [OF p(1)] by auto
qed

text \<open>C29: the process exits for a reason: only after a signal or a failure of the gRPC server.
  Without a signal the cleaner is never told, so that the exit is then never a clean one. Nothing exits
  before \<open>select!\<close> has returned; from then on the process gives up on the cleaner only after
  ten seconds, and once they are over its exit is enabled. How late after that a timer fires is not
  bounded.\<close>

theorem exit_has_a_cause:
  assumes "life_runs R auth (process_start (spawn_cleaner repo now) now) es p"
  shows "(\<forall>b. pr_main p = Exited b \<longrightarrow>
      (Signal \<in> set es \<or> Grpc_Fails \<in> set es) \<and> (Signal \<notin> set es \<longrightarrow> \<not> b)) \<and>
    (case select_time now es of
       None \<Rightarrow> pr_main p = Waiting
     | Some t \<Rightarrow> pr_main p \<noteq> Waiting \<and>
         (pr_main p = Exited False \<longrightarrow> t + shutdown_timeout \<le> pr_now p) \<and>
         (alive p \<and> t + shutdown_timeout \<le> pr_now p \<longrightarrow> (\<exists>p'. life_step R auth p Finish p')))"
proof -
  let ?start = "process_start (spawn_cleaner repo now) now"
  have "undisturbed ?start" "unsignalled ?start" "pr_main ?start = Waiting" "pr_now ?start = now"
    by (simp_all add: undisturbed_def unsignalled_def process_start_def spawn_cleaner_def)
  note start = this
  have "Signal \<in> set es \<or> Grpc_Fails \<in> set es" if "pr_main p = Exited b" for b
    using life_runs_undisturbed [OF assms start(1)] that by (auto simp: undisturbed_def)
  moreover have "\<not> b" if "pr_main p = Exited b" and "Signal \<notin> set es" for b
    using life_runs_unsignalled [OF assms start(2) that(2)] that(1) by (auto simp: unsignalled_def)
  moreover have "\<exists>p'. life_step R auth p Finish p'" if "pr_main p = Closing d" and "d \<le> pr_now p" for d
    by (rule overdue_can_finish [OF that])
  ultimately show ?thesis
    using final_wait [OF assms start(3)] start(4) by (auto simp: alive_def split: option.splits)
qed

theorem exit_has_a_cause_witness:
  "\<exists>p. life_runs in_memory_ops None (process_start (spawn_cleaner in_memory_new 0) 0)
     [Grpc_Fails, Select, Passes shutdown_timeout] p \<and> (\<exists>p'. life_step in_memory_ops None p Finish p')"
proof -
  obtain p where p: "life_runs in_memory_ops None (process_start (spawn_cleaner in_memory_new 0) 0)
      [Grpc_Fails, Select, Passes shutdown_timeout] p" "alive p" "pr_now p = shutdown_timeout"
    using shutdown_timeout_pos
    by (simp add: life_runs_simps life_step_simps process_start_def spawn_cleaner_def alive_def)
  then show ?thesis using exit_has_a_cause [OF p(1)] by auto
qed

end
