(* ===== verification/Async_Tasks.thy ===== *)
theory Async_Tasks
  imports Sample_Service
begin

text \<open>
  The handlers of \<open>shorty-server/src/api/handlers.rs\<close> as the runtime executes them: an \<open>async fn\<close> gives way
  at every \<open>await\<close>, and other requests run in between. A task is a handler with the \<open>await\<close> it has
  come to and what it holds in its local variables; one step runs up to the end of the next call of the
  store or of the cache. \<open>schedule\<close> runs the steps of several tasks in any given order. A task that is
  left alone computes what the handler's definition in \<open>Handlers\<close> computes.
\<close>

section \<open>Tasks and their steps\<close>

datatype redirect_phase =
    Redirect_Get
  | Redirect_Hit short_link
  | Redirect_Invalidate short_link
  | Redirect_Done "app_error + unit http_response"

datatype get_phase =
    Get_Cache
  | Get_Stats
  | Get_Set link_response
  | Get_Done "(app_error + link_response) run"

datatype update_phase =
    Update_Repo
  | Update_Invalidate short_link
  | Update_Done "app_error + link_response"

datatype delete_phase =
    Delete_Repo
  | Delete_Invalidate
  | Delete_Done "app_error + nat"

text \<open>The URL, the expiry and the custom code that the checks before the first call have found.\<close>

type_synonym create_plan = "string \<times> system_time option \<times> string option"

datatype create_phase =
    Create_Start
  | Create_Try create_plan nat
  | Create_Stats string
  | Create_Done "(app_error + link_response http_response) run"

text \<open>What a creation draws: the clock for the expiry, the candidate codes and the clock at each insert.\<close>

record create_draws =
  cd_now :: system_time
  cd_codes :: "nat \<Rightarrow> string"
  cd_clock :: "nat \<Rightarrow> system_time"

datatype task =
    Redirect string system_time system_time redirect_phase
  | Get string i64 get_phase
  | Update string update_link_request system_time update_phase
  | Delete string delete_phase
  | Create create_link_request create_draws create_phase

definition redirect_step ::
  "('s, 'r) services \<Rightarrow> string \<Rightarrow> system_time \<Rightarrow> system_time \<Rightarrow> redirect_phase \<Rightarrow>
   ('s, 'r) app_state \<Rightarrow> redirect_phase \<times> ('s, 'r) app_state" where
  "redirect_step sv code now hit p s =
     (case p of
        Redirect_Get \<Rightarrow>
          (case on_repo (repo_get (sv_repo sv) code) s of
             (Inl e, s') \<Rightarrow> (Redirect_Done (Inl (app_error_of_repo e)), s')
           | (Inr l, s') \<Rightarrow>
               (if is_expired l now then Redirect_Done (Inl App_NotFound) else Redirect_Hit l, s'))
      | Redirect_Hit l \<Rightarrow>
          (case on_repo (repo_record_hit (sv_repo sv) code hit) s of
             (Inl e, s') \<Rightarrow> (Redirect_Done (Inl (app_error_of_repo e)), s')
           | (Inr _, s') \<Rightarrow> (Redirect_Invalidate l, s'))
      | Redirect_Invalidate l \<Rightarrow>
          (Redirect_Done (Inr \<lparr>resp_status = 307, resp_headers = [(''location'', link_target_url l)],
                            resp_body = ()\<rparr>),
           s\<lparr>as_cache := cache_invalidate (sv_redis sv) (link_key code) (as_cache s)\<rparr>)
      | Redirect_Done r \<Rightarrow> (Redirect_Done r, s))"

definition get_step ::
  "('s, 'r) services \<Rightarrow> string \<Rightarrow> i64 \<Rightarrow> get_phase \<Rightarrow> ('s, 'r) app_state \<Rightarrow> get_phase \<times> ('s, 'r) app_state" where
  "get_step sv code offset p s =
     (case p of
        Get_Cache \<Rightarrow>
          (let (cached, c) = cache_get (sv_redis sv) (response_from_json sv) (link_key code) (as_cache s)
           in (case cached of Some response \<Rightarrow> Get_Done (Done (Inr response)) | None \<Rightarrow> Get_Stats,
               s\<lparr>as_cache := c\<rparr>))
      | Get_Stats \<Rightarrow>
          (case on_repo (repo_stats (sv_repo sv) code) s of
             (Inl e, s') \<Rightarrow> (Get_Done (Done (Inl (app_error_of_repo e))), s')
           | (Inr stats, s') \<Rightarrow> (Get_Set (link_response_of_stats stats), s'))
      | Get_Set response \<Rightarrow>
          (let (r, c) = cache_set (sv_redis sv) (response_to_json sv) offset (link_key code) response (as_cache s)
           in (Get_Done (case r of Panic \<Rightarrow> Panic | Done _ \<Rightarrow> Done (Inr response)), s\<lparr>as_cache := c\<rparr>))
      | Get_Done r \<Rightarrow> (Get_Done r, s))"

definition update_step ::
  "('s, 'r) services \<Rightarrow> string \<Rightarrow> update_link_request \<Rightarrow> system_time \<Rightarrow> update_phase \<Rightarrow>
   ('s, 'r) app_state \<Rightarrow> update_phase \<times> ('s, 'r) app_state" where
  "update_step sv code req now p s =
     (case p of
        Update_Repo \<Rightarrow>
          (case parse_target_url (url_parse sv) (ur_target_url req) of
             Inl e \<Rightarrow> (Update_Done (Inl e), s)
           | Inr u \<Rightarrow>
               (case on_repo (repo_update (sv_repo sv) code (url_text u) (ur_version req) now) s of
                  (Inl e, s') \<Rightarrow> (Update_Done (Inl (app_error_of_repo e)), s')
                | (Inr l, s') \<Rightarrow> (Update_Invalidate l, s')))
      | Update_Invalidate l \<Rightarrow>
          (Update_Done (Inr (link_response_of_link l)),
           s\<lparr>as_cache := cache_invalidate (sv_redis sv) (link_key code) (as_cache s)\<rparr>)
      | Update_Done r \<Rightarrow> (Update_Done r, s))"

definition delete_step ::
  "('s, 'r) services \<Rightarrow> string \<Rightarrow> delete_phase \<Rightarrow> ('s, 'r) app_state \<Rightarrow> delete_phase \<times> ('s, 'r) app_state" where
  "delete_step sv code p s =
     (case p of
        Delete_Repo \<Rightarrow>
          (case on_repo (repo_remove (sv_repo sv) code) s of
             (Inl e, s') \<Rightarrow> (Delete_Done (Inl (app_error_of_repo e)), s')
           | (Inr _, s') \<Rightarrow> (Delete_Invalidate, s'))
      | Delete_Invalidate \<Rightarrow>
          (Delete_Done (Inr 204),
           s\<lparr>as_cache := cache_invalidate (sv_redis sv) (link_key code) (as_cache s)\<rparr>)
      | Delete_Done r \<Rightarrow> (Delete_Done r, s))"

text \<open>The checks at the start of \<open>create_link\<close>, the \<open>i\<close>-th insert, and the final read.\<close>

definition create_checks ::
  "('s, 'r) services \<Rightarrow> create_link_request \<Rightarrow> system_time \<Rightarrow> (app_error + create_plan) run" where
  "create_checks sv req now =
     (case parse_target_url (url_parse sv) (cr_target_url req) of
        Inl e \<Rightarrow> Done (Inl e)
      | Inr u \<Rightarrow>
     (case expires_at_from_ttl (cr_ttl_seconds req) now of
        Panic \<Rightarrow> Panic
      | Done (Inl e) \<Rightarrow> Done (Inl e)
      | Done (Inr expires_at) \<Rightarrow>
     (case cr_custom_code req of
        None \<Rightarrow> Done (Inr (url_text u, expires_at, None))
      | Some code \<Rightarrow>
          (case validate_custom_code code of
             Inl e \<Rightarrow> Done (Inl e)
           | Inr _ \<Rightarrow> Done (Inr (url_text u, expires_at, Some code))))))"

definition create_try ::
  "('s, 'r) services \<Rightarrow> create_draws \<Rightarrow> create_plan \<Rightarrow> nat \<Rightarrow> ('s, 'r) app_state \<Rightarrow>
   create_phase \<times> ('s, 'r) app_state" where
  "create_try sv d plan i s =
     (case plan of
        (url, expires_at, Some code) \<Rightarrow>
          (case try_insert_link sv code url expires_at (cd_clock d 0) s of
             (Inl e, s') \<Rightarrow> (Create_Done (Done (Inl (app_error_of_repo e))), s')
           | (Inr _, s') \<Rightarrow> (Create_Stats code, s'))
      | (url, expires_at, None) \<Rightarrow>
          if i < unat (max_generate_attempts (sv_config sv))
          then (case try_insert_link sv (cd_codes d i) url expires_at (cd_clock d i) s of
                  (Inr _, s') \<Rightarrow> (Create_Stats (cd_codes d i), s')
                | (Inl (CodeTaken _), s') \<Rightarrow> (Create_Try plan (Suc i), s')
                | (Inl other, s') \<Rightarrow> (Create_Done (Done (Inl (app_error_of_repo other))), s'))
          else (Create_Done (Done (Inl (App_Internal (''failed to generate a unique code in '' @
                  show_nat (unat (max_generate_attempts (sv_config sv))) @ '' attempts'')))), s))"

definition create_step ::
  "('s, 'r) services \<Rightarrow> create_link_request \<Rightarrow> create_draws \<Rightarrow> create_phase \<Rightarrow>
   ('s, 'r) app_state \<Rightarrow> create_phase \<times> ('s, 'r) app_state" where
  "create_step sv req d p s =
     (case p of
        Create_Start \<Rightarrow>
          (case create_checks sv req (cd_now d) of
             Panic \<Rightarrow> (Create_Done Panic, s)
           | Done (Inl e) \<Rightarrow> (Create_Done (Done (Inl e)), s)
           | Done (Inr plan) \<Rightarrow> create_try sv d plan 0 s)
      | Create_Try plan i \<Rightarrow> create_try sv d plan i s
      | Create_Stats code \<Rightarrow>
          (case on_repo (repo_stats (sv_repo sv) code) s of
             (Inl e, s') \<Rightarrow> (Create_Done (Done (Inl (app_error_of_repo e))), s')
           | (Inr stats, s') \<Rightarrow>
               (Create_Done (Done (Inr \<lparr>resp_status = 201, resp_headers = [(''location'', links_path code)],
                                     resp_body = link_response_of_stats stats\<rparr>)), s'))
      | Create_Done r \<Rightarrow> (Create_Done r, s))"

fun task_step ::
  "('s, 'r) services \<Rightarrow> task \<Rightarrow> ('s, 'r) app_state \<Rightarrow> task \<times> ('s, 'r) app_state" where
  "task_step sv (Redirect code now hit p) s =
     (let (p', s') = redirect_step sv code now hit p s in (Redirect code now hit p', s'))"
| "task_step sv (Get code offset p) s = (let (p', s') = get_step sv code offset p s in (Get code offset p', s'))"
| "task_step sv (Update code req now p) s =
     (let (p', s') = update_step sv code req now p s in (Update code req now p', s'))"
| "task_step sv (Delete code p) s = (let (p', s') = delete_step sv code p s in (Delete code p', s'))"
| "task_step sv (Create req d p) s = (let (p', s') = create_step sv req d p s in (Create req d p', s'))"

text \<open>The schedule names the task of each step; a number past the end names none.\<close>

fun schedule ::
  "('s, 'r) services \<Rightarrow> nat list \<Rightarrow> task list \<Rightarrow> ('s, 'r) app_state \<Rightarrow> task list \<times> ('s, 'r) app_state" where
  "schedule sv [] ts s = (ts, s)"
| "schedule sv (i # is) ts s =
     (if i < length ts
      then let (t, s') = task_step sv (ts ! i) s in schedule sv is (ts[i := t]) s'
      else schedule sv is ts s)"

section \<open>A task alone is its handler\<close>

fun steps_of :: "('s, 'r) services \<Rightarrow> nat \<Rightarrow> task \<Rightarrow> ('s, 'r) app_state \<Rightarrow> task \<times> ('s, 'r) app_state" where
  "steps_of sv 0 t s = (t, s)"
| "steps_of sv (Suc n) t s = (let (t', s') = task_step sv t s in steps_of sv n t' s')"

lemmas step_defs =
  redirect_step_def get_step_def update_step_def delete_step_def
  h_bind_def h_repo_def on_repo_def h_result_def h_invalidate_def repo_result_def Let_def

lemma redirect_alone:
  "\<exists>r s'. redirect sv code now hit s = (Done r, s') \<and>
     steps_of sv 3 (Redirect code now hit Redirect_Get) s = (Redirect code now hit (Redirect_Done r), s')"
  by (auto simp: numeral_3_eq_3 redirect_def step_defs split: prod.splits sum.splits)

lemma get_alone:
  "steps_of sv 3 (Get code offset Get_Cache) s =
     (let (r, s') = get_link sv code offset s in (Get code offset (Get_Done r), s'))"
  by (auto simp: numeral_3_eq_3 get_link_def step_defs split: prod.splits sum.splits option.splits)

lemma update_alone:
  "\<exists>r s'. update_link sv code req now s = (Done r, s') \<and>
     steps_of sv 2 (Update code req now Update_Repo) s = (Update code req now (Update_Done r), s')"
  by (auto simp: numeral_2_eq_2 update_link_def step_defs split: prod.splits sum.splits)

lemma delete_alone:
  "\<exists>r s'. delete_link sv code s = (Done r, s') \<and>
     steps_of sv 2 (Delete code Delete_Repo) s = (Delete code (Delete_Done r), s')"
  by (auto simp: numeral_2_eq_2 delete_link_def step_defs split: prod.splits sum.splits)

text \<open>A creation takes as many steps as it tries codes, and one for the final read.\<close>

lemma steps_of_done:
  "steps_of sv n (Create req d (Create_Done r)) s = (Create req d (Create_Done r), s)"
  by (induction n) (simp_all add: create_step_def)

lemma steps_of_stats:
  "steps_of sv (Suc n) (Create req d (Create_Stats code)) s =
     (let (r, s') = h_bind (h_repo (repo_stats (sv_repo sv) code)) (\<lambda>stats.
        h_result (Inr \<lparr>resp_status = 201, resp_headers = [(''location'', links_path code)],
                     resp_body = link_response_of_stats stats\<rparr>)) s
      in (Create req d (Create_Done r), s'))"
  by (auto simp: create_step_def step_defs steps_of_done split: prod.splits sum.splits)

lemma steps_of_generate:
  assumes "i + n = unat (max_generate_attempts (sv_config sv))"
  shows "steps_of sv (n + 2) (Create req d (Create_Try (url, expires, None) i)) s =
    (let (r, s') = h_bind (generate_code_from sv url expires (cd_codes d) (cd_clock d) i n) (\<lambda>code.
       h_bind (h_repo (repo_stats (sv_repo sv) code)) (\<lambda>stats.
       h_result (Inr \<lparr>resp_status = 201, resp_headers = [(''location'', links_path code)],
                    resp_body = link_response_of_stats stats\<rparr>))) s
     in (Create req d (Create_Done r), s'))"
  using assms
proof (induction n arbitrary: i s)
  case 0
  then show ?case by (simp add: create_step_def create_try_def h_bind_def steps_of_done numeral_2_eq_2)
next
  case (Suc n)
  obtain r s' where ins: "try_insert_link sv (cd_codes d i) url expires (cd_clock d i) s = (r, s')" by fastforce
  have i: "i < unat (max_generate_attempts (sv_config sv))" using Suc.prems by simp
  show ?case
  proof (cases r)
    case (Inr u)
    then show ?thesis
      using ins i steps_of_stats [of sv "Suc n"] by (simp add: create_step_def create_try_def h_bind_def)
  next
    case (Inl e)
    then show ?thesis
      using ins i Suc.IH [of "Suc i" s'] Suc.prems
      by (cases e) (simp_all add: create_step_def create_try_def h_bind_def steps_of_done)
  qed
qed




lemma create_alone:
  "steps_of sv (unat (max_generate_attempts (sv_config sv)) + 2)
     (Create req \<lparr>cd_now = now, cd_codes = codes, cd_clock = clock\<rparr> Create_Start) s =
   (let (r, s') = create_link sv req now codes clock s
    in (Create req \<lparr>cd_now = now, cd_codes = codes, cd_clock = clock\<rparr> (Create_Done r), s'))"
proof -
  let ?d = "\<lparr>cd_now = now, cd_codes = codes, cd_clock = clock\<rparr>"
  let ?n = "unat (max_generate_attempts (sv_config sv))"
  show ?thesis
  proof (cases "create_checks sv req now")
    case Panic
    then show ?thesis
      by (auto simp: create_step_def create_checks_def create_link_def insert_code_def h_bind_def h_result_def
          h_run_def steps_of_done numeral_2_eq_2 split: sum.splits run.splits option.splits)
  next
    case (Done checked)
    show ?thesis
    proof (cases checked)
      case (Inl e)
      then show ?thesis
        using Done
        by (auto simp: create_step_def create_checks_def create_link_def insert_code_def h_bind_def h_result_def
            h_run_def steps_of_done numeral_2_eq_2 split: sum.splits run.splits option.splits)
    next
      case (Inr plan)
      obtain url expires custom where plan: "plan = (url, expires, custom)" by (cases plan) auto
      have link: "create_link sv req now codes clock s = h_bind (insert_code sv custom url expires codes clock) (\<lambda>code.
          h_bind (h_repo (repo_stats (sv_repo sv) code)) (\<lambda>stats.
          h_result (Inr \<lparr>resp_status = 201, resp_headers = [(''location'', links_path code)],
                       resp_body = link_response_of_stats stats\<rparr>))) s"
        and valid: "\<forall>code. custom = Some code \<longrightarrow> validate_custom_code code = Inr ()"
        using Done Inr plan
        by (auto simp: create_checks_def create_link_def h_bind_def h_result_def h_run_def
            split: sum.splits run.splits option.splits)
      have start: "steps_of sv (?n + 2) (Create req ?d Create_Start) s =
          steps_of sv (?n + 2) (Create req ?d (Create_Try plan 0)) s"
        using Done Inr by (simp add: create_step_def numeral_2_eq_2)
      show ?thesis
      proof (cases custom)
        case None
        then show ?thesis
          using start steps_of_generate [of 0 ?n sv req ?d url expires s] plan link
          by (simp add: insert_code_def generate_code_def)
      next
        case (Some code)
        obtain r s1 where ins: "try_insert_link sv code url expires (clock 0) s = (r, s1)" by fastforce
        show ?thesis
          unfolding start link unfolding Some insert_code_def
          using Some valid plan ins steps_of_stats [of sv ?n req ?d code s1]
          by (cases r) (simp_all add: create_step_def create_try_def h_bind_def h_result_def insert_link_def
              steps_of_done repo_result_def)
      qed
    qed
  qed
qed

section \<open>Counting hits under every schedule\<close>

text \<open>A redirect that has recorded its hit: it will answer, or has answered, 307.\<close>

fun counted :: "string \<Rightarrow> task \<Rightarrow> bool" where
  "counted c (Redirect code now hit (Redirect_Invalidate l)) \<longleftrightarrow> code = c"
| "counted c (Redirect code now hit (Redirect_Done (Inr resp))) \<longleftrightarrow> code = c"
| "counted c _ \<longleftrightarrow> False"

fun is_delete :: "task \<Rightarrow> bool" where
  "is_delete (Delete code p) = True"
| "is_delete _ = False"

fun starting :: "task \<Rightarrow> bool" where
  "starting (Redirect code now hit Redirect_Get) = True"
| "starting (Get code offset Get_Cache) = True"
| "starting (Update code req now Update_Repo) = True"
| "starting (Delete code Delete_Repo) = True"
| "starting (Create req d Create_Start) = True"
| "starting _ = False"

text \<open>A creation that has inserted the code \<open>c\<close>: it will read it, or has answered 201 with its location.\<close>

fun created :: "string \<Rightarrow> task \<Rightarrow> bool" where
  "created c (Create req d (Create_Stats code)) \<longleftrightarrow> code = c"
| "created c (Create req d (Create_Done (Done (Inr resp)))) \<longleftrightarrow> resp_headers resp = [(''location'', links_path c)]"
| "created c _ \<longleftrightarrow> False"

definition hits_so_far :: "string \<Rightarrow> task list \<Rightarrow> u64" where
  "hits_so_far c ts = of_nat (length (filter (counted c) ts))"

definition creations :: "string \<Rightarrow> task list \<Rightarrow> nat" where
  "creations c ts = length (filter (created c) ts)"

lemma filter_update:
  assumes "i < length ts"
  shows "length (filter P (ts[i := t])) + of_bool (P (ts ! i)) = length (filter P ts) + of_bool (P t)"
proof -
  obtain xs x ys where ts: "ts = xs @ x # ys" and i: "i = length xs"
    using id_take_nth_drop [OF assms] assms by (metis length_take min.absorb4)
  show ?thesis unfolding ts i by simp
qed

lemma creations_update:
  "i < length ts \<Longrightarrow>
   creations c (ts[i := t]) + of_bool (created c (ts ! i)) = creations c ts + of_bool (created c t)"
  unfolding creations_def by (rule filter_update)

lemma hits_so_far_update:
  assumes "i < length ts"
  shows "hits_so_far c (ts[i := t]) + of_bool (counted c (ts ! i)) = hits_so_far c ts + of_bool (counted c t)"
  using arg_cong [OF filter_update [OF assms, of "counted c" t], of "of_nat :: nat \<Rightarrow> u64"]
  by (simp add: hits_so_far_def)

lemma hits_sum:
  fixes a :: u64
  assumes "a + h' = b + g" and "b + x = c + y" and "h' + x = h + y"
  shows "a + h = c + g"
proof -
  have "a + h + y = (a + h') + x" using assms(3) by (simp add: ac_simps)
  also have "\<dots> = (b + x) + g" using assms(1) by (simp add: ac_simps)
  also have "\<dots> = c + g + y" using assms(2) by (simp add: ac_simps)
  finally show ?thesis by simp
qed

text \<open>What a step leaves of a repository: its invariant, and what a creation did to its links.\<close>

lemma step_is_delete: "task_step sv t s = (t', s') \<Longrightarrow> is_delete t' = is_delete t"
  by (cases t) (auto split: prod.splits)

context repository
begin

lemma try_insert_step:
  assumes "sv_repo sv = R" and "inv (as_repo s)" and "try_insert_link sv code url expires now s = (r, s')"
  shows "inv (as_repo s') \<and>
    (case r of
       Inl e \<Rightarrow> view (as_repo s') = view (as_repo s)
     | Inr _ \<Rightarrow> view (as_repo s) code = None \<and> (\<exists>st. view (as_repo s') = (view (as_repo s))(code \<mapsto> st)))"
proof -
  let ?l = "new_link code url expires now"
  obtain r' repo where run': "repo_insert R ?l (as_repo s) = (r', repo)" by fastforce
  then have run: "repo_insert R ?l (as_repo s) = (r, repo)" and s': "as_repo s' = repo"
    using assms(1,3) by (auto simp: try_insert_link_eq on_repo_def)
  have "link_code ?l = code" by (simp add: new_link_def short_link_new_def with_expires_at_def split: option.splits)
  moreover have "inv repo" using insert_inv [OF assms(2), of ?l] run by simp
  ultimately show ?thesis
    using insert_ok [OF assms(2), of ?l repo] insert_err [OF assms(2), of ?l _ repo] run s'
    by (cases r) auto
qed

lemma create_try_step:
  assumes "sv_repo sv = R" and "inv (as_repo s)" and "create_try sv d plan i s = (p, s')"
  shows "inv (as_repo s') \<and>
    (view (as_repo s') = view (as_repo s) \<and> (\<forall>c. \<not> created c (Create req d p)) \<or>
     (\<exists>code st. p = Create_Stats code \<and> view (as_repo s) code = None \<and>
        view (as_repo s') = (view (as_repo s))(code \<mapsto> st)))"
proof -
  obtain url expires custom where plan: "plan = (url, expires, custom)" by (cases plan) auto
  define code k where "code = (case custom of Some code \<Rightarrow> code | None \<Rightarrow> cd_codes d i)"
    and "k = (case custom of Some code \<Rightarrow> 0 | None \<Rightarrow> i)"
  obtain r s1 where ins: "try_insert_link sv code url expires (cd_clock d k) s = (r, s1)" by fastforce
  show ?thesis
  proof (cases "custom = None \<and> \<not> i < unat (max_generate_attempts (sv_config sv))")
    case True
    then show ?thesis using assms(2,3) plan by (auto simp: create_try_def)
  next
    case False
    then have "s' = s1" and "case r of Inr _ \<Rightarrow> p = Create_Stats code | Inl e \<Rightarrow> \<forall>c. \<not> created c (Create req d p)"
      using assms(3) plan ins
      by (auto simp: create_try_def code_def k_def split: option.splits sum.splits repo_error.splits)
    then show ?thesis using try_insert_step [OF assms(1,2) ins] by (cases r) auto
  qed
qed

lemma create_step_view:
  assumes sv: "sv_repo sv = R" and inv: "inv (as_repo s)" and step: "create_step sv req d p s = (p', s')"
  shows "inv (as_repo s') \<and>
    (view (as_repo s') = view (as_repo s) \<and> (\<forall>c. created c (Create req d p') \<longrightarrow> created c (Create req d p)) \<or>
     (\<exists>code st. p' = Create_Stats code \<and> view (as_repo s) code = None \<and>
        view (as_repo s') = (view (as_repo s))(code \<mapsto> st)))"
proof (cases p)
  case Create_Start
  show ?thesis
  proof (cases "\<exists>plan. create_checks sv req (cd_now d) = Done (Inr plan)")
    case True
    then show ?thesis
      using step Create_Start create_try_step [OF sv inv, of d _ 0 p' s' req] by (auto simp: create_step_def)
  next
    case False
    then show ?thesis
      using step Create_Start inv by (auto simp: create_step_def split: run.splits sum.splits)
  qed
next
  case (Create_Try plan i)
  then show ?thesis
    using step create_try_step [OF sv inv, of d plan i p' s' req] by (auto simp: create_step_def)
next
  case (Create_Stats code)
  then show ?thesis
    using step stats_inv [OF inv, of code] stats_view [OF inv, of code]
    by (auto simp: create_step_def on_repo_def sv links_path_def split: prod.splits sum.splits)
next
  case (Create_Done r)
  then show ?thesis using step inv by (auto simp: create_step_def)
qed

end

text \<open>One step of a task that is no deletion, seen by the links of a repository.\<close>

context repository
begin

lemma counted_step:
  assumes sv: "sv_repo sv = R" and inv: "inv (as_repo s)" and st: "view (as_repo s) c = Some st"
    and t: "\<not> is_delete t" and step: "task_step sv t s = (t', s')"
  shows "\<not> is_delete t' \<and> inv (as_repo s') \<and>
    (\<exists>st'. view (as_repo s') c = Some st' \<and>
       stats_hits st' + of_bool (counted c t) = stats_hits st + of_bool (counted c t'))"
proof (cases t)
  case (Redirect code now hit p)
  show ?thesis
  proof (cases p)
    case Redirect_Get
    then show ?thesis
      using step Redirect get_inv [OF inv, of code] get_view [OF inv, of code] st
      by (auto simp: step_defs sv split: prod.splits sum.splits if_splits)
  next
    case (Redirect_Hit l)
    obtain r repo where run: "repo_record_hit R code hit (as_repo s) = (r, repo)" by fastforce
    have "inv repo" using record_hit_inv [OF inv, of code hit] run by simp
    then show ?thesis
      using step Redirect Redirect_Hit run st record_hit_ok [OF inv, of code hit _ repo] record_hit_err [OF inv, of code hit _ repo]
      by (cases r) (auto simp: step_defs sv)
  next
    case (Redirect_Invalidate l)
    then show ?thesis using step Redirect inv st by (auto simp: step_defs)
  next
    case (Redirect_Done r)
    then show ?thesis using step Redirect inv st by (auto simp: step_defs)
  qed
next
  case (Get code offset p)
  then show ?thesis
    using step inv st stats_inv [OF inv, of code] stats_view [OF inv, of code]
    by (cases p) (auto simp: step_defs sv split: prod.splits sum.splits option.splits)
next
  case (Update code req now p)
  show ?thesis
  proof (cases p)
    case Update_Repo
    show ?thesis
    proof (cases "parse_target_url (url_parse sv) (ur_target_url req)")
      case (Inl e)
      then show ?thesis using step Update Update_Repo inv st by (auto simp: step_defs)
    next
      case (Inr u)
      obtain r repo where run: "repo_update R code (url_text u) (ur_version req) now (as_repo s) = (r, repo)" by fastforce
      have "inv repo" using update_inv [OF inv] run by (metis snd_conv)
      moreover have "\<exists>st'. view repo c = Some st' \<and> stats_hits st' = stats_hits st"
      proof (cases r)
        case (Inl e)
        then show ?thesis using update_err [OF inv] run st by simp
      next
        case (Inr l)
        then show ?thesis using update_ok [OF inv run [unfolded Inr]] st by auto
      qed
      ultimately show ?thesis
        using step Update Update_Repo Inr run by (cases r) (auto simp: step_defs sv)
    qed
  next
    case (Update_Invalidate l)
    then show ?thesis using step Update inv st by (auto simp: step_defs)
  next
    case (Update_Done r)
    then show ?thesis using step Update inv st by (auto simp: step_defs)
  qed
next
  case (Delete code p)
  then show ?thesis using t by simp
next
  case (Create req d p)
  then show ?thesis
    using step create_step_view [OF sv inv, of req d p] st
    by (fastforce split: prod.splits)
qed

lemma counted_schedule:
  assumes "sv_repo sv = R" and "inv (as_repo s)" and "view (as_repo s) c = Some st"
    and "\<forall>t \<in> set ts. \<not> is_delete t" and "schedule sv is ts s = (ts', s')"
  shows "\<exists>st'. view (as_repo s') c = Some st' \<and>
    stats_hits st' + hits_so_far c ts = stats_hits st + hits_so_far c ts'"
  using assms(2-)
proof (induction "is" arbitrary: ts s st)
  case (Cons i "is")
  show ?case
  proof (cases "i < length ts")
    case True
    obtain t s1 where step: "task_step sv (ts ! i) s = (t, s1)" by fastforce
    obtain st1 where one: "\<not> is_delete t" "inv (as_repo s1)" "view (as_repo s1) c = Some st1"
      "stats_hits st1 + of_bool (counted c (ts ! i)) = stats_hits st + of_bool (counted c t)"
      using counted_step [OF assms(1) Cons.prems(1,2) _ step] Cons.prems(3) True by auto
    have "\<forall>t' \<in> set (ts[i := t]). \<not> is_delete t'"
      using Cons.prems(3) one(1) set_update_subset_insert [of ts i t] by auto
    moreover have "schedule sv is (ts[i := t]) s1 = (ts', s')"
      using Cons.prems(4) True step by simp
    ultimately obtain st' where "view (as_repo s') c = Some st'"
      "stats_hits st' + hits_so_far c (ts[i := t]) = stats_hits st1 + hits_so_far c ts'"
      using Cons.IH [OF one(2,3)] by blast
    then show ?thesis
      using hits_sum [OF _ one(4) hits_so_far_update [OF True]] by blast
  next
    case False
    then show ?thesis using Cons by simp
  qed
qed simp

text \<open>Creations against each other: a code is inserted where it is free, so by one of them.\<close>

lemma task_step_inv:
  assumes sv: "sv_repo sv = R" and inv: "inv (as_repo s)" and step: "task_step sv t s = (t', s')"
  shows "inv (as_repo s')"
proof (cases t)
  case (Redirect code now hit p)
  then show ?thesis
    using step inv get_inv [OF inv, of code] record_hit_inv [OF inv, of code hit]
    by (cases p) (auto simp: step_defs sv split: prod.splits sum.splits)
next
  case (Get code offset p)
  then show ?thesis
    using step inv stats_inv [OF inv, of code]
    by (cases p) (auto simp: step_defs sv split: prod.splits sum.splits)
next
  case (Update code req now p)
  have upd: "repo_update R code url v now (as_repo s) = (r, repo) \<Longrightarrow> inv repo" for url v r repo
    using update_inv [OF inv] by (metis snd_conv)
  show ?thesis
    using step inv Update
    by (cases p) (auto simp: step_defs sv intro: upd split: prod.splits sum.splits)
next
  case (Delete code p)
  then show ?thesis
    using step inv remove_inv [OF inv, of code]
    by (cases p) (auto simp: step_defs sv split: prod.splits sum.splits)
next
  case (Create req d p)
  then show ?thesis
    using step create_step_view [OF sv inv, of req d p] by (auto split: prod.splits)
qed

lemma created_step:
  assumes sv: "sv_repo sv = R" and inv: "inv (as_repo s)" and t: "\<not> is_delete t"
    and step: "task_step sv t s = (t', s')"
  shows "of_bool (created c t') + of_bool (view (as_repo s) c \<noteq> None)
    \<le> (of_bool (created c t) + of_bool (view (as_repo s') c \<noteq> None) :: nat)"
proof (cases "\<exists>req d p. t = Create req d p")
  case True
  then obtain req d p where p: "t = Create req d p" by blast
  then obtain p' where p': "t' = Create req d p'" "create_step sv req d p s = (p', s')"
    using step by (auto split: prod.splits)
  show ?thesis
    using create_step_view [OF sv inv p'(2)] p p'(1) by (auto simp: of_bool_def)
next
  case False
  then have "\<not> created c t'"
    using step by (cases t) (auto split: prod.splits)
  moreover have "view (as_repo s') c \<noteq> None" if "view (as_repo s) c \<noteq> None"
    using that counted_step [OF sv inv _ t step] by blast
  ultimately show ?thesis by auto
qed

lemma created_schedule:
  assumes "sv_repo sv = R" and "inv (as_repo s)"
    and "\<forall>t \<in> set ts. \<not> is_delete t" and "schedule sv is ts s = (ts', s')"
  shows "creations c ts' + of_bool (view (as_repo s) c \<noteq> None)
    \<le> creations c ts + of_bool (view (as_repo s') c \<noteq> None)"
  using assms(2-)
proof (induction "is" arbitrary: ts s)
  case (Cons i "is")
  show ?case
  proof (cases "i < length ts")
    case True
    obtain t s1 where step: "task_step sv (ts ! i) s = (t, s1)" by fastforce
    have i: "\<not> is_delete (ts ! i)" using Cons.prems(2) True by simp
    have "\<forall>t' \<in> set (ts[i := t]). \<not> is_delete t'"
      using Cons.prems(2) i step_is_delete [OF step] set_update_subset_insert [of ts i t] by auto
    then have "creations c ts' + of_bool (view (as_repo s1) c \<noteq> None)
        \<le> creations c (ts[i := t]) + of_bool (view (as_repo s') c \<noteq> None)"
      using Cons.IH [OF task_step_inv [OF assms(1) Cons.prems(1) step]] Cons.prems(3) True step by simp
    then show ?thesis
      using created_step [OF assms(1) Cons.prems(1) i step, of c] creations_update [OF True, of c t] by linarith
  next
    case False
    then show ?thesis using Cons by simp
  qed
qed simp

end

section \<open>The cache under interleaving\<close>

text \<open>
  Between its read of the store and its write of the cache, \<open>get_link\<close> can be overtaken by an update and
  its invalidation: the old response is then cached after it, and lookups answer it although the store
  has the new target.
\<close>

lemma overtaken_get_leaves_stale_entry:
  "\<exists>ts s'. schedule sample_service [0, 0, 1, 1, 0]
       [Get ''abcd'' 0 Get_Cache, Update ''abcd'' \<lparr>ur_target_url = ''v'', ur_version = 1\<rparr> 6000000000 Update_Repo]
       sample_served = (ts, s') \<and>
     map_option (link_target_url \<circ> stats_link) (backend_view (as_repo s') ''abcd'') = Some ''v'' \<and>
     fst (get_link sample_service ''abcd'' 0 s') = Done (Inr (sample_response 1)) \<and>
     lr_target_url (sample_response 1) = ''https://a.org/''"
  unfolding sample_served_def sample_service_def
  by (simp add: step_defs dispatch_def in_memory_ops_simps stats_sync_def update_sync_def cache_get_def cache_set_def
      cache_invalidate_def cache_from_manager_def map_redis_def jittered_ttl_def cache_config_default_def
      link_response_of_stats_def entry_stats_def short_link_new_def sample_link_values sample_hits_text sample_response_def
      record_cache_miss_def record_cache_hit_def parse_target_url_def get_link_def in_memory_view_def nth_Cons')

section \<open>Properties\<close>

text \<open>A handler that runs with nothing in between computes what its definition says: the steps between its
  \<open>await\<close>s compose to \<open>redirect\<close>, \<open>get_link\<close>, \<open>update_link\<close>, \<open>delete_link\<close> and \<open>create_link\<close>, with every
  early return; a creation is done after at most two steps more than the configured attempts.\<close>

theorem async_equals_handler:
  "(\<exists>r s'. redirect sv code now hit s = (Done r, s') \<and>
      steps_of sv 3 (Redirect code now hit Redirect_Get) s = (Redirect code now hit (Redirect_Done r), s')) \<and>
   (\<exists>r s'. get_link sv code offset s = (r, s') \<and>
      steps_of sv 3 (Get code offset Get_Cache) s = (Get code offset (Get_Done r), s')) \<and>
   (\<exists>r s'. update_link sv code req now s = (Done r, s') \<and>
      steps_of sv 2 (Update code req now Update_Repo) s = (Update code req now (Update_Done r), s')) \<and>
   (\<exists>r s'. delete_link sv code s = (Done r, s') \<and>
      steps_of sv 2 (Delete code Delete_Repo) s = (Delete code (Delete_Done r), s')) \<and>
   (\<exists>r s'. create_link sv creq now codes clock s = (r, s') \<and>
      steps_of sv (unat (max_generate_attempts (sv_config sv)) + 2)
          (Create creq \<lparr>cd_now = now, cd_codes = codes, cd_clock = clock\<rparr> Create_Start) s =
        (Create creq \<lparr>cd_now = now, cd_codes = codes, cd_clock = clock\<rparr> (Create_Done r), s'))"
  using redirect_alone [of sv code now hit s] get_alone [of sv code offset s]
    update_alone [of sv code req now s] delete_alone [of sv code s] create_alone [of sv creq now codes clock s]
  by (cases "get_link sv code offset s"; cases "create_link sv creq now codes clock s") simp

text \<open>C7: concurrent redirects count exactly, on either store: under every interleaving of redirects,
  lookups and updates, the hits of a link have grown by the number of redirects of it that have answered 307
  or are about to; no hit is lost and none is counted twice.\<close>

theorem concurrent_redirects_count_exactly:
  assumes "sv_repo sv = dyn_ops E" and "backend_inv (as_repo s)" and "backend_view (as_repo s) c = Some st"
    and "\<forall>t \<in> set ts. starting t \<and> \<not> is_delete t" and "schedule sv is ts s = (ts', s')"
  shows "\<exists>st'. backend_view (as_repo s') c = Some st' \<and> stats_hits st' = stats_hits st + hits_so_far c ts'"
proof -
  have "\<not> counted c t" if "starting t" for t
    using that by (cases "(c, t)" rule: counted.cases) auto
  then have "filter (counted c) ts = []" using assms(4) by (simp add: filter_empty_conv)
  then have "hits_so_far c ts = 0" by (simp add: hits_so_far_def)
  then show ?thesis
    using repository.counted_schedule [OF dyn.repository_axioms assms(1-3) _ assms(5)] assms(4) by simp
qed

theorem concurrent_redirects_count_exactly_witness:
  "map_option stats_hits (backend_view (as_repo (snd (schedule sample_service [0, 1, 1, 0]
     (replicate 2 (Redirect ''abcd'' 6000000000 6000000000 Redirect_Get)) sample_state))) ''abcd'') = Some 2"
proof -
  let ?t = "Redirect ''abcd'' 6000000000 6000000000 Redirect_Get"
  have I: "sv_repo sample_service = dyn_ops sample_env" "backend_inv (as_repo sample_state)"
    using sample_coherent by (simp_all add: sample_service_def coherent_state_def)
  have v: "\<exists>st. backend_view (as_repo sample_state) ''abcd'' = Some st \<and> stats_hits st = 0"
    by (simp add: sample_state_def insert_sync_view in_memory_inv_new short_link_new_def)
  obtain ts s' where run: "schedule sample_service [0, 1, 1, 0] [?t, ?t] sample_state = (ts, s')" by fastforce
  then have "hits_so_far ''abcd'' ts = 2"
    unfolding sample_state_def sample_service_def insert_sync_def in_memory_new_def short_link_new_def
      link_entry_new_def
    by (auto simp: step_defs dispatch_def in_memory_ops_simps get_sync_def is_expired_def record_hit_sync_def
        arc_record_hit_def get_or_create_def stats_storage_new_def hits_so_far_def nth_Cons')
  moreover from v obtain st where st: "backend_view (as_repo sample_state) ''abcd'' = Some st" "stats_hits st = 0"
    by blast
  ultimately have "\<exists>st'. backend_view (as_repo s') ''abcd'' = Some st' \<and> stats_hits st' = 2"
    using concurrent_redirects_count_exactly [OF I st(1) _ run] by simp
  moreover have "replicate 2 ?t = [?t, ?t]" by (simp add: numeral_2_eq_2)
  ultimately show ?thesis using run by (metis option.simps(9) snd_conv)
qed

text \<open>C8: concurrent creations of a code exclude each other, on either store: under every interleaving of
  creations, updates, lookups and redirects at most one creation gets a free code, none gets a code that
  was taken, and a code that was got is in the store.\<close>

theorem concurrent_creates_exclude:
  assumes "sv_repo sv = dyn_ops E" and "backend_inv (as_repo s)"
    and "\<forall>t \<in> set ts. starting t \<and> \<not> is_delete t" and "schedule sv is ts s = (ts', s')"
  shows "creations c ts' \<le> (if backend_view (as_repo s) c = None then 1 else 0) \<and>
    (creations c ts' = 1 \<longrightarrow> backend_view (as_repo s') c \<noteq> None)"
proof -
  have "\<not> created c t" if "starting t" for t
    using that by (cases "(c, t)" rule: created.cases) auto
  then have "creations c ts = 0" using assms(3) by (simp add: creations_def filter_empty_conv)
  then have "creations c ts' + of_bool (backend_view (as_repo s) c \<noteq> None)
      \<le> (of_bool (backend_view (as_repo s') c \<noteq> None) :: nat)"
    using repository.created_schedule [OF dyn.repository_axioms assms(1,2) _ assms(4), of c] assms(3) by simp
  then show ?thesis by (auto simp: of_bool_def split: if_splits)
qed

theorem concurrent_creates_exclude_witness:
  "\<exists>ts s'. schedule sample_service [0, 1, 0, 1] (replicate 2 (Create
       \<lparr>cr_target_url = ''u'', cr_custom_code = Some ''efgh'', cr_ttl_seconds = None\<rparr>
       \<lparr>cd_now = 6000000000, cd_codes = \<lambda>_. ''abcd'', cd_clock = \<lambda>_. 6000000000\<rparr> Create_Start)) sample_state = (ts, s') \<and>
     creations ''efgh'' ts = 1 \<and> backend_view (as_repo s') ''efgh'' \<noteq> None"
proof -
  let ?t = "Create \<lparr>cr_target_url = ''u'', cr_custom_code = Some ''efgh'', cr_ttl_seconds = None\<rparr>
    \<lparr>cd_now = 6000000000, cd_codes = \<lambda>_. ''abcd'', cd_clock = \<lambda>_. 6000000000\<rparr> Create_Start"
  have I: "sv_repo sample_service = dyn_ops sample_env" "backend_inv (as_repo sample_state)"
    using sample_coherent by (simp_all add: sample_service_def coherent_state_def)
  obtain ts s' where run: "schedule sample_service [0, 1, 0, 1] [?t, ?t] sample_state = (ts, s')" by fastforce
  then have "creations ''efgh'' ts = 1"
    unfolding sample_state_def sample_service_def insert_sync_def in_memory_new_def short_link_new_def
    by (auto simp: create_step_def create_checks_def create_try_def try_insert_link_eq on_repo_def dispatch_def
        in_memory_ops_simps parse_target_url_def expires_at_from_ttl_def validate_custom_code_def
        code_char_def is_ascii_alphanumeric_def insert_sync_def stats_sync_def new_link_def short_link_new_def
        link_entry_new_def entry_stats_def links_path_def Let_def creations_def nth_Cons')
  then have "creations ''efgh'' ts = 1 \<and> backend_view (as_repo s') ''efgh'' \<noteq> None"
    using concurrent_creates_exclude [OF I _ run, of "''efgh''"] by simp
  moreover have "replicate 2 ?t = [?t, ?t]" by (simp add: numeral_2_eq_2)
  ultimately show ?thesis using run by metis
qed

end
