(* ===== verification/Service_Properties.thy ===== *)
theory Service_Properties
  imports Sample_Service
begin

text \<open>What the service promises its clients, with a concrete instance of each statement.\<close>

section \<open>Properties of the service\<close>

text \<open>C4: the endpoints under \<open>/api/v1\<close> that create, list, read, update, delete or count
  links are behind the authentication layer. With authentication on, a request for one of them without a
  token that the server accepts is answered 401 and leaves the state as it was, and one with such a token is
  handled; with \<open>DISABLE_AUTH\<close> every request is handled. Of the other endpoints only the public
  redirect changes the store.\<close>

theorem protected_needs_token:
  assumes "route (rq_method req) (rq_path req) = (b, ep)"
  shows "if managing ep
    then (case cfg_auth (sv_config sv) of
        None \<Rightarrow> serve sv C cancelled i req s = handle sv C cancelled (Some (header_text req ''x-request-id'')) i ep s
      | Some config \<Rightarrow>
          (case request_claims C config req (in_now i) of
             Inl e \<Rightarrow> (\<exists>resp. serve sv C cancelled i req s = (Done resp, s) \<and> resp_status resp = 401 \<and>
               resp = auth_response (Some (header_text req ''x-request-id'')) e)
           | Inr user \<Rightarrow> serve sv C cancelled i req s =
               handle sv C cancelled (Some (header_text req ''x-request-id'')) i ep s))
    else (\<exists>code. ep = E_Redirect code) \<or> as_repo (snd (serve sv C cancelled i req s)) = as_repo s"
proof (cases "managing ep")
  case True
  have "resp_status (auth_response scope e) = 401"
    if "request_claims C config req (in_now i) = Inl e" for scope config e
    using request_claims_Inl [OF that] by (auto simp: auth_response_def auth_into_response_def Let_def)
  then show ?thesis
    using managing_protected [OF assms True] assms True
    by (auto simp: serve_def request_id_scope_def serve_in_scope_def auth_middleware_def split_beta
        split: option.split sum.split)
next
  case False
  then have "(\<exists>code. ep = E_Redirect code) \<or> as_repo (snd (handle sv C cancelled scope i ep s)) = as_repo s" for scope
    by (cases ep) (auto simp: handle_def split: sum.split run.split)
  then show ?thesis
    using False assms
    by (auto simp: serve_def request_id_scope_def serve_in_scope_def auth_middleware_def
        split: option.split sum.split prod.split) (metis snd_conv)+
qed

theorem protected_needs_token_witness:
  "\<exists>resp. serve sample_service (sample_crypto ''x'') False sample_inputs
     (sample_request ''/api/v1/links/abcd'') sample_state = (Done resp, sample_state) \<and> resp_status resp = 401"
proof -
  have claims: "request_claims (sample_crypto ''x'') config (sample_request path) now = Inl MissingToken" for config path now
    by (simp add: sample_request_def request_claims_def bearer_token_def header_text_def)
  have "cfg_auth (sv_config sample_service) = Some (auth_config_default (sample_crypto ''shorty-service''))"
    by (simp add: sample_service_def config_default_def)
  with protected_needs_token [of "sample_request ''/api/v1/links/abcd''" True "E_Get ''abcd''"
      sample_service "sample_crypto ''x''" False sample_inputs sample_state]
  show ?thesis by (auto simp: claims) (simp add: sample_request_def sample_route)
qed

text \<open>C40: whatever requests the server has served since it started, its statistics endpoints report
  no hit for any link and an empty top list: the storage they read is empty at the start and written by
  nothing, redirects record their hits in another one.\<close>

theorem statistics_stay_empty:
  assumes "as_stats s = stats_storage_new" and "s' = serve_all sv C cancelled rs s"
  shows "get_top_stats tq s' = [] \<and>
    (\<forall>code now rd resp s''. get_link_stats sv code now rd s' = (Done (Inr resp), s'') \<longrightarrow>
       sr_total_hits resp = 0 \<and> sr_hits_last_60s resp = 0)"
proof -
  have st: "as_stats s' = stats_storage_new" using assms serve_all_stats by metis
  have "get_top n stats_storage_new = []" for n
    by (simp add: get_top_def stats_storage_new_def)
  then show ?thesis
    using st by (auto simp: get_top_stats_def Let_def read_counts_view dest!: get_link_stats_Inr)
qed

theorem statistics_stay_empty_witness:
  "get_top_stats (top_query_of None) sample_served = []"
  using statistics_stay_empty [OF _ sample_serve_redirect [symmetric]] by (simp add: sample_state_def)



text \<open>C5: on either store, creating a link never touches a link that is there: a response 201 means
  that the code was free and that exactly the new link was added, with the validated URL, version 1 and no
  hits; the response locates it and shows it. Every other outcome leaves the existing links as they
  were.\<close>

theorem create_never_overwrites:
  assumes "sv_repo sv = dyn_ops E" and "backend_inv (as_repo s)"
    and "create_link sv req now codes clock s = (r, s')"
  shows "backend_view (as_repo s) \<subseteq>\<^sub>m backend_view (as_repo s') \<and>
    (\<forall>resp. r = Done (Inr resp) \<longrightarrow>
       (\<exists>u code st. url_parse sv (cr_target_url req) = Inr u \<and> url_scheme u \<in> {''http'', ''https''} \<and>
          (case cr_custom_code req of None \<Rightarrow> True | Some c \<Rightarrow> code = c \<and> validate_custom_code c = Inr ()) \<and>
          (case cr_ttl_seconds req of None \<Rightarrow> True | Some ttl \<Rightarrow> 60 \<le> ttl) \<and>
          created (backend_view (as_repo s)) code (url_text u) (cr_ttl_seconds req \<noteq> None) st \<and>
          backend_view (as_repo s') = (backend_view (as_repo s))(code \<mapsto> st) \<and>
          resp = \<lparr>resp_status = 201, resp_headers = [(''location'', links_path code)],
                  resp_body = link_response_of_stats st\<rparr>))"
proof -
  have "keeps backend_inv backend_view (backend_view (as_repo s)) (as_repo s')"
    using preservesD [OF repository.create_link_keeps [OF dyn.repository_axioms assms(1)], of "backend_view (as_repo s)" s req now codes clock]
      assms(2,3) by (simp add: keeps_def)
  then have "backend_view (as_repo s) \<subseteq>\<^sub>m backend_view (as_repo s')" by (simp add: keeps_def)
  then show ?thesis
    using repository.create_link_created [OF dyn.repository_axioms assms(1,2), of req now codes clock _ s']
      assms(3) by blast
qed

theorem create_never_overwrites_witness:
  "\<exists>s'. create_link sample_service \<lparr>cr_target_url = ''u'', cr_custom_code = Some ''efgh'', cr_ttl_seconds = None\<rparr>
       6000000000 (\<lambda>_. ''abcd'') (\<lambda>_. 6000000000) sample_state =
     (Done (Inr \<lparr>resp_status = 201, resp_headers = [(''location'', ''/api/v1/links/efgh'')],
       resp_body = \<lparr>lr_code = ''efgh'', lr_target_url = ''u'', lr_created_at_unix = 6,
                     lr_expires_at_unix = None, lr_hits = 0, lr_version = 1\<rparr>\<rparr>), s') \<and>
     backend_view (as_repo sample_state) \<subseteq>\<^sub>m backend_view (as_repo s')"
proof -
  obtain s' where run: "create_link sample_service
       \<lparr>cr_target_url = ''u'', cr_custom_code = Some ''efgh'', cr_ttl_seconds = None\<rparr>
       6000000000 (\<lambda>_. ''abcd'') (\<lambda>_. 6000000000) sample_state =
     (Done (Inr \<lparr>resp_status = 201, resp_headers = [(''location'', ''/api/v1/links/efgh'')],
       resp_body = \<lparr>lr_code = ''efgh'', lr_target_url = ''u'', lr_created_at_unix = 6,
                     lr_expires_at_unix = None, lr_hits = 0, lr_version = 1\<rparr>\<rparr>), s')"
    using sample_create by blast
  have "sv_repo sample_service = dyn_ops sample_env" "backend_inv (as_repo sample_state)"
    using sample_coherent by (simp_all add: sample_service_def coherent_state_def)
  from create_never_overwrites [OF this run] run show ?thesis by blast
qed

text \<open>C26: on the in-memory store a generated code is the first candidate that is free, and the
  request fails exactly if every candidate of the configured number of attempts is taken.\<close>

theorem generated_code_is_first_free:
  assumes "sv_repo sv = in_memory_ops" and "in_memory_inv (as_repo s)"
  shows "fst (generate_code sv url expires codes clock s) =
    (case find (\<lambda>j. in_memory_view (as_repo s) (codes j) = None)
           [0..<unat (max_generate_attempts (sv_config sv))] of
       Some j \<Rightarrow> Done (Inr (codes j))
     | None \<Rightarrow> Done (Inl (App_Internal (''failed to generate a unique code in '' @
         show_nat (unat (max_generate_attempts (sv_config sv))) @ '' attempts''))))"
  using reliable_repository.generate_code_first_free [OF im.reliable_repository_axioms assms, of url expires codes clock 0]
  by (simp add: generate_code_def)

theorem generated_code_is_first_free_witness:
  "fst (generate_code sample_memory_service ''u'' None (\<lambda>j. if j < 2 then ''abcd'' else ''efgh'') (\<lambda>_. 0)
     \<lparr>as_repo = sample_memory, as_stats = stats_storage_new, as_cache = cache_disabled\<rparr>) =
   Done (Inr ''efgh'')"
proof -
  have "[0..<unat (max_generate_attempts (sv_config sample_memory_service))] = [0, 1, 2, 3, 4]"
    by (simp add: sample_memory_service_def config_default_def upt_rec)
  then show ?thesis
    using generated_code_is_first_free [of sample_memory_service
        "\<lparr>as_repo = sample_memory, as_stats = stats_storage_new, as_cache = cache_disabled\<rparr>" "''u''" None
        "\<lambda>j. if j < 2 then ''abcd'' else ''efgh''" "\<lambda>_. 0"] sample_memory_view
    by (simp add: sample_memory_service_def)
qed

text \<open>In memory a redirect fails only where there is no link, or it has expired.\<close>

lemma redirect_memory:
  assumes "sv_repo sv = dyn_ops E" and "as_repo s = Memory_Backend m" and "in_memory_inv m"
    and "in_memory_view m code = Some st"
  shows "fst (redirect sv code now hit s) =
    (if is_expired (stats_link st) now then Done (Inl App_NotFound)
     else Done (Inr \<lparr>resp_status = 307, resp_headers = [(''location'', link_target_url (stats_link st))], resp_body = ()\<rparr>))"
proof -
  have "fst (repo_get in_memory_ops code m) = Inr (stats_link st)"
    using im.get_total [OF assms(3)] assms(4) by simp
  moreover have "fst (repo_record_hit in_memory_ops code hit m) = Inr (stats_hits st + 1)"
    using im.record_hit_total [OF assms(3)] assms(4) by simp
  ultimately show ?thesis
    using assms(2)
    by (auto simp: redirect_def h_bind_def h_repo_def on_repo_def h_result_def h_invalidate_def assms(1) dispatch_def
        in_memory_ops_simps repo_result_def Let_def split: prod.splits)
qed

text \<open>C6: on either store a redirect leads to the target of the stored link, never of an expired one,
  and then counts exactly one hit on that link and changes no other; whatever else it answers has counted
  nothing. In memory every live link redirects.\<close>

theorem redirect_counts_once:
  assumes "sv_repo sv = dyn_ops E" and "backend_inv (as_repo s)" and "redirect sv code now hit s = (r, s')"
  shows "(case r of
      Done (Inr resp) \<Rightarrow> (\<exists>st. backend_view (as_repo s) code = Some st \<and> \<not> is_expired (stats_link st) now \<and>
        resp = \<lparr>resp_status = 307, resp_headers = [(''location'', link_target_url (stats_link st))], resp_body = ()\<rparr> \<and>
        backend_view (as_repo s') = (backend_view (as_repo s))(code \<mapsto> st\<lparr>stats_hits := stats_hits st + 1\<rparr>))
    | Done (Inl e) \<Rightarrow> backend_view (as_repo s') = backend_view (as_repo s)
    | Panic \<Rightarrow> False) \<and>
    (\<forall>m st. as_repo s = Memory_Backend m \<longrightarrow> backend_view (as_repo s) code = Some st \<longrightarrow>
       \<not> is_expired (stats_link st) now \<longrightarrow> (\<exists>resp. r = Done (Inr resp)))"
proof -
  have "\<exists>resp. r = Done (Inr resp)"
    if "as_repo s = Memory_Backend m" and "backend_view (as_repo s) code = Some st" and "\<not> is_expired (stats_link st) now" for m st
    using redirect_memory [OF assms(1) that(1), of code st now hit] that assms(2,3) by simp
  then show ?thesis
    using repository.redirect_ok [OF dyn.repository_axioms assms(1,2), of code now hit _ s']
      repository.redirect_err [OF dyn.repository_axioms assms(1,2), of code now hit _ s']
      redirect_no_panic [of sv code now hit s s'] assms(3)
    by (auto split: run.splits sum.splits)
qed

theorem redirect_counts_once_witness:
  "map_option stats_hits (backend_view (as_repo sample_served) ''abcd'') =
   map_option (\<lambda>st. stats_hits st + 1) (backend_view (as_repo sample_state) ''abcd'')"
proof -
  have "sv_repo sample_service = dyn_ops sample_env" "backend_inv (as_repo sample_state)"
    using sample_coherent by (simp_all add: sample_service_def coherent_state_def)
  from redirect_counts_once [OF this sample_redirected] show ?thesis by auto
qed

text \<open>C10: on either store an update that succeeds changes the target of that link and raises its
  version by one, keeps its code, expiry and hits, and leaves every other link; one that fails changes
  nothing. On PostgreSQL it succeeds only if the request carries the version the store holds.\<close>

theorem update_changes_one_link:
  assumes "sv_repo sv = dyn_ops E" and "backend_inv (as_repo s)" and "update_link sv code req now s = (r, s')"
  shows "case r of
      Done (Inr resp) \<Rightarrow> (\<exists>u st t. url_parse sv (ur_target_url req) = Inr u \<and> url_scheme u \<in> {''http'', ''https''} \<and>
        backend_view (as_repo s) code = Some st \<and>
        backend_view (as_repo s') = (backend_view (as_repo s))(code \<mapsto> st\<lparr>stats_link := (stats_link st)
          \<lparr>link_target_url := url_text u, link_updated_at := t, link_version := link_version (stats_link st) + 1\<rparr>\<rparr>) \<and>
        lr_target_url resp = url_text u \<and> lr_version resp = link_version (stats_link st) + 1 \<and> lr_code resp = code \<and>
        (\<forall>d. as_repo s = Postgres_Backend d \<longrightarrow> link_version (stats_link st) = ur_version req))
    | Done (Inl e) \<Rightarrow> backend_view (as_repo s') = backend_view (as_repo s)
    | Panic \<Rightarrow> False"
proof -
  have version: "link_version (stats_link st) = ur_version req"
    if ok: "r = Done (Inr resp)" and d: "as_repo s = Postgres_Backend d" and st: "backend_view (as_repo s) code = Some st" for resp d st
  proof -
    obtain u :: url and l repo where "repo_update (dyn_ops E) code (url_text u) (ur_version req) now (as_repo s) = (Inr l, repo)"
      using update_link_repo assms(1,3) ok by metis
    then obtain d' where "repo_update (postgres_ops E) code (url_text u) (ur_version req) now d = (Inr l, d')"
      using d by auto
    from pg.update_version [OF _ this] show ?thesis using assms(2) d st by auto
  qed
  show ?thesis
  proof (cases r)
    case Panic
    then show ?thesis using update_link_no_panic assms(3) by metis
  next
    case (Done q)
    show ?thesis
    proof (cases q)
      case (Inl e)
      then show ?thesis
        using Done assms(3) repository.update_link_err [OF dyn.repository_axioms assms(1,2)] by simp
    next
      case (Inr resp)
      then have "update_link sv code req now s = (Done (Inr resp), s')" using Done assms(3) by simp
      note ok = repository.update_link_ok [OF dyn.repository_axioms assms(1,2) this]
      have "\<forall>st d. as_repo s = Postgres_Backend d \<longrightarrow> backend_view (as_repo s) code = Some st \<longrightarrow>
          link_version (stats_link st) = ur_version req"
        using version Done Inr by blast
      with ok show ?thesis unfolding Done Inr run.case sum.case by blast
    qed
  qed
qed

theorem update_changes_one_link_witness:
  "\<exists>s'. snd (update_link sample_service ''abcd'' \<lparr>ur_target_url = ''v'', ur_version = 1\<rparr> 6000000000 sample_state) = s' \<and>
     map_option (link_target_url \<circ> stats_link) (backend_view (as_repo s') ''abcd'') = Some ''v''"
proof -
  have "sv_repo sample_service = dyn_ops sample_env" "backend_inv (as_repo sample_state)"
    using sample_coherent by (simp_all add: sample_service_def coherent_state_def)
  from update_changes_one_link [OF this, of "''abcd''" "\<lparr>ur_target_url = ''v'', ur_version = 1\<rparr>" 6000000000]
    sample_update show ?thesis by (fastforce simp: sample_service_def)
qed

text \<open>C11: a deletion that succeeds, on either store, has removed exactly that link from the store,
  and a visit, an update, a second deletion and the statistics of the code fail from then on. A read
  succeeds only with an entry that the cache still has, and as \<open>invalidate\<close> ignores a
  \<open>DEL\<close> that fails or times out, there may be one until it expires; if Redis answers its
  deletions and the cache was coherent, a read fails too.\<close>

theorem deleted_link_is_gone:
  assumes "sv_repo sv = dyn_ops E" and "backend_inv (as_repo s)"
    and "delete_link sv code s = (Done (Inr status), s')"
  shows "status = 204 \<and> backend_view (as_repo s) code \<noteq> None \<and>
    backend_view (as_repo s') = (backend_view (as_repo s))(code := None) \<and>
    (\<forall>now hit resp s''. redirect sv code now hit s' \<noteq> (Done (Inr resp), s'')) \<and>
    (\<forall>req now resp s''. update_link sv code req now s' \<noteq> (Done (Inr resp), s'')) \<and>
    (\<forall>status' s''. delete_link sv code s' \<noteq> (Done (Inr status'), s'')) \<and>
    (\<forall>now rd resp s''. get_link_stats sv code now rd s' \<noteq> (Done (Inr resp), s'')) \<and>
    (\<forall>offset resp s''. get_link sv code offset s' = (Done (Inr resp), s'') \<longrightarrow>
       fst (cache_get (sv_redis sv) (response_from_json sv) (link_key code) (as_cache s')) = Some resp) \<and>
    (\<forall>contents. redis_maps (sv_redis sv) contents \<longrightarrow> redis_deletes (sv_redis sv) \<longrightarrow> json_round_trip sv \<longrightarrow>
       coherent_state backend_inv backend_view sv contents s \<longrightarrow>
       (\<forall>offset resp s''. get_link sv code offset s' \<noteq> (Done (Inr resp), s'')))"
proof -
  note dyn = dyn.repository_axioms
  have del: "status = 204 \<and> backend_view (as_repo s) code \<noteq> None \<and>
      backend_view (as_repo s') = (backend_view (as_repo s))(code := None)"
    by (rule repository.delete_link_ok [OF dyn assms])
  have inv': "backend_inv (as_repo s')"
    using repository.delete_link_inv [OF dyn assms(1,2), of code] assms(3) by simp
  have gone: "backend_view (as_repo s') code = None" using del by simp
  have stats: "get_link_stats sv code now rd s' \<noteq> (Done (Inr resp), s'')" for now rd resp s''
    using get_link_stats_Inr [of sv code now rd s' resp s''] repository.get_ok [OF dyn inv'] gone assms(1)
    by fastforce
  have cached: "fst (cache_get (sv_redis sv) (response_from_json sv) (link_key code) (as_cache s')) = Some resp"
    if "get_link sv code offset s' = (Done (Inr resp), s'')" for offset resp s''
  proof -
    have none: "repo_stats (sv_repo sv) code (as_repo s') \<noteq> (Inr st, repo)" for st repo
      using repository.stats_ok [OF dyn inv'] gone assms(1) by fastforce
    obtain v c where get: "cache_get (sv_redis sv) (response_from_json sv) (link_key code) (as_cache s') = (v, c)"
      by fastforce
    show ?thesis
      using that by (cases v) (simp_all add: get_link_def get h_bind_Inr h_repo_Inr none)
  qed
  have read: "get_link sv code offset s' \<noteq> (Done (Inr resp), s'')"
    if "redis_maps (sv_redis sv) contents" and "redis_deletes (sv_redis sv)" and "json_round_trip sv"
      and "coherent_state backend_inv backend_view sv contents s" for contents offset resp s''
  proof -
    have "coherent_state backend_inv backend_view sv contents s'"
      using repository.delete_link_coherent [OF dyn assms(1) that(1,2,4), of code] assms(3) by simp
    from repository.get_link_coherent [OF dyn assms(1) that(1,3) this] gone show ?thesis by fastforce
  qed
  have visit: "redirect sv code now hit s' \<noteq> (Done (Inr resp), s'')" for now hit resp s''
    using repository.redirect_ok [OF dyn assms(1) inv'] gone by fastforce
  have update: "update_link sv code req now s' \<noteq> (Done (Inr resp), s'')" for req now resp s''
    using repository.update_link_ok [OF dyn assms(1) inv'] gone by fastforce
  have again: "delete_link sv code s' \<noteq> (Done (Inr status'), s'')" for status' s''
    using repository.delete_link_ok [OF dyn assms(1) inv'] gone by fastforce
  show ?thesis
    using del by (intro conjI allI impI visit update again stats cached read) (assumption | elim conjE)+
qed

theorem deleted_link_is_gone_witness:
  "\<exists>s'. delete_link sample_service ''abcd'' sample_state = (Done (Inr 204), s') \<and>
     (\<forall>offset resp s''. get_link sample_service ''abcd'' offset s' \<noteq> (Done (Inr resp), s''))"
proof -
  have "sv_repo sample_service = dyn_ops sample_env" "sv_redis sample_service = map_redis"
    by (simp_all add: sample_service_def)
  moreover obtain s' where "delete_link sample_service ''abcd'' sample_state = (Done (Inr 204), s')"
    using sample_delete by blast
  moreover have "backend_inv (as_repo sample_state)" using sample_coherent by (simp add: coherent_state_def)
  ultimately show ?thesis
    using deleted_link_is_gone [of sample_service sample_env sample_state "''abcd''" 204 s']
      sample_round_trip sample_coherent map_redis_ok by fastforce
qed

text \<open>
  A deletion whose \<open>DEL\<close> Redis does not carry out is answered 204, and the link can still be read.
\<close>

lemma failed_invalidation_stays_readable:
  "\<exists>s'. delete_link (sample_service\<lparr>sv_redis := map_redis\<lparr>redis_del := (\<lambda>key r. (Failed, r))\<rparr>\<rparr>) ''abcd''
       sample_state = (Done (Inr 204), s') \<and>
     backend_view (as_repo s') ''abcd'' = None \<and>
     fst (get_link (sample_service\<lparr>sv_redis := map_redis\<lparr>redis_del := (\<lambda>key r. (Failed, r))\<rparr>\<rparr>) ''abcd'' 0 s') =
       Done (Inr (sample_response 0))"
  unfolding delete_link_def h_bind_def h_repo_def on_repo_def h_result_def h_invalidate_def
    sample_state_def sample_service_def insert_sync_def in_memory_new_def get_link_def
  by (simp add: dispatch_def in_memory_ops_simps remove_sync_def short_link_new_def cache_invalidate_def
      link_entry_new_def repo_result_def Let_def cache_get_def cache_from_manager_def map_redis_def
      sample_link_values record_cache_hit_def in_memory_view_def)

text \<open>C28: a purge of the clean-up task removes exactly the links that have expired and changes no
  link it keeps, in memory always, and on PostgreSQL whenever the server runs its one statement; if that
  fails, the links are as before.\<close>

theorem purge_keeps_live_links:
  assumes "cleaner_step (dyn_ops E) period c (Tick t wall) c'" and "backend_inv (cl_repo c)"
  shows "backend_inv (cl_repo c') \<and> backend_view (cl_repo c') =
    (case cl_repo c of
       Memory_Backend m \<Rightarrow> live_view wall (backend_view (cl_repo c))
     | Postgres_Backend d \<Rightarrow>
         if db_fault d (db_step d) = None then live_view wall (backend_view (cl_repo c))
         else backend_view (cl_repo c))"
proof -
  have run: "cl_repo c' = snd (repo_purge_expired (dyn_ops E) wall (cl_repo c))"
    using assms(1) by (auto simp: cleaner_step_simps cleaner_tick_def Let_def split_beta)
  show ?thesis
  proof (cases "cl_repo c")
    case (Memory_Backend m)
    then show ?thesis
      using run assms(2) im.purge_total [of m wall] im.purge_inv [of m wall]
      by (cases "repo_purge_expired in_memory_ops wall m") auto
  next
    case (Postgres_Backend d)
    have "snd (repo_purge_expired (dyn_ops E) wall (cl_repo c)) = Postgres_Backend (snd (pg_purge_expired wall d))"
      using Postgres_Backend by (simp add: dispatch_def postgres_ops_simps split_beta)
    then show ?thesis
      using run Postgres_Backend assms(2) pg_purge_runs [of d wall] pg_purge_result [of wall d]
      by (cases "pg_purge_expired wall d") auto
  qed
qed

theorem purge_keeps_live_links_witness:
  "backend_view (cl_repo (cleaner_tick (dyn_ops sample_env) 30 1 6000000000 (spawn_cleaner (as_repo sample_state) 0))) =
   live_view 6000000000 (backend_view (as_repo sample_state))"
proof -
  let ?c = "spawn_cleaner (as_repo sample_state) 0"
  have "cleaner_step (dyn_ops sample_env) 30 ?c (Tick 1 6000000000) (cleaner_tick (dyn_ops sample_env) 30 1 6000000000 ?c)"
    by (simp add: cleaner_step_simps spawn_cleaner_def)
  moreover have "backend_inv (cl_repo ?c)" and "cl_repo ?c = as_repo sample_state"
    using sample_coherent by (simp_all add: coherent_state_def spawn_cleaner_def)
  ultimately show ?thesis
    using purge_keeps_live_links by (fastforce simp: sample_state_def)
qed

text \<open>In memory every link that creating one adds expires when the request says.\<close>

definition expiring :: "link_view \<Rightarrow> system_time option \<Rightarrow> backend \<Rightarrow> bool" where
  "expiring v expires s \<longleftrightarrow>
     (\<exists>m. s = Memory_Backend m \<and> in_memory_inv m \<and>
        (\<forall>c st. in_memory_view m c = Some st \<longrightarrow> v c = Some st \<or> link_expires_at (stats_link st) = expires))"

lemma expiring_insert:
  "expiring v expires r \<Longrightarrow> expiring v expires (snd (repo_insert (dyn_ops E) (new_link c url expires t) r))"
  using insert_sync_inv
  by (auto simp: expiring_def in_memory_ops_simps insert_sync_view split_beta split: if_splits)

lemma create_link_memory:
  assumes sv: "sv_repo sv = dyn_ops E" and m: "as_repo s = Memory_Backend m" "in_memory_inv m"
    and run: "create_link sv req now codes clock s = (Done (Inr resp), s')"
  obtains st m' expires where "as_repo s' = Memory_Backend m'" and "in_memory_inv m'"
    and "in_memory_view m' (lr_code (resp_body resp)) = Some st"
    and "resp_body resp = link_response_of_stats st"
    and "expires_at_from_ttl (cr_ttl_seconds req) now = Done (Inr expires)"
    and "link_expires_at (stats_link st) = expires"
proof -
  obtain u expires code s1 st repo where
    "parse_target_url (url_parse sv) (cr_target_url req) = Inr u" and
    e: "expires_at_from_ttl (cr_ttl_seconds req) now = Done (Inr expires)" and
    c: "insert_code sv (cr_custom_code req) (url_text u) expires codes clock s = (Done (Inr code), s1)" and
    st: "repo_stats (dyn_ops E) code (as_repo s1) = (Inr st, repo)" "s' = s1\<lparr>as_repo := repo\<rparr>" and
    r: "resp = \<lparr>resp_status = 201, resp_headers = [(''location'', links_path code)],
              resp_body = link_response_of_stats st\<rparr>"
    using run sv by (auto simp: create_link_def handler_steps simp del: dyn_ops_simps)
  have resp: "resp_body resp = link_response_of_stats st" by (simp add: r)
  let ?v = "in_memory_view m"
  have "expiring ?v expires (as_repo s)" using m by (simp add: expiring_def)
  moreover have "preserves (\<lambda>s. expiring ?v expires (as_repo s))
      (insert_code sv (cr_custom_code req) (url_text u) expires codes clock)"
    by (rule insert_code_preserves) (simp add: sv expiring_insert del: dyn_ops_simps)
  ultimately have "expiring ?v expires (as_repo s1)" using preservesD c by (metis snd_conv)
  then obtain m1 where m1: "as_repo s1 = Memory_Backend m1" "in_memory_inv m1"
    and ex: "\<And>c st. in_memory_view m1 c = Some st \<Longrightarrow> ?v c = Some st \<or> link_expires_at (stats_link st) = expires"
    by (auto simp: expiring_def)
  have "backend_inv (as_repo s)" using m by simp
  from repository.insert_code_created [OF dyn.repository_axioms sv this c]
  have "?v code = None" using m by (auto simp: created_def)
  moreover have "in_memory_view m1 code = Some st" "repo = Memory_Backend m1"
    using st(1) im.stats_total [OF m1(2), of code] m1
    by (auto simp: in_memory_ops_simps split: option.splits)
  moreover have "link_code (stats_link st) = code"
    using im.view_code [OF m1(2)] calculation(2) by blast
  ultimately show thesis
    using that [OF _ m1(2) _ resp e] ex [of code st] st(2) resp by (simp add: link_response_of_stats_def)
qed

text \<open>C39: the time to live of a link is kept, from the request to the redirect and the purge, on the
  in-memory store: a link created with \<open>ttl_seconds\<close> redirects until that many seconds, at
  least 60, after the clock reading of its creation, is answered 404 from that instant on, and is what a
  purge removes from then on; its response announces the time in Unix seconds. Without
  \<open>ttl_seconds\<close> it never expires. No link is created whose time is not a
  \<open>SystemTime\<close>.\<close>

theorem ttl_is_honoured:
  assumes "sv_repo sv = dyn_ops E" and "as_repo s = Memory_Backend m" and "in_memory_inv m"
    and "create_link sv req now codes clock s = (Done (Inr resp), s')"
    and "expiry = map_option (\<lambda>secs. now + uint secs * nanos_per_sec) (cr_ttl_seconds req)"
    and "code = lr_code (resp_body resp)"
  shows "(\<forall>e. expiry = Some e \<longrightarrow> now + 60 * nanos_per_sec \<le> e \<and> representable e) \<and>
    lr_expires_at_unix (resp_body resp) = map_option unix_secs expiry \<and>
    (\<forall>t hit. fst (redirect sv code t hit s') =
       (if \<exists>e. expiry = Some e \<and> e \<le> t then Done (Inl App_NotFound)
        else Done (Inr \<lparr>resp_status = 307, resp_headers = [(''location'', lr_target_url (resp_body resp))],
                        resp_body = ()\<rparr>))) \<and>
    (\<forall>wall. backend_view (snd (repo_purge_expired (dyn_ops E) wall (as_repo s'))) code = None \<longleftrightarrow>
       (\<exists>e. expiry = Some e \<and> e \<le> wall))"
proof -
  obtain st m' expires where m': "as_repo s' = Memory_Backend m'" "in_memory_inv m'"
    and st: "in_memory_view m' code = Some st" and resp: "resp_body resp = link_response_of_stats st"
    and ttl: "expires_at_from_ttl (cr_ttl_seconds req) now = Done (Inr expires)"
    and ex: "link_expires_at (stats_link st) = expires"
    using create_link_memory [OF assms(1-4)] assms(6) by metis
  have expiry: "expires = expiry" "\<forall>e. expiry = Some e \<longrightarrow> now + 60 * nanos_per_sec \<le> e \<and> representable e"
    using ttl expires_at_from_ttl_cases [of "cr_ttl_seconds req" now] assms(5)
    by (cases expires; auto simp: word_le_def)+
  have expired: "is_expired (stats_link st) t \<longleftrightarrow> (\<exists>e. expiry = Some e \<and> e \<le> t)" for t
    using ex expiry(1) by (auto simp: is_expired_def split: option.split)
  have "fst (redirect sv code t hit s') =
      (if \<exists>e. expiry = Some e \<and> e \<le> t then Done (Inl App_NotFound)
       else Done (Inr \<lparr>resp_status = 307, resp_headers = [(''location'', lr_target_url (resp_body resp))], resp_body = ()\<rparr>))" for t hit
    using redirect_memory [OF assms(1) m' st, of t hit] expired resp by (simp add: link_response_of_stats_def)
  moreover have "backend_view (snd (repo_purge_expired (dyn_ops E) wall (as_repo s'))) code = None \<longleftrightarrow>
      (\<exists>e. expiry = Some e \<and> e \<le> wall)" for wall
    using im.purge_total [OF m'(2), of wall] expired [of wall] st m'(1)
    by (cases "repo_purge_expired in_memory_ops wall m'") (simp add: live_view_def)
  ultimately show ?thesis using expiry ex resp by (simp add: link_response_of_stats_def)
qed

theorem ttl_is_honoured_witness:
  "\<exists>s' code. fst (redirect sample_service code 65999999999 0 s') =
       Done (Inr \<lparr>resp_status = 307, resp_headers = [(''location'', ''u'')], resp_body = ()\<rparr>) \<and>
     fst (redirect sample_service code 66000000000 0 s') = Done (Inl App_NotFound)"
proof -
  let ?req = "\<lparr>cr_target_url = ''u'', cr_custom_code = Some ''efgh'', cr_ttl_seconds = Some 60\<rparr>"
  have sv: "sv_repo sample_service = dyn_ops sample_env" by (simp add: sample_service_def)
  have m: "as_repo sample_state = Memory_Backend sample_memory"
    by (simp add: sample_state_def sample_memory_def)
  obtain resp s' where run: "create_link sample_service ?req 6000000000 (\<lambda>_. ''abcd'') (\<lambda>_. 6000000000) sample_state =
      (Done (Inr resp), s')" and target: "lr_target_url (resp_body resp) = ''u''"
    using sample_create_ttl by blast
  from ttl_is_honoured [OF sv m sample_memory_view(1) run refl refl] target show ?thesis
    by (intro exI [of _ s'] exI [of _ "lr_code (resp_body resp)"]) simp
qed

text \<open>Every response of the application that a handler produced carries an \<open>x-request-id\<close>, the
  client's own or a fresh UUID; an error body names that same id; and the response is counted exactly
  once, under its method, the template of its path and its status. Where the client's header is not text
  the error bodies name none.\<close>

theorem request_id_travels:
  assumes "app sv C cancelled i uuid req (s, counter) = (Done resp, s', counter')"
  shows "(case (case rq_header req ''x-request-id'' of None \<Rightarrow> Some uuid | Some v \<Rightarrow> v) of
       Some rid \<Rightarrow> map_of (resp_headers resp) ''x-request-id'' = Some rid \<and> ids_ok (Some rid) (resp_body resp)
     | None \<Rightarrow> ids_ok None (resp_body resp)) \<and>
    counter' = counter @ [(rq_method req, route_template (rq_path req), show_nat (resp_status resp))]"
proof -
  let ?req = "set_request_id uuid req"
  let ?id = "header_text ?req ''x-request-id''"
  have same: "rq_method ?req = rq_method req" "rq_path ?req = rq_path req"
    by (simp_all add: set_request_id_def split: option.split)
  from assms obtain resp0 where run: "serve_in_scope sv C cancelled i (Some ?id) ?req s = (Done resp0, s')"
    and resp: "resp = propagate_request_id ?req resp0"
    and c: "counter' = counter @ [(rq_method req, route_template (rq_path req), show_nat (resp_status resp))]"
    by (auto simp: app_def request_id_scope_def http_metrics_middleware_def same Let_def
        split: prod.splits run.splits)
  have "ids_ok ?id (resp_body resp)" using serve_in_scope_ids [OF run] resp by simp
  moreover have "map_of (resp_headers resp) ''x-request-id'' = Some rid" if "?id = Some rid" for rid
    using propagate_adds [OF that serve_in_scope_sets_id [OF run]] resp by simp
  ultimately show ?thesis
    using c header_text_set [of uuid req] by (auto split: option.splits)
qed

theorem request_id_travels_witness:
  "\<exists>resp s' counter. app sample_service (sample_crypto ''x'') False sample_inputs ''uuid''
     (sample_request ''/healthz'') (sample_state, []) = (Done resp, s', counter) \<and>
     map_of (resp_headers resp) ''x-request-id'' = Some ''uuid'' \<and> length counter = 1"
proof -
  have "route ''GET'' ''/healthz'' = (False, E_Healthz)"
    by (simp add: route_def public_route_def protected_route_def by_method_def swagger_path_def starts_with_def)
  then have "\<exists>resp s' counter. app sample_service (sample_crypto ''x'') False sample_inputs ''uuid''
     (sample_request ''/healthz'') (sample_state, []) = (Done resp, s', counter)"
    by (simp add: app_def request_id_scope_def http_metrics_middleware_def serve_in_scope_def set_request_id_def
        sample_request_def handle_def Let_def)
  then obtain resp s' counter where run: "app sample_service (sample_crypto ''x'') False sample_inputs
      ''uuid'' (sample_request ''/healthz'') (sample_state, []) = (Done resp, s', counter)" by blast
  from request_id_travels [OF run] show ?thesis using run by (simp add: sample_request_def)
qed

end
