(* ===== verification/Layers.thy ===== *)
theory Layers
  imports Async_Tasks Service_Properties
begin

text \<open>
  The whole stack of \<open>build_router\<close> in \<open>shorty-server/src/lib.rs\<close>, with the two layers that \<open>Router\<close> leaves
  out: the time-out, which answers 503 in the place of a handler that takes too long and drops it at the
  \<open>await\<close> it has come to, and the limit of the body. What the second answers is a parameter: the response to
  a request that is too large, by the limit and the request. A dropped handler is the task of
  \<open>Async_Tasks\<close> after some of its steps.
\<close>

section \<open>Dropped handlers\<close>

definition request_task :: "endpoint \<Rightarrow> inputs \<Rightarrow> task option" where
  "request_task ep i =
     (case ep of
        E_Redirect code \<Rightarrow> Some (Redirect code (in_now i) (in_hit i) Redirect_Get)
      | E_Get code \<Rightarrow> Some (Get code (in_offset i) Get_Cache)
      | E_Update code \<Rightarrow>
          (case in_update i of Inl _ \<Rightarrow> None | Inr req \<Rightarrow> Some (Update code req (in_now i) Update_Repo))
      | E_Delete code \<Rightarrow> Some (Delete code Delete_Repo)
      | E_Create \<Rightarrow>
          (case in_create i of Inl _ \<Rightarrow> None
           | Inr req \<Rightarrow> Some (Create req \<lparr>cd_now = in_now i, cd_codes = in_codes i, cd_clock = in_clock i\<rparr> Create_Start))
      | _ \<Rightarrow> None)"

text \<open>
  The state a request leaves behind that is dropped after \<open>k\<close> calls. Handlers that are no task make at
  most one call; authentication makes none, so a request it refuses is answered.
\<close>

definition dropped ::
  "('s, 'r) services \<Rightarrow> ('ek, 'dk) crypto \<Rightarrow> bool \<Rightarrow> inputs \<Rightarrow> id_scope \<Rightarrow> nat \<Rightarrow>
   http_request \<Rightarrow> ('s, 'r) app_state \<Rightarrow> ('s, 'r) app_state" where
  "dropped sv C cancelled i scope k req s =
     (let (protected, ep) = route (rq_method req) (rq_path req);
          run = (\<lambda>s. case request_task ep i of
                   Some t \<Rightarrow> snd (steps_of sv k t s)
                 | None \<Rightarrow> if k = 0 then s else snd (handle sv C cancelled scope i ep s))
      in if protected
         then snd (auth_middleware C (cfg_auth (sv_config sv)) (\<lambda>_ _ s. ((), run s)) req (in_now i) s)
         else run s)"

section \<open>The layers\<close>

text \<open>\<open>late\<close> is the number of calls after which the time-out strikes, \<open>None\<close> where it does not.\<close>

definition timeout_layer ::
  "nat \<Rightarrow> nat option \<Rightarrow> (nat \<Rightarrow> http_request \<Rightarrow> 's \<Rightarrow> 's) \<Rightarrow>
   (http_request \<Rightarrow> 's \<Rightarrow> payload http_response run \<times> 's) \<Rightarrow>
   http_request \<Rightarrow> 's \<Rightarrow> payload http_response run \<times> 's" where
  "timeout_layer status late abandon run_next req s =
     (case late of
        None \<Rightarrow> run_next req s
      | Some k \<Rightarrow> (Done (plain status P_Empty), abandon k req s))"

definition body_limit_layer ::
  "(http_request \<Rightarrow> payload http_response option) \<Rightarrow>
   (http_request \<Rightarrow> 's \<Rightarrow> payload http_response run \<times> 's) \<Rightarrow>
   http_request \<Rightarrow> 's \<Rightarrow> payload http_response run \<times> 's" where
  "body_limit_layer too_large run_next req s =
     (case too_large req of Some response \<Rightarrow> (Done response, s) | None \<Rightarrow> run_next req s)"

definition layered_app ::
  "('s, 'r) services \<Rightarrow> ('ek, 'dk) crypto \<Rightarrow>
   (u64 \<Rightarrow> http_request \<Rightarrow> payload http_response option) \<Rightarrow> bool \<Rightarrow> inputs \<Rightarrow> string \<Rightarrow> nat option \<Rightarrow>
   http_request \<Rightarrow> ('s, 'r) app_state \<times> labels list \<Rightarrow>
   payload http_response run \<times> ('s, 'r) app_state \<times> labels list" where
  "layered_app sv C body_limit cancelled i uuid late req =
     request_id_scope (set_request_id uuid req) (\<lambda>scope.
       http_metrics_middleware
         (timeout_layer 503 late (\<lambda>k. dropped sv C cancelled i scope k)
           (body_limit_layer (body_limit (max_body_bytes (sv_config sv)))
             (\<lambda>req s.
               (case serve_in_scope sv C cancelled i scope req s of
                  (Panic, s') \<Rightarrow> (Panic, s')
                | (Done response, s') \<Rightarrow> (Done (propagate_request_id req response), s'))))))"

text \<open>Without a time-out and with a body that is small enough it is the stack of \<open>Router\<close>.\<close>

lemma layered_app_is_app:
  assumes "body_limit (max_body_bytes (sv_config sv)) (set_request_id uuid req) = None"
  shows "layered_app sv C body_limit cancelled i uuid None req = app sv C cancelled i uuid req"
  using assms
  by (simp add: layered_app_def app_def request_id_scope_def http_metrics_middleware_def timeout_layer_def
      body_limit_layer_def fun_eq_iff Let_def)

section \<open>A dropped handler changes the links entirely or not at all\<close>

text \<open>A task is committed once it has made its change to the store.\<close>

fun committed :: "task \<Rightarrow> bool" where
  "committed (Redirect code now hit p) \<longleftrightarrow> (case p of Redirect_Get \<Rightarrow> False | Redirect_Hit _ \<Rightarrow> False | _ \<Rightarrow> True)"
| "committed (Get code offset p) \<longleftrightarrow> True"
| "committed (Update code req now p) \<longleftrightarrow> p \<noteq> Update_Repo"
| "committed (Delete code p) \<longleftrightarrow> p \<noteq> Delete_Repo"
| "committed (Create req d p) \<longleftrightarrow> (case p of Create_Start \<Rightarrow> False | Create_Try _ _ \<Rightarrow> False | _ \<Rightarrow> True)"

lemma steps_of_add:
  "steps_of sv (m + n) t s = (let (t', s') = steps_of sv m t s in steps_of sv n t' s')"
  by (induction m arbitrary: t s) (simp_all add: Let_def split_beta)

context repository
begin

lemma committed_step:
  assumes sv: "sv_repo sv = R" and inv: "inv (as_repo s)" and step: "task_step sv t s = (t', s')"
  shows "(committed t \<longrightarrow> committed t' \<and> view (as_repo s') = view (as_repo s)) \<and>
    (committed t' \<or> view (as_repo s') = view (as_repo s))"
proof (cases t)
  case (Redirect code now hit p)
  then show ?thesis
    using step get_view [OF inv, of code]
    by (cases p) (auto simp: step_defs sv split: prod.splits sum.splits)
next
  case (Get code offset p)
  then show ?thesis
    using step stats_view [OF inv, of code]
    by (cases p) (auto simp: step_defs sv split: prod.splits sum.splits option.splits)
next
  case (Update code req now p)
  then show ?thesis
    using step by (cases p) (auto simp: step_defs sv split: prod.splits sum.splits)
next
  case (Delete code p)
  then show ?thesis
    using step by (cases p) (auto simp: step_defs sv split: prod.splits sum.splits)
next
  case (Create req d p)
  then obtain p' where p': "t' = Create req d p'" "create_step sv req d p s = (p', s')"
    using step by (auto split: prod.splits)
  show ?thesis
  proof (cases p)
    case Create_Start
    then show ?thesis using create_step_view [OF sv inv p'(2)] p'(1) Create by auto
  next
    case (Create_Try plan i)
    then show ?thesis using create_step_view [OF sv inv p'(2)] p'(1) Create by auto
  next
    case (Create_Stats code)
    then show ?thesis
      using p' Create stats_view [OF inv, of code]
      by (auto simp: create_step_def on_repo_def sv split: prod.splits sum.splits)
  next
    case (Create_Done r)
    then show ?thesis using p' Create by (auto simp: create_step_def)
  qed
qed

lemma committed_steps:
  assumes sv: "sv_repo sv = R" and inv: "inv (as_repo s)" and run: "steps_of sv n t s = (t', s')"
  shows "inv (as_repo s') \<and> (committed t \<longrightarrow> committed t' \<and> view (as_repo s') = view (as_repo s)) \<and>
    (committed t' \<or> view (as_repo s') = view (as_repo s))"
  using inv run
proof (induction n arbitrary: t s)
  case (Suc n)
  obtain t1 s1 where step: "task_step sv t s = (t1, s1)" by fastforce
  have "inv (as_repo s1)" using task_step_inv [OF sv Suc.prems(1) step] .
  from Suc.IH [OF this, of t1] committed_step [OF sv Suc.prems(1) step] show ?case
    using Suc.prems(2) step by auto
qed simp

lemma prefix_is_atomic:
  assumes sv: "sv_repo sv = R" and inv: "inv (as_repo s)" and "k \<le> n"
  shows "view (as_repo (snd (steps_of sv k t s))) \<in> {view (as_repo s), view (as_repo (snd (steps_of sv n t s)))}"
proof -
  obtain t1 s1 where k: "steps_of sv k t s = (t1, s1)" by fastforce
  obtain t2 s2 where n: "steps_of sv (n - k) t1 s1 = (t2, s2)" by fastforce
  have "steps_of sv n t s = (t2, s2)" using steps_of_add [of sv k "n - k" t s] assms(3) k n by simp
  then show ?thesis
    using committed_steps [OF sv inv k] committed_steps [OF sv _ n] k by auto
qed

end

text \<open>A task that is done stays as it is.\<close>

fun finished :: "task \<Rightarrow> bool" where
  "finished (Redirect code now hit (Redirect_Done r)) = True"
| "finished (Get code offset (Get_Done r)) = True"
| "finished (Update code req now (Update_Done r)) = True"
| "finished (Delete code (Delete_Done r)) = True"
| "finished (Create req d (Create_Done r)) = True"
| "finished _ = False"

lemma finished_steps: "finished t \<Longrightarrow> steps_of sv n t s = (t, s)"
  by (induction n) (cases t rule: finished.cases; simp add: step_defs create_step_def)+

lemma drop_is_atomic:
  assumes "sv_repo sv = dyn_ops E" and "backend_inv (as_repo s)"
    and "steps_of sv n t s = (t', s')" and "finished t'"
  shows "backend_view (as_repo (snd (steps_of sv k t s))) \<in> {backend_view (as_repo s), backend_view (as_repo s')}"
proof (cases "k \<le> n")
  case True
  then show ?thesis
    using repository.prefix_is_atomic [OF dyn.repository_axioms assms(1,2) True, of t] assms(3) by simp
next
  case False
  then have "steps_of sv k t s = (t', s')"
    using steps_of_add [of sv n "k - n" t s] assms(3) finished_steps [OF assms(4)] by simp
  then show ?thesis by simp
qed

text \<open>The task of a request ends in the state its handler leaves.\<close>

lemma snd_respond: "snd (respond scope ok m s) = snd (m s)"
  by (auto simp: respond_def split: prod.splits run.splits sum.splits)

lemma with_json_ok: "with_json (Inr req) f = f req"
  by (simp add: with_json_def app_json_def h_bind_def h_result_def fun_eq_iff)

lemma request_task_handles:
  assumes "request_task ep i = Some t"
  shows "\<exists>n t'. steps_of sv n t s = (t', snd (handle sv C cancelled scope i ep s)) \<and> finished t'"
proof (cases ep)
  case (E_Redirect code)
  then show ?thesis
    using assms redirect_alone [of sv code "in_now i" "in_hit i" s]
    by (fastforce simp: request_task_def handle_def snd_respond)
next
  case (E_Get code)
  then show ?thesis
    using assms get_alone [of sv code "in_offset i" s]
    by (cases "get_link sv code (in_offset i) s") (fastforce simp: request_task_def handle_def snd_respond)
next
  case (E_Update code)
  then obtain req where "in_update i = Inr req" "t = Update code req (in_now i) Update_Repo"
    using assms by (auto simp: request_task_def split: sum.splits)
  then show ?thesis
    using E_Update update_alone [of sv code req "in_now i" s]
    by (fastforce simp: handle_def snd_respond with_json_ok)
next
  case (E_Delete code)
  then show ?thesis
    using assms delete_alone [of sv code s]
    by (fastforce simp: request_task_def handle_def snd_respond)
next
  case E_Create
  then obtain req where req: "in_create i = Inr req"
    "t = Create req \<lparr>cd_now = in_now i, cd_codes = in_codes i, cd_clock = in_clock i\<rparr> Create_Start"
    using assms by (auto simp: request_task_def split: sum.splits)
  obtain r s' where run: "create_link sv req (in_now i) (in_codes i) (in_clock i) s = (r, s')" by fastforce
  have "steps_of sv (unat (max_generate_attempts (sv_config sv)) + 2) t s =
      (Create req \<lparr>cd_now = in_now i, cd_codes = in_codes i, cd_clock = in_clock i\<rparr> (Create_Done r), s')"
    unfolding req(2) create_alone by (simp add: run)
  moreover have "snd (handle sv C cancelled scope i ep s) = s'"
    using E_Create req(1) run by (simp add: handle_def snd_respond with_json_ok)
  ultimately show ?thesis by (metis finished.simps(5))
qed (use assms in \<open>simp_all add: request_task_def\<close>)

section \<open>Samples\<close>

text \<open>
  The responses of the two layers do not pass the layer that copies the request id, which is inside.
\<close>

lemma timed_out_has_no_request_id:
  "\<exists>s'. layered_app sv C body_limit cancelled i uuid (Some k) req s =
     (Done (plain 503 P_Empty), s') \<and> ''x-request-id'' \<notin> fst ` set (resp_headers (plain 503 P_Empty))"
  by (cases s) (simp add: layered_app_def request_id_scope_def http_metrics_middleware_def timeout_layer_def plain_def Let_def)

text \<open>An update that is dropped between the store and the cache leaves the old response in the cache.\<close>

lemma dropped_update_leaves_stale_entry:
  "\<exists>t s'. steps_of sample_service 1 (Update ''abcd'' \<lparr>ur_target_url = ''v'', ur_version = 1\<rparr> 6000000000 Update_Repo)
       sample_state = (t, s') \<and>
     map_option (link_target_url \<circ> stats_link) (backend_view (as_repo s') ''abcd'') = Some ''v'' \<and>
     fst (get_link sample_service ''abcd'' 0 s') = Done (Inr (sample_response 0)) \<and>
     lr_target_url (sample_response 0) = ''https://a.org/''"
  unfolding sample_state_def sample_service_def insert_sync_def in_memory_new_def short_link_new_def link_entry_new_def
  by (simp add: step_defs dispatch_def in_memory_ops_simps update_sync_def cache_get_def cache_from_manager_def
      map_redis_def sample_link_values sample_response_def record_cache_hit_def parse_target_url_def get_link_def
      in_memory_view_def entry_stats_def)

section \<open>Properties\<close>

text \<open>C9: on either store, a request that the time-out drops has changed the links as the whole
  request would have, or not at all, however far it has come: a client that is answered 503 never leaves
  half an update behind.\<close>

theorem timed_out_request_is_atomic:
  assumes "sv_repo sv = dyn_ops E" and "backend_inv (as_repo s)"
  shows "backend_view (as_repo (dropped sv C cancelled i scope k req s)) \<in>
    {backend_view (as_repo s), backend_view (as_repo (snd (serve_in_scope sv C cancelled i scope req s)))}"
proof -
  obtain b ep where r: "route (rq_method req) (rq_path req) = (b, ep)" by fastforce
  let ?h = "snd (handle sv C cancelled scope i ep s)"
  let ?run = "\<lambda>s. case request_task ep i of Some t \<Rightarrow> snd (steps_of sv k t s)
                | None \<Rightarrow> if k = 0 then s else snd (handle sv C cancelled scope i ep s)"
  have "backend_view (as_repo (?run s)) \<in> {backend_view (as_repo s), backend_view (as_repo ?h)}"
  proof (cases "request_task ep i")
    case (Some t)
    obtain n t' where "steps_of sv n t s = (t', ?h)" "finished t'"
      using request_task_handles [OF Some] by blast
    then show ?thesis using drop_is_atomic [OF assms] Some by simp
  qed simp
  then show ?thesis
    using r
    by (auto simp: dropped_def serve_in_scope_def auth_middleware_def Let_def split: option.splits sum.splits prod.splits)
qed

theorem timed_out_request_is_atomic_witness:
  "backend_view (as_repo (dropped sample_service (sample_crypto ''x'') False sample_inputs None 2
       (sample_request ''/abcd'') sample_state)) \<in>
     {backend_view (as_repo sample_state), backend_view (as_repo (snd (serve_in_scope sample_service
       (sample_crypto ''x'') False sample_inputs None (sample_request ''/abcd'') sample_state)))}"
proof -
  have "sv_repo sample_service = dyn_ops sample_env" "backend_inv (as_repo sample_state)"
    using sample_coherent by (simp_all add: sample_service_def coherent_state_def)
  then show ?thesis by (rule timed_out_request_is_atomic)
qed

text \<open>C33: every response of the application is counted exactly once, under its method, the template
  of its path and its status. Unless it was the time-out or the limit of the body that answered, the
  response carries in \<open>x-request-id\<close> the text the client sent, or the fresh UUID where it sent
  none, and an error body names that same id; where the client's header is not text, an error body names
  none; the time-out answers 503 with neither a body nor an id. A handler that panics gives no response and
  is not counted.\<close>

theorem every_response_is_accounted:
  assumes "layered_app sv C body_limit cancelled i uuid late req (s, counter) = (Done resp, s', counter')"
  shows "counter' = counter @ [(rq_method req, route_template (rq_path req), show_nat (resp_status resp))] \<and>
    (case late of
       Some k \<Rightarrow> resp = plain 503 P_Empty \<and> ''x-request-id'' \<notin> fst ` set (resp_headers resp)
     | None \<Rightarrow>
         (case body_limit (max_body_bytes (sv_config sv)) (set_request_id uuid req) of
            Some response \<Rightarrow> resp = response \<and> s' = s
          | None \<Rightarrow>
              (case (case rq_header req ''x-request-id'' of None \<Rightarrow> Some uuid | Some v \<Rightarrow> v) of
                 Some rid \<Rightarrow> map_of (resp_headers resp) ''x-request-id'' = Some rid \<and>
                   ids_ok (Some rid) (resp_body resp)
               | None \<Rightarrow> ids_ok None (resp_body resp))))"
proof -
  let ?req = "set_request_id uuid req"
  have same: "rq_method ?req = rq_method req" "rq_path ?req = rq_path req"
    by (simp_all add: set_request_id_def split: option.split)
  have count: "counter' = counter @ [(rq_method req, route_template (rq_path req), show_nat (resp_status resp))]"
    using assms by (auto simp: layered_app_def request_id_scope_def http_metrics_middleware_def same Let_def
        split: prod.splits run.splits)
  show ?thesis
  proof (cases late)
    case (Some k)
    then show ?thesis
      using assms count by (auto simp: layered_app_def request_id_scope_def http_metrics_middleware_def
          timeout_layer_def Let_def plain_def)
  next
    case None
    show ?thesis
    proof (cases "body_limit (max_body_bytes (sv_config sv)) ?req")
      case (Some response)
      then show ?thesis
        using assms count None by (simp add: layered_app_def request_id_scope_def http_metrics_middleware_def
            timeout_layer_def body_limit_layer_def Let_def)
    next
      case no_limit: None
      have "app sv C cancelled i uuid req (s, counter) = (Done resp, s', counter')"
        using assms None layered_app_is_app [of body_limit sv uuid req C cancelled i, OF no_limit] by simp
      from request_id_travels [OF this] show ?thesis
        using count None no_limit by simp
    qed
  qed
qed

theorem every_response_is_accounted_witness:
  "\<exists>resp s' counter. layered_app sample_service (sample_crypto ''x'') (\<lambda>_ _. None) False sample_inputs ''uuid''
     None (sample_request ''/healthz'') (sample_state, []) = (Done resp, s', counter) \<and>
     map_of (resp_headers resp) ''x-request-id'' = Some ''uuid'' \<and> length counter = 1"
proof -
  have "route ''GET'' ''/healthz'' = (False, E_Healthz)"
    by (simp add: route_def public_route_def protected_route_def by_method_def swagger_path_def starts_with_def)
  then have "\<exists>resp s' counter. layered_app sample_service (sample_crypto ''x'') (\<lambda>_ _. None) False
     sample_inputs ''uuid'' None (sample_request ''/healthz'') (sample_state, []) = (Done resp, s', counter)"
    by (simp add: layered_app_is_app app_def request_id_scope_def http_metrics_middleware_def serve_in_scope_def
        set_request_id_def sample_request_def handle_def Let_def)
  then obtain resp s' counter where run: "layered_app sample_service (sample_crypto ''x'') (\<lambda>_ _. None) False
     sample_inputs ''uuid'' None (sample_request ''/healthz'') (sample_state, []) = (Done resp, s', counter)" by blast
  from every_response_is_accounted [OF run] show ?thesis using run by (simp add: sample_request_def)
qed

end
