(* ===== verification/Listing.thy ===== *)
theory Listing
  imports Sample_Service
begin

text \<open>
  A client of \<open>GET /api/v1/links\<close> that follows \<open>next_cursor\<close>, over \<open>list_links\<close> of
  \<open>shorty-server/src/api/handlers.rs\<close> and its encoding of cursors: it receives what a caller of the trait
  receives that follows the cursors of the store, hence on the in-memory store every link once.
\<close>

section \<open>The client\<close>

definition page_params :: "string \<Rightarrow> string option \<Rightarrow> string \<Rightarrow> string option" where
  "page_params limit token name =
     (if name = ''limit'' then Some limit else if name = ''cursor'' then token else None)"

text \<open>As \<open>walk_pages\<close>, with the encoded cursor of each response in the next request.\<close>

fun walk_http ::
  "('s, 'r) services \<Rightarrow> string \<Rightarrow> nat \<Rightarrow> string option \<Rightarrow> ('s, 'r) app_state \<Rightarrow>
   (app_error + link_response list) run" where
  "walk_http sv limit 0 token s = Panic"
| "walk_http sv limit (Suc fuel) token s =
     (case list_links sv (page_params limit token) s of
        (Panic, s') \<Rightarrow> Panic
      | (Done (Inl e), s') \<Rightarrow> Done (Inl e)
      | (Done (Inr r), s') \<Rightarrow>
          (case ll_next_cursor r of
             None \<Rightarrow> Done (Inr (ll_links r))
           | Some t \<Rightarrow>
               (case walk_http sv limit fuel (Some t) s' of
                  Panic \<Rightarrow> Panic
                | Done (Inl e) \<Rightarrow> Done (Inl e)
                | Done (Inr rest) \<Rightarrow> Done (Inr (ll_links r @ rest)))))"

section \<open>Encoded cursors\<close>

text \<open>JSON and base64 read back what they wrote; a Rust string is valid UTF-8.\<close>

definition cursor_round_trip :: "('s, 'r) services \<Rightarrow> cursor \<Rightarrow> bool" where
  "cursor_round_trip sv c \<longleftrightarrow>
     (\<exists>json. cursor_to_json sv c = Some json \<and> cursor_from_json sv json = Some c \<and>
        from_utf8 json = Some json \<and> base64_decode sv (base64_encode sv json) = Some json)"

lemma list_cursor_encoded:
  assumes "cursor_round_trip sv c"
  shows "\<exists>t. encode_cursor sv c = Done t \<and> list_cursor sv (page_params limit (Some t)) = Some c"
proof -
  obtain json where j: "cursor_to_json sv c = Some json" "cursor_from_json sv json = Some c"
    "from_utf8 json = Some json" "base64_decode sv (base64_encode sv json) = Some json"
    using assms unfolding cursor_round_trip_def by blast
  have "encode_cursor sv c = Done (base64_encode sv json)" by (simp add: encode_cursor_def j(1))
  moreover have "list_cursor sv (page_params limit (Some (base64_encode sv json))) = Some c"
    by (simp add: list_cursor_def page_params_def j(2-4))
  ultimately show ?thesis by blast
qed

lemma list_limit_page: "list_limit (page_params limit token) = list_limit (page_params limit None)"
  by (simp add: list_limit_def page_params_def)

lemma list_cursor_none: "list_cursor sv (page_params limit None) = None"
  by (simp add: list_cursor_def page_params_def)

section \<open>The client against the store\<close>

text \<open>
  \<open>Q\<close> holds of the states of the walk; there the cursor of a page is the one of its last link.
\<close>

lemma walk_http_follows:
  assumes step: "\<And>n cur r page c r'. Q r \<Longrightarrow> repo_list (sv_repo sv) n cur r = (Done (Inr (page, c)), r') \<Longrightarrow>
      Q r' \<and> (c = None \<or> page \<noteq> [] \<and> c = Some (cursor_of (last page)))"
    and "walk_pages (sv_repo sv) (list_limit (page_params limit None)) fuel cur (as_repo s) = Done (Inr ls)"
    and "\<forall>l \<in> set ls. cursor_round_trip sv (cursor_of l)" and "Q (as_repo s)"
    and "list_cursor sv (page_params limit token) = cur"
  shows "walk_http sv limit fuel token s = Done (Inr (map link_response_of_link ls))"
  using assms(2-5)
proof (induction fuel arbitrary: cur token s ls)
  case (Suc fuel)
  let ?limit = "list_limit (page_params limit None)"
  obtain r repo where run: "repo_list (sv_repo sv) ?limit cur (as_repo s) = (r, repo)" by fastforce
  then obtain page nxt where r: "r = Done (Inr (page, nxt))"
    using Suc.prems(1) by (cases r rule: run.exhaust) (auto split: sum.splits)
  note Q = step [OF Suc.prems(3) run [unfolded r]]
  show ?case
  proof (cases nxt)
    case None
    then show ?thesis
      using Suc.prems(1,4) run r list_limit_page [of limit token] by (simp add: list_links_def on_repo_def Let_def)
  next
    case (Some c)
    obtain rest where rest: "walk_pages (sv_repo sv) ?limit fuel (Some c) repo = Done (Inr rest)"
      and ls: "ls = page @ rest"
      using Suc.prems(1) run r Some by (auto split: run.splits sum.splits)
    have "cursor_round_trip sv c" using Q Some Suc.prems(2) ls by auto
    then obtain t where t: "encode_cursor sv c = Done t" "list_cursor sv (page_params limit (Some t)) = Some c"
      using list_cursor_encoded by blast
    have "walk_http sv limit fuel (Some t) (s\<lparr>as_repo := repo\<rparr>) = Done (Inr (map link_response_of_link rest))"
      by (rule Suc.IH) (use rest Suc.prems(2) ls Q t in auto)
    then show ?thesis
      using Suc.prems(4) run r Some t ls list_limit_page [of limit token]
      by (simp add: list_links_def on_repo_def Let_def)
  qed
qed simp

lemma walk_dyn:
  "walk_pages (dyn_ops E) limit fuel cur (Memory_Backend m) = walk_pages in_memory_ops limit fuel cur m"
  "walk_pages (dyn_ops E) limit fuel cur (Postgres_Backend d) = walk_pages (postgres_ops E) limit fuel cur d"
proof -
  show "walk_pages (dyn_ops E) limit fuel cur (Memory_Backend m) = walk_pages in_memory_ops limit fuel cur m"
  proof (induction fuel arbitrary: cur m)
    case (Suc fuel)
    obtain r m' where run: "repo_list in_memory_ops limit cur m = (r, m')" by fastforce
    then have dyn: "repo_list (dyn_ops E) limit cur (Memory_Backend m) = (r, Memory_Backend m')" by auto
    show ?case unfolding walk_pages.simps run dyn by (simp add: Suc.IH split: run.split sum.split option.split)
  qed simp
  show "walk_pages (dyn_ops E) limit fuel cur (Postgres_Backend d) = walk_pages (postgres_ops E) limit fuel cur d"
  proof (induction fuel arbitrary: cur d)
    case (Suc fuel)
    obtain r d' where run: "repo_list (postgres_ops E) limit cur d = (r, d')" by fastforce
    then have dyn: "repo_list (dyn_ops E) limit cur (Postgres_Backend d) = (r, Postgres_Backend d')" by auto
    show ?case unfolding walk_pages.simps run dyn by (simp add: Suc.IH split: run.split sum.split option.split)
  qed simp
qed

lemma memory_page:
  assumes "repo_list (dyn_ops E) n cur (Memory_Backend m) = (Done (Inr (page, c)), r')"
  shows "r' = Memory_Backend m \<and> (c = None \<or> page \<noteq> [] \<and> c = Some (created_at_cursor (last page)))"
proof -
  have list: "list_sync n cur m = Done (page, c)" and "r' = Memory_Backend m"
    using assms by (auto simp: in_memory_ops_simps split: run.splits)
  moreover have "c = (if page = [] then None else Some (created_at_cursor (last page)))"
    using list_sync_Done [OF list] by metis
  ultimately show ?thesis by simp
qed

lemma postgres_page:
  assumes "repo_list (dyn_ops E) n cur (Postgres_Backend d) = (Done (Inr (page, c)), r')"
  shows "(\<exists>d'. r' = Postgres_Backend d') \<and> (c = None \<or> page \<noteq> [] \<and> c = Some (pg_cursor E (last page)))"
  using assms
  by (auto simp: postgres_ops_simps pg_list_def Let_def split: prod.splits sum.splits if_splits)

text \<open>The same on PostgreSQL, where the cursors are exact and no statement fails.\<close>

lemma http_paging_postgres:
  assumes "sv_repo sv = dyn_ops E" and "as_repo s = Postgres_Backend db"
    and "walk_pages (postgres_ops E) (list_limit (page_params limit None)) fuel None db = Done (Inr ls)"
    and "\<forall>l \<in> set ls. cursor_round_trip sv (pg_cursor E l)"
  shows "walk_http sv limit fuel None s = Done (Inr (map link_response_of_link ls))"
  by (rule walk_http_follows [where Q = "\<lambda>r. \<exists>d. r = Postgres_Backend d" and cursor_of = "pg_cursor E" and cur = None])
     (use assms in \<open>auto simp: walk_dyn list_cursor_none simp del: dyn_ops_simps dest!: postgres_page\<close>)

section \<open>Properties\<close>

text \<open>C15: over HTTP, too, a client that follows the cursors of the listing gets every link of the
  in-memory store exactly once, newest first, with the page size it asks for up to the 100 the handler
  allows: the encoding of the cursors loses nothing (JSON and base64 read back what they wrote), and one
  request more than there are links is enough. A client that asks for \<open>limit=0\<close> is answered an
  empty listing instead.\<close>

theorem http_paging_is_complete:
  assumes "sv_repo sv = dyn_ops E" and "as_repo s = Memory_Backend m" and "in_memory_inv m"
    and "length (im_inner m) < 2 ^ 63"
    and "\<forall>l \<in> set (sorted_links m). cursor_round_trip sv (created_at_cursor l)"
  shows "walk_http sv limit (Suc (length (im_inner m))) None s =
      Done (Inr (map link_response_of_link
        (if list_limit (page_params limit None) = 0 then [] else sorted_links m))) \<and>
    distinct (map link_code (sorted_links m)) \<and> newest_first (sorted_links m) \<and>
    (\<forall>l. l \<in> set (sorted_links m) \<longleftrightarrow>
       (\<exists>st. in_memory_view m (link_code l) = Some st \<and> stats_link st = l))"
proof -
  let ?limit = "list_limit (page_params limit None)"
  let ?ls = "if ?limit = 0 then [] else sorted_links m"
  have "unat ?limit \<le> 100"
    using word_le_nat_alt [of ?limit 100] by (simp add: list_limit_def)
  then have "unat ?limit + length (im_inner m) < 2 ^ 64" using assms(4) by simp
  note complete = paging_memory [OF assms(3) this]
  then have "walk_http sv limit (Suc (length (im_inner m))) None s = Done (Inr (map link_response_of_link ?ls))"
    by (intro walk_http_follows [where Q = "\<lambda>r. r = Memory_Backend m" and cursor_of = created_at_cursor and cur = None])
       (use assms(1,2,5) in \<open>auto simp: walk_dyn list_cursor_none simp del: dyn_ops_simps walk_pages.simps
          dest!: memory_page split: if_splits\<close>)
  then show ?thesis
    using sorted_links_distinct [OF assms(3)] sorted_links_mem [OF assms(3)] sorted_list_key_newest by simp
qed

text \<open>Two links, read one by one, with cursors as two fields and a comma.\<close>

definition sample_listing_service :: "(backend, string \<rightharpoonup> string) services" where
  "sample_listing_service = sample_service
     \<lparr>cursor_to_json := (\<lambda>(ts, code). Some (ts @ CHR '','' # code)),
      cursor_from_json := (\<lambda>s. case split_on CHR '','' s of [ts, code] \<Rightarrow> Some (ts, code) | _ \<Rightarrow> None)\<rparr>"

theorem http_paging_is_complete_witness:
  "walk_http sample_listing_service ''1'' 3 None
     \<lparr>as_repo = Memory_Backend (snd (insert_sync (short_link_new ''b'' ''y'' 7000000000)
        (snd (insert_sync (short_link_new ''a'' ''x'' 5000000000) in_memory_new)))),
      as_stats = stats_storage_new, as_cache = cache_disabled\<rparr> =
   Done (Inr (map link_response_of_link [short_link_new ''b'' ''y'' 7000000000, short_link_new ''a'' ''x'' 5000000000]))"
proof -
  let ?m1 = "snd (insert_sync (short_link_new ''a'' ''x'' 5000000000) in_memory_new)"
  let ?m = "snd (insert_sync (short_link_new ''b'' ''y'' 7000000000) ?m1)"
  let ?s = "\<lparr>as_repo = Memory_Backend ?m, as_stats = stats_storage_new, as_cache = cache_disabled\<rparr>"
  have inner: "im_inner ?m = [(''a'', link_entry_new (short_link_new ''a'' ''x'' 5000000000)),
      (''b'', link_entry_new (short_link_new ''b'' ''y'' 7000000000))]"
    by (simp add: insert_sync_def in_memory_new_def short_link_new_def)
  have inv: "in_memory_inv ?m" by (intro insert_sync_inv in_memory_inv_new)
  have len: "length (im_inner ?m) = 2" by (simp only: inner) simp
  have sorted: "sorted_links ?m = [short_link_new ''b'' ''y'' 7000000000, short_link_new ''a'' ''x'' 5000000000]"
    unfolding sorted_links_def inner
    by (simp add: link_entry_new_def short_link_new_def list_key_def sort_key_def)
  have "created_at_cursor (short_link_new c u 5000000000) = (''5'', c)"
    "created_at_cursor (short_link_new c u 7000000000) = (''7'', c)" for c u
    by (simp_all add: created_at_cursor_def created_secs_text_def short_link_new_def since_epoch_def as_secs_def
        show_nat.simps digit_def char_of_def bit_0)
  moreover have "cursor_round_trip sample_listing_service (''5'', ''a'')" "cursor_round_trip sample_listing_service (''7'', ''b'')"
    by (simp_all add: cursor_round_trip_def sample_listing_service_def sample_service_def from_utf8_def)
  moreover have "list_limit (page_params ''1'' None) = 1"
    by (simp add: list_limit_def page_params_def sample_link_values)
  ultimately show ?thesis
    using http_paging_is_complete [of sample_listing_service sample_env ?s ?m "''1''", OF _ _ inv] len sorted
    by (simp add: sample_listing_service_def sample_service_def numeral_3_eq_3 del: walk_http.simps)
qed

end
