(* ===== verification/Spec2Isabelle.thy ===== *)
theory Spec2Isabelle
  imports Unit_Tests Rate_Bound Api_Doc Startup Layers Listing
begin

text \<open>
  A verification library for \<open>shorty\<close>, a link shortener in Rust with an HTTP and a gRPC interface, an
  in-memory and a PostgreSQL store, a Redis cache, JWT authentication, a rate limiter and a background
  task that purges expired links.

  The parts of the program and their theories:

  \<^item> \<open>Prelude\<close>: machine integers, times, outcomes that may panic (\<open>run\<close>), hash maps, strings, numerals.
    A \<open>u64\<close> or \<open>i64\<close> is a 64-bit word and its arithmetic wraps, as in a release build. A \<open>SystemTime\<close> is
    its distance from the epoch in nanoseconds, an \<open>Instant\<close> a number of nanoseconds.
  \<^item> \<open>Domain_Link\<close> (\<open>crates/domain/src/lib.rs\<close>): links, statistics, storage errors and the trait
    \<open>LinkRepository\<close>, a record of methods over a hidden state. Its contract is the locale \<open>repository\<close>,
    with two extensions for a store that cannot fail and for one that locks optimistically.
  \<^item> \<open>Sliding_Window\<close>, \<open>Stats_Storage\<close> (\<open>crates/domain/src/stats.rs\<close>): the ring of 60 seconds, compared
    with the history of hits, and the storage of shared windows, with its handles as addresses.
  \<^item> \<open>F64\<close>, \<open>Token_Bucket\<close> (\<open>crates/domain/src/rate_limit.rs\<close>), \<open>Rate_Limit_Storage\<close>
    (\<open>crates/storage/src/rate_limit_storage.rs\<close>), \<open>Rate_Limit_Api\<close> (\<open>shorty-server/src/api/rate_limit.rs\<close>):
    the rate limiter from its floating-point arithmetic, with every rounding, to the middleware.
    \<open>Rate_Bound\<close> bounds what is granted over time, with the errors of all roundings added up.
  \<^item> \<open>In_Memory\<close> (\<open>crates/storage/src/in_memory.rs\<close>) and \<open>Postgres\<close> (\<open>crates/storage/src/postgres.rs\<close> and
    the migration): the two stores, each an interpretation of the contract. The first refines an
    abstract map; the second is a table with its constraints, and any statement may fail.
  \<^item> \<open>Cache\<close> (\<open>crates/storage/src/cache.rs\<close>): the Redis client over a service whose commands answer,
    fail or time out.
  \<^item> \<open>Request_Id\<close>, \<open>Api_Error\<close>, \<open>Dto\<close>, \<open>Auth\<close>, \<open>Config\<close> (the files of the same names in
    \<open>shorty-server/src\<close>): the request-id scope, the error format, validation, login and tokens, and the
    configuration from the environment.
  \<^item> \<open>Handlers\<close>, \<open>Stats_Api\<close> (\<open>shorty-server/src/api/handlers.rs\<close> and \<open>stats.rs\<close>): the HTTP handlers as
    functions on the application state, with \<open>h_bind\<close> for Rust's \<open>?\<close>, and what each does to the links of
    any repository. \<open>Async_Tasks\<close> has the same handlers as tasks that give way at every \<open>await\<close>.
  \<^item> \<open>Router\<close> (\<open>shorty-server/src/lib.rs\<close>): routes, authentication layer, request ids and the request
    counter. \<open>Grpc\<close> (\<open>shorty-server/src/grpc/mod.rs\<close>): the gRPC service.
  \<^item> \<open>Backend\<close> (\<open>shorty-server/src/main.rs\<close>): the choice of the store, behind which the contract still
    holds. \<open>Cleanup\<close> (\<open>shorty-server/src/cleanup.rs\<close>): the purging task as a step relation.
  \<^item> \<open>Coherence\<close>, \<open>Service\<close>, \<open>Sample_Service\<close>, \<open>Service_Properties\<close>: the cache against the store, sequences
    of requests, one concrete service, and the properties that span components.
  \<^item> \<open>Layers\<close> (\<open>build_router\<close> again): the whole stack with its time-out, which drops a handler at the
    \<open>await\<close> it has come to, and the limit of the body.
  \<^item> \<open>Listing\<close>: a client that follows the cursors of \<open>GET /api/v1/links\<close>, over handler and store.
  \<^item> \<open>Api_Doc\<close> (the \<open>utoipa\<close> attributes of the handlers and \<open>ApiDoc\<close> in \<open>lib.rs\<close>): the documented
    operations as data, compared with routes and handlers.
  \<^item> \<open>Startup\<close> (\<open>shorty-server/src/main.rs\<close>, \<open>crates/storage/src/telemetry.rs\<close>): \<open>main\<close> and \<open>run\<close> from
    the environment to the state the servers start on, the metrics recorder and pool gauges, and the
    life of the process as a step relation: signal, the two servers, \<open>select!\<close>, the final wait.
  \<^item> \<open>Unit_Tests\<close>: the unit tests in the source files as functions on the model, each with a lemma that it
    passes, and under which readings of the clock.

  How the parts interact. The handlers call the store through the trait and the cache through its
  client; both are fields of the application state, so a handler's effect is the order of its calls.
  Lemmas about handlers are proved once in the locale \<open>repository\<close> and reach the properties through
  \<open>dyn\<close>, its interpretation on the store that \<open>Backend\<close> dispatches to, so each holds on both stores.

  What the lemmas show. The stores: refinement of a map, complete paging (but for a page size of zero),
  no lost update and exact replies on PostgreSQL, errors that change nothing. The limiter: tokens between
  zero and the capacity, exact bursts (but for a period of zero, which switches it off), isolation of
  clients, monotone refilling, never more than the configured rate over time, and a wait that suffices. The
  window: exact or at least no undercount. The cache: time to live within bounds, and no stale answer of
  \<open>GET /api/v1/links/{code}\<close> after any sequence of completed requests, if Redis answers its deletions. The
  service: with authentication on, no management endpoint without a token, over HTTP and gRPC; creation that
  never overwrites, times to live that are honoured, redirects that count once and creations that exclude
  each other under every interleaving, deletions that are final in the store, purges that remove what has
  expired, and requests that a time-out drops entirely or not at all. The interface: every response counted
  and under its request id, statuses and paths as documented but for the exceptions listed, short URLs but
  for seven reserved codes, page tokens. The process: a coherent state at the start, a purge that is due at
  once and then once a period, and a shutdown that terminates and has a cause. Errors, configuration and
  validation: every branch. Where the program does not do what it means to, a lemma shows an example.

  Bounds and fuel. \<open>walk_pages\<close> takes the number of requests of a client that follows cursors; the
  paging properties give one request per page, and one for the end, and prove that it suffices. The
  tasks of \<open>Async_Tasks\<close> run two or three steps, a creation two more than the configured attempts. The
  process makes at most six steps that end something. The window properties are about times below
  \<open>2 ^ 63\<close> seconds or as stated; the burst properties about capacities up to \<open>2 ^ 53\<close>, where every whole
  number is an \<open>f64\<close>; the rate property about \<open>2 ^ 50\<close> requests times capacity and \<open>2 ^ 49\<close> tokens refilled, below
  which the roundings add up to less than one token.

  Parameters. What the sources call outside the repository is an argument: the URL parser, JSON,
  base64, JWT, password hashing and key files, chrono, Redis, random values, UUIDs, clock readings,
  the answers of the extractors to a bad body or query, of the documentation UI, and to a body that is too
  large, and for the start the record \<open>outside\<close> of \<open>Startup\<close>. How the router matches a path, decodes a
  path parameter (percent encoding, then UTF-8) and how the request-id layers treat the header is modelled
  as the libraries document it.
  What the properties need of them is a named predicate (\<open>jwt_signs\<close>, \<open>redis_maps\<close>, \<open>redis_deletes\<close>,
  \<open>json_round_trip\<close>, \<open>exact_cursors\<close>, \<open>cursor_round_trip\<close>), with an instance that keeps it.

  Not modelled. Lock poisoning; a database reply lost after its commit; statements of other requests
  between the two of a PostgreSQL update; interleavings inside \<open>DashMap\<close>; tracing spans and the latency
  histogram, which no code reads; how a server accepts and drains connections, which is an event of
  \<open>Startup\<close>; the gRPC transport with its health and reflection services; what the Prometheus recorder
  renders; how late a timer that is due fires; and the build script: they keep no state of the program or only call libraries.
\<close>

end
